(* ===== verification/Prelude.thy ===== *)
theory Prelude
  imports Main "HOL-Library.Word"
begin

unbundle bit_operations_syntax

text \<open>
  What every other theory of the development shares: the names of the C types, the collections
  of facts the component proofs draw on, and the generic lemmas on lists and machine words.

  The C types are modelled at their width: \<open>uint8_t\<close>, \<open>uint16_t\<close>, \<open>uint32_t\<close> and the 64-bit
  \<open>size_t\<close> of the supported platform are words, so \<open>+\<close> and \<open>-\<close> wrap as the code's do. A C
  \<open>int\<close> that only carries a file descriptor or a return code is an \<open>int\<close>.
\<close>

type_synonym u8 = "8 word"
type_synonym u16 = "16 word"
type_synonym u32 = "32 word"
type_synonym u64 = "64 word"
type_synonym size_t = "64 word"

text \<open>
  \<open>wp\<close>: how the weakest liberal precondition of each program construct computes.
  \<open>frame\<close>: which fields an operation leaves alone.
  \<open>handle_defs\<close>: the definitions of the model's small state accessors.
\<close>

named_theorems wp
named_theorems frame
named_theorems handle_defs

section \<open>Lists\<close>

text \<open>Counting the elements that satisfy a test, and how an update by index changes the count.\<close>

definition countp :: "('a \<Rightarrow> bool) \<Rightarrow> 'a list \<Rightarrow> nat" where
  "countp P xs = length (filter P xs)"

lemma countp_simps [simp]:
  "countp P [] = 0"
  "countp P (x # xs) = (if P x then Suc (countp P xs) else countp P xs)"
  "countp P (xs @ ys) = countp P xs + countp P ys"
  by (simp_all add: countp_def)

lemma countp_le_length [simp]: "countp P xs \<le> length xs"
  by (simp add: countp_def)

lemma countp_pos: "i < length xs \<Longrightarrow> P (xs ! i) \<Longrightarrow> 0 < countp P xs"
  unfolding countp_def by (auto simp: filter_empty_conv)

lemma countp_update:
  "i < length xs \<Longrightarrow>
   countp P (xs[i := y]) + (if P (xs ! i) then 1 else 0) = countp P xs + (if P y then 1 else 0)"
proof (induction xs arbitrary: i)
  case Nil
  then show ?case by simp
next
  case (Cons x xs)
  then show ?case by (cases i) auto
qed

lemma countp_update_same:
  "i < length xs \<Longrightarrow> P y = P (xs ! i) \<Longrightarrow> countp P (xs[i := y]) = countp P xs"
  using countp_update [of i xs P y] by (auto split: if_splits)

lemma countp_update_on:
  "i < length xs \<Longrightarrow> \<not> P (xs ! i) \<Longrightarrow> P y \<Longrightarrow> countp P (xs[i := y]) = Suc (countp P xs)"
  using countp_update [of i xs P y] by simp

lemma countp_update_off:
  "i < length xs \<Longrightarrow> P (xs ! i) \<Longrightarrow> \<not> P y \<Longrightarrow> countp P (xs[i := y]) = countp P xs - 1"
  using countp_update [of i xs P y] by simp

lemma countp_zero_iff: "countp P xs = 0 \<longleftrightarrow> (\<forall>i < length xs. \<not> P (xs ! i))"
  unfolding countp_def by (simp add: filter_empty_conv all_set_conv_all_nth)

lemma countp_all_iff: "countp P xs = length xs \<longleftrightarrow> (\<forall>i < length xs. P (xs ! i))"
proof -
  have "countp P xs = length xs \<longleftrightarrow> (\<forall>x \<in> set xs. P x)"
    unfolding countp_def
    by (metis filter_True filter_id_conv length_filter_less less_irrefl_nat)
  then show ?thesis by (simp add: all_set_conv_all_nth)
qed

lemma countp_disjoint_le:
  "(\<And>x. \<not> (P x \<and> Q x)) \<Longrightarrow> countp P xs + countp Q xs \<le> length xs"
  by (induction xs) (auto simp: le_Suc_eq)

lemma countp_replicate [simp]: "countp P (replicate n x) = (if P x then n else 0)"
  by (induction n) auto

lemma countp_cong: "(\<And>x. x \<in> set xs \<Longrightarrow> P x = Q x) \<Longrightarrow> countp P xs = countp Q xs"
  unfolding countp_def by (metis filter_cong)

lemma countp_map: "countp P (map f xs) = countp (\<lambda>x. P (f x)) xs"
  by (induction xs) auto

text \<open>The index of the first element that satisfies a test.\<close>

fun find_index :: "('a \<Rightarrow> bool) \<Rightarrow> 'a list \<Rightarrow> nat option" where
  "find_index P [] = None"
| "find_index P (x # xs) = (if P x then Some 0 else map_option Suc (find_index P xs))"

lemma find_index_Some:
  "find_index P xs = Some i \<longleftrightarrow> i < length xs \<and> P (xs ! i) \<and> (\<forall>j < i. \<not> P (xs ! j))"
proof (induction xs arbitrary: i)
  case Nil
  then show ?case by simp
next
  case (Cons x xs)
  show ?case
    by (cases i) (auto simp: Cons.IH less_Suc_eq_0_disj)
qed

lemma find_index_None: "find_index P xs = None \<longleftrightarrow> (\<forall>i < length xs. \<not> P (xs ! i))"
  by (induction xs) (auto simp: less_Suc_eq_0_disj)

lemma fold_update_prefix:
  "n \<le> length xs \<Longrightarrow> fold (\<lambda>j ys. ys[j := c]) [0..<n] xs = replicate n c @ drop n xs"
proof (induction n)
  case 0
  then show ?case by simp
next
  case (Suc n)
  then have "fold (\<lambda>j ys. ys[j := c]) [0..<Suc n] xs = (replicate n c @ drop n xs)[n := c]"
    by simp
  also have "\<dots> = replicate n c @ (drop n xs)[0 := c]"
    by (simp add: list_update_append)
  also have "(drop n xs)[0 := c] = c # drop (Suc n) xs"
    using Suc.prems by (simp add: Cons_nth_drop_Suc [symmetric])
  finally show ?case by (simp add: replicate_app_Cons_same)
qed

text \<open>Overwriting a run of bytes in a buffer, and reading one back.\<close>

definition blit :: "'a list \<Rightarrow> nat \<Rightarrow> 'a list \<Rightarrow> 'a list" where
  "blit dst off src = take off dst @ src @ drop (off + length src) dst"

definition slice :: "nat \<Rightarrow> nat \<Rightarrow> 'a list \<Rightarrow> 'a list" where
  "slice off n xs = take n (drop off xs)"

lemma length_blit [simp]:
  "off + length src \<le> length dst \<Longrightarrow> length (blit dst off src) = length dst"
  by (simp add: blit_def)

lemma length_slice [simp]: "off + n \<le> length xs \<Longrightarrow> length (slice off n xs) = n"
  by (simp add: slice_def)

lemma slice_blit_same:
  "off + length src \<le> length dst \<Longrightarrow> slice off (length src) (blit dst off src) = src"
  by (simp add: slice_def blit_def)

lemma nth_blit:
  "off + length src \<le> length dst \<Longrightarrow> i < length dst \<Longrightarrow>
   blit dst off src ! i = (if off \<le> i \<and> i < off + length src then src ! (i - off) else dst ! i)"
  by (auto simp: blit_def nth_append min_def)

lemma nth_slice [simp]: "off + n \<le> length xs \<Longrightarrow> i < n \<Longrightarrow> slice off n xs ! i = xs ! (off + i)"
  by (simp add: slice_def)

lemma slice_blit_disjoint:
  assumes "off + length src \<le> length dst" and "p + n \<le> length dst"
    and "p + n \<le> off \<or> off + length src \<le> p"
  shows "slice p n (blit dst off src) = slice p n dst"
  by (rule nth_equalityI) (use assms in \<open>auto simp: nth_blit\<close>)

lemma blit_commute:
  assumes "a + length x \<le> length buf" and "b + length y \<le> length buf"
    and "a + length x \<le> b \<or> b + length y \<le> a"
  shows "blit (blit buf a x) b y = blit (blit buf b y) a x"
  by (rule nth_equalityI) (use assms in \<open>auto simp: nth_blit\<close>)

lemma take_blit: "off + length src \<le> length dst \<Longrightarrow>
  take (off + length src) (blit dst off src) = take off dst @ src"
  by (simp add: blit_def)

text \<open>What the kernel delivers for a request of \<open>n\<close> bytes, made exactly \<open>n\<close> long.\<close>

definition fit :: "nat \<Rightarrow> u8 list \<Rightarrow> u8 list" where
  "fit n bs = take n (bs @ replicate n 0)"

lemma length_fit [simp]: "length (fit n bs) = n"
  by (simp add: fit_def)

lemma fit_id [simp]: "length bs = n \<Longrightarrow> fit n bs = bs"
  by (simp add: fit_def)

section \<open>Machine words\<close>

lemma unat_minus_1: "(w :: 'a :: len word) \<noteq> 0 \<Longrightarrow> unat (w - 1) = unat w - 1"
  by (rule unat_minus_one)

lemma unat_plus_1: "Suc (unat (w :: 'a :: len word)) < 2 ^ LENGTH('a) \<Longrightarrow> unat (w + 1) = Suc (unat w)"
  by (simp add: unat_word_ariths)

lemma unat_of_nat_64 [simp]: "n < 2 ^ 64 \<Longrightarrow> unat (of_nat n :: u64) = n"
  by (simp add: unat_of_nat take_bit_nat_eq_self)

lemma unat_of_nat_32 [simp]: "n < 2 ^ 32 \<Longrightarrow> unat (of_nat n :: u32) = n"
  by (simp add: unat_of_nat take_bit_nat_eq_self)

lemma unat_plus_word_of_int:
  "0 \<le> n \<Longrightarrow> unat (x :: u64) + nat n < 2 ^ 64 \<Longrightarrow> unat (x + word_of_int n) = unat x + nat n"
  using unat_of_nat_64 [of "nat n"] by (simp add: unat_word_ariths)

lemma unat_minus_1_32: "unat (- 1 :: u32) = 4294967295"
  by (simp add: unsigned_minus_1_eq_mask mask_eq_exp_minus_1)

lemma unat_minus_1_64: "unat (- 1 :: u64) = 18446744073709551615"
  by (simp add: unsigned_minus_1_eq_mask mask_eq_exp_minus_1)

lemma unat_ucast_32_64 [simp]: "unat (ucast (x :: u32) :: u64) = unat x"
proof -
  have "uint (ucast x :: u64) = uint x"
    by (rule uint_up_ucast) (simp add: is_up)
  then show ?thesis by (metis nat_uint_eq)
qed

lemma sint_small_32:
  assumes "unat (x :: u32) < 2 ^ 31"
  shows "sint x = int (unat x)"
proof -
  have u: "uint x = int (unat x)" by (rule uint_nat)
  from assms have "int (unat x) < int (2 ^ 31)" by (simp only: of_nat_less_iff)
  then have "uint x < 2 ^ 31" unfolding u by (simp only: of_nat_power of_nat_numeral)
  moreover have "- (2 ^ 31) \<le> uint x" by (rule order_trans [of _ 0]) simp_all
  ultimately have "signed_take_bit 31 (uint x) = uint x"
    by (simp only: signed_take_bit_int_eq_self_iff simp_thms)
  then show ?thesis unfolding u [symmetric] by (simp add: sint_uint)
qed

end
