(* ===== verification/Machine.thy ===== *)
theory Machine
  imports Prelude
begin

text \<open>
  The machine the C code runs on. The operating system is not part of the repository, so it is
  a parameter: an \<open>env\<close> answers each system call from the history of calls so far, says
  what bytes uninitialised memory holds, and fixes the host's byte order. A program is a
  function from a world (the component's handle and the history of calls) to its outcome:
  \<open>None\<close> if it never returns, otherwise a value or the way the process stopped, with the
  world at that moment. \<open>wpg\<close> is the weakest precondition that the component proofs use.
\<close>

section \<open>System calls and their answers\<close>

datatype errno = EAGAIN | ECONNRESET | EPIPE | ECONNREFUSED | EOTHER

text \<open>On Linux \<open>EWOULDBLOCK\<close> is the same number as \<open>EAGAIN\<close>.\<close>

definition EWOULDBLOCK :: errno where
  "EWOULDBLOCK = EAGAIN"

text \<open>An internet address; address and port are stored in network byte order.\<close>

record sockaddr_in =
  sin_family :: int
  s_addr :: u32
  sin_port :: u16

record addrinfo =
  ai_family :: int
  ai_socktype :: int
  ai_protocol :: int
  ai_addr :: sockaddr_in

datatype opt_level = SOL_SOCKET | IPPROTO_TCP_LEVEL

datatype sockopt =
    SO_BROADCAST | SO_REUSEADDR | SO_KEEPALIVE | SO_LINGER
  | TCP_KEEPIDLE | TCP_KEEPINTVL | TCP_KEEPCNT | TCP_USER_TIMEOUT
  | TCP_LINGER2 | TCP_NODELAY | TCP_CORK

datatype optval = IntVal int | LingerVal int int

text \<open>The operation of \<open>epoll_ctl\<close>, with the event mask and the \<open>data.fd\<close> it registers.\<close>

datatype epoll_op = CTL_ADD u32 int | CTL_MOD u32 int | CTL_DEL

text \<open>The heap blocks the code allocates, named by the field that holds the pointer.\<close>

datatype heap_block =
    ClientConns | RecvBuffer nat | TaskList nat | TaskManager
  | ThreadManager | TaskBuffer | RetBuffer
  | UserTasks | UserRets

datatype syscall =
    Socket int int int
  | Setsockopt int opt_level sockopt optval
  | Bind int sockaddr_in
  | Listen int int
  | Accept4 int int
  | Connect int sockaddr_in
  | Getaddrinfo string
  | Getnameinfo sockaddr_in
  | Fcntl int string int
  | Close int
  | Shutdown int
  | Recv int size_t int
  | Recvfrom int size_t int
  | Send int "u8 list" int
  | Sendto int "u8 list" int sockaddr_in
  | Read int size_t
  | Write int "u8 list"
  | EpollCreate1 int
  | EpollCtl int epoll_op int
  | EpollWait int int
  | TimerfdCreate
  | TimerfdSettime int int int
  | Eventfd int
  | Nanosleep int
  | Malloc heap_block size_t
  | Calloc heap_block size_t size_t
  | Free heap_block
  | PthreadCreate nat
  | PthreadJoin int
  | PthreadAttr string
  | Fopen string
  | FscanfInt
  | Fclose
  | GetNprocs
  | Time
  | Ctime int
  | Gettimeofday
  | Localtime int
  | Strftime nat string
  | Open string int int
  | Dprintf int string
  | Fprintf string

text \<open>
  The answer: the C return value, \<open>errno\<close> (meaningful after a failure), the bytes delivered,
  the events of \<open>epoll_wait\<close> as pairs of \<open>data.fd\<close> and mask, the peer of \<open>recvfrom\<close> and the
  list of \<open>getaddrinfo\<close>, and the number \<open>fscanf\<close> stores; for \<open>gettimeofday\<close>, the microseconds
  since the epoch.
\<close>

record sysret =
  r_ret :: int
  r_errno :: errno
  r_data :: "u8 list"
  r_events :: "(int \<times> u32) list"
  r_addr :: sockaddr_in
  r_addrs :: "addrinfo list"
  r_value :: int

type_synonym trace = "(syscall \<times> sysret) list"

datatype endian = LittleEndian | BigEndian

record env =
  sys :: "trace \<Rightarrow> syscall \<Rightarrow> sysret"
  junk :: "trace \<Rightarrow> nat \<Rightarrow> u8 list"
  host :: endian

text \<open>Constants of the Linux headers.\<close>

definition AF_INET :: int where "AF_INET = 2"
definition SOCK_STREAM :: int where "SOCK_STREAM = 1"
definition SOCK_DGRAM :: int where "SOCK_DGRAM = 2"
definition SOCK_NONBLOCK :: int where "SOCK_NONBLOCK = 2048"
definition IPPROTO_TCP :: int where "IPPROTO_TCP = 6"
definition MSG_WAITALL :: int where "MSG_WAITALL = 256"
definition MSG_NOSIGNAL :: int where "MSG_NOSIGNAL = 16384"
definition EPOLL_CLOEXEC :: int where "EPOLL_CLOEXEC = 524288"
definition O_NONBLOCK :: int where "O_NONBLOCK = 2048"
definition O_WRONLY :: int where "O_WRONLY = 1"
definition O_CREAT :: int where "O_CREAT = 64"
definition STDOUT :: int where "STDOUT = 1"
definition EFD_NONBLOCK :: int where "EFD_NONBLOCK = 2048"
definition INADDR_ANY :: u32 where "INADDR_ANY = 0"
definition INADDR_BROADCAST :: u32 where "INADDR_BROADCAST = 4294967295"
definition EPOLLIN :: u32 where "EPOLLIN = 1"
definition EPOLLOUT :: u32 where "EPOLLOUT = 4"
definition EPOLLERR :: u32 where "EPOLLERR = 8"
definition EPOLLHUP :: u32 where "EPOLLHUP = 16"
definition EPOLLRDHUP :: u32 where "EPOLLRDHUP = 8192"

section \<open>Programs\<close>

text \<open>
  How a process can stop: \<open>LOG_ERROR\<close> followed by \<open>exit(EXIT_FAILURE)\<close>, a \<open>BUG_ON\<close> (which
  also exits with failure), \<open>exit(EXIT_SUCCESS)\<close>, or undefined behaviour of C (an access out
  of bounds, a division by zero).
\<close>

datatype stop = Fatal string | Bug string | Quit | Undef string

record 'h world =
  hnd :: 'h
  trace :: trace

type_synonym ('h, 'a) prog = "'h world \<Rightarrow> ((stop + 'a) \<times> 'h world) option"

definition return :: "'a \<Rightarrow> ('h, 'a) prog" where
  "return x = (\<lambda>w. Some (Inr x, w))"

definition halt :: "stop \<Rightarrow> ('h, 'a) prog" where
  "halt e = (\<lambda>w. Some (Inl e, w))"

definition bind :: "('h, 'a) prog \<Rightarrow> ('a \<Rightarrow> ('h, 'b) prog) \<Rightarrow> ('h, 'b) prog" where
  "bind m f = (\<lambda>w. case m w of
      None \<Rightarrow> None
    | Some (r, w') \<Rightarrow> (case r of Inl e \<Rightarrow> Some (Inl e, w') | Inr x \<Rightarrow> f x w'))"

text \<open>Sequencing, when the first statement's value is not used.\<close>

definition andthen :: "('h, 'a) prog \<Rightarrow> ('h, 'b) prog \<Rightarrow> ('h, 'b) prog" where
  "andthen m n = bind m (\<lambda>_. n)"

definition log :: "syscall \<Rightarrow> sysret \<Rightarrow> 'h world \<Rightarrow> 'h world" where
  "log c r w = w\<lparr>trace := trace w @ [(c, r)]\<rparr>"

definition call :: "env \<Rightarrow> syscall \<Rightarrow> ('h, sysret) prog" where
  "call E c = (\<lambda>w. let r = sys E (trace w) c in Some (Inr r, log c r w))"

definition uninitialised :: "env \<Rightarrow> nat \<Rightarrow> ('h, u8 list) prog" where
  "uninitialised E n = (\<lambda>w. Some (Inr (fit n (junk E (trace w) n)), w))"

definition get :: "('h \<Rightarrow> 'a) \<Rightarrow> ('h, 'a) prog" where
  "get f = (\<lambda>w. Some (Inr (f (hnd w)), w))"

definition upd :: "('h \<Rightarrow> 'h) \<Rightarrow> 'h world \<Rightarrow> 'h world" where
  "upd f w = w\<lparr>hnd := f (hnd w)\<rparr>"

definition modify :: "('h \<Rightarrow> 'h) \<Rightarrow> ('h, unit) prog" where
  "modify f = (\<lambda>w. Some (Inr (), upd f w))"

text \<open>\<open>LOG_ERROR(msg); exit(EXIT_FAILURE)\<close> under a condition.\<close>

definition fail_if :: "bool \<Rightarrow> string \<Rightarrow> ('h, unit) prog" where
  "fail_if c msg = (if c then halt (Fatal msg) else return ())"

text \<open>
  The macro \<open>BUG_ON\<close> of Logging.h: when the condition holds, every path through the macro
  (also the ones where its own time calls fail) ends in \<open>exit(EXIT_FAILURE)\<close>.
\<close>

definition bug_on :: "bool \<Rightarrow> string \<Rightarrow> ('h, unit) prog" where
  "bug_on c msg = (if c then halt (Bug msg) else return ())"

text \<open>What C leaves undefined.\<close>

definition undef_if :: "bool \<Rightarrow> string \<Rightarrow> ('h, unit) prog" where
  "undef_if c msg = (if c then halt (Undef msg) else return ())"

text \<open>A system call whose only use is the test that its result is \<open>-1\<close>.\<close>

definition must :: "env \<Rightarrow> syscall \<Rightarrow> string \<Rightarrow> ('h, int) prog" where
  "must E c msg = bind (call E c) (\<lambda>r. andthen (fail_if (r_ret r = -1) msg) (return (r_ret r)))"

text \<open>The same as a statement, and a block of statements.\<close>

definition must_ok :: "env \<Rightarrow> syscall \<Rightarrow> string \<Rightarrow> ('h, unit) prog" where
  "must_ok E c msg = andthen (must E c msg) (return ())"

fun block :: "('h, unit) prog list \<Rightarrow> ('h, unit) prog" where
  "block [] = return ()"
| "block (m # ms) = andthen m (block ms)"

text \<open>A call that reports failure by any value but zero (the \<open>pthread\<close> and name calls).\<close>

definition must_zero :: "env \<Rightarrow> syscall \<Rightarrow> string \<Rightarrow> ('h, unit) prog" where
  "must_zero E c msg = bind (call E c) (\<lambda>r. fail_if (r_ret r \<noteq> 0) msg)"

text \<open>An allocation, with the test for a null pointer.\<close>

definition alloc :: "env \<Rightarrow> syscall \<Rightarrow> string \<Rightarrow> ('h, unit) prog" where
  "alloc E c msg = bind (call E c) (\<lambda>r. fail_if (r_ret r = 0) msg)"

text \<open>Loops: over a range, over a range with an early exit, and without a bound.\<close>

fun for_each :: "'x list \<Rightarrow> ('x \<Rightarrow> ('h, unit) prog) \<Rightarrow> ('h, unit) prog" where
  "for_each [] f = return ()"
| "for_each (x # xs) f = andthen (f x) (for_each xs f)"

fun for_until :: "'x list \<Rightarrow> ('x \<Rightarrow> ('h, 'a option) prog) \<Rightarrow> ('h, 'a option) prog" where
  "for_until [] f = return None"
| "for_until (x # xs) f =
     bind (f x) (\<lambda>r. case r of Some y \<Rightarrow> return (Some y) | None \<Rightarrow> for_until xs f)"

text \<open>
  \<open>loop b\<close> repeats the body until it returns \<open>Some\<close> value; it is \<open>None\<close> where the C loop
  would run forever.
\<close>

partial_function (option) loop :: "('h, 'a option) prog \<Rightarrow> ('h, 'a) prog" where
  "loop b w = (case b w of
      None \<Rightarrow> None
    | Some p \<Rightarrow> (case fst p of
          Inl e \<Rightarrow> Some (Inl e, snd p)
        | Inr c \<Rightarrow> (case c of
              None \<Rightarrow> loop b (snd p)
            | Some x \<Rightarrow> Some (Inr x, snd p))))"

declare loop.simps [code]

lemma loop_unfold:
  "loop b = bind b (\<lambda>c. case c of None \<Rightarrow> loop b | Some x \<Rightarrow> return x)"
  by (rule ext, subst loop.simps)
     (auto simp: bind_def return_def split: option.splits sum.splits)

lemma for_until_append:
  "for_until (xs @ ys) f =
     bind (for_until xs f) (\<lambda>r. case r of Some y \<Rightarrow> return (Some y) | None \<Rightarrow> for_until ys f)"
  by (induction xs)
     (auto simp: bind_def return_def split: option.splits sum.splits prod.splits intro!: ext)

section \<open>Weakest preconditions\<close>

text \<open>
  \<open>wpg d m Q S w\<close>: run from \<open>w\<close>, the program ends in a value and world that satisfy \<open>Q\<close>, or
  stops the process in a way that satisfies \<open>S\<close>; if it never returns, the verdict is \<open>d\<close>
  (\<open>True\<close> for partial, \<open>False\<close> for total correctness).
\<close>

definition wpg :: "bool \<Rightarrow> ('h, 'a) prog \<Rightarrow> ('a \<Rightarrow> 'h world \<Rightarrow> bool) \<Rightarrow>
    (stop \<Rightarrow> 'h world \<Rightarrow> bool) \<Rightarrow> 'h world \<Rightarrow> bool" where
  "wpg d m Q S w = (case m w of
      None \<Rightarrow> d
    | Some (r, w') \<Rightarrow> (case r of Inl e \<Rightarrow> S e w' | Inr x \<Rightarrow> Q x w'))"

abbreviation anything :: "stop \<Rightarrow> 'h world \<Rightarrow> bool" where
  "anything \<equiv> \<lambda>_ _. True"

text \<open>
  \<open>answers E w c r\<close>: the kernel's answer to the call \<open>c\<close> in the world \<open>w\<close> is \<open>r\<close>. Kept as a
  constant, so that a history that mentions an answer does not contain the history again.
\<close>

definition answers :: "env \<Rightarrow> 'h world \<Rightarrow> syscall \<Rightarrow> sysret \<Rightarrow> bool" where
  "answers E w c r \<longleftrightarrow> r = sys E (trace w) c"

lemma wpg_return [wp]: "wpg d (return x) Q S w = Q x w"
  by (simp add: wpg_def return_def)

lemma wpg_halt [wp]: "wpg d (halt e) Q S w = S e w"
  by (simp add: wpg_def halt_def)

lemma wpg_bind [wp]: "wpg d (bind m f) Q S w = wpg d m (\<lambda>x w'. wpg d (f x) Q S w') S w"
  by (auto simp: wpg_def bind_def split: option.splits sum.splits)

lemma wpg_andthen [wp]: "wpg d (andthen m n) Q S w = wpg d m (\<lambda>_ w'. wpg d n Q S w') S w"
  by (simp add: andthen_def wpg_bind)

lemma wpg_call [wp]:
  "wpg d (call E c) Q S w = (\<forall>r. answers E w c r \<longrightarrow> Q r (log c r w))"
  by (simp add: wpg_def call_def answers_def Let_def)

lemma wpg_uninitialised [wp]:
  "wpg d (uninitialised E n) Q S w = Q (fit n (junk E (trace w) n)) w"
  by (simp add: wpg_def uninitialised_def)

lemma wpg_get [wp]: "wpg d (get f) Q S w = Q (f (hnd w)) w"
  by (simp add: wpg_def get_def)

lemma wpg_modify [wp]: "wpg d (modify f) Q S w = Q () (upd f w)"
  by (simp add: wpg_def modify_def)

lemma wpg_if [wp]:
  "wpg d (if b then m else n) Q S w = (if b then wpg d m Q S w else wpg d n Q S w)"
  by simp

lemma wpg_fail_if [wp]: "wpg d (fail_if c msg) Q S w = (if c then S (Fatal msg) w else Q () w)"
  by (simp add: fail_if_def wp)

lemma wpg_bug_on [wp]: "wpg d (bug_on c msg) Q S w = (if c then S (Bug msg) w else Q () w)"
  by (simp add: bug_on_def wp)

lemma wpg_undef_if [wp]: "wpg d (undef_if c msg) Q S w = (if c then S (Undef msg) w else Q () w)"
  by (simp add: undef_if_def wp)

lemma wpg_must [wp]:
  "wpg d (must E c msg) Q S w = (\<forall>r. answers E w c r \<longrightarrow>
     (if r_ret r = -1 then S (Fatal msg) (log c r w) else Q (r_ret r) (log c r w)))"
  by (simp add: must_def wp)

lemma wpg_must_ok [wp]:
  "wpg d (must_ok E c msg) Q S w = (\<forall>r. answers E w c r \<longrightarrow>
     (if r_ret r = -1 then S (Fatal msg) (log c r w) else Q () (log c r w)))"
  by (simp add: must_ok_def wp)

lemma wpg_must_zero [wp]:
  "wpg d (must_zero E c msg) Q S w = (\<forall>r. answers E w c r \<longrightarrow>
     (if r_ret r \<noteq> 0 then S (Fatal msg) (log c r w) else Q () (log c r w)))"
  by (simp add: must_zero_def wp)

lemma wpg_block [wp]:
  "wpg d (block []) Q S w = Q () w"
  "wpg d (block (m # ms)) Q S w = wpg d m (\<lambda>_ w'. wpg d (block ms) Q S w') S w"
  by (simp_all add: wp)

lemma wpg_alloc [wp]:
  "wpg d (alloc E c msg) Q S w = (\<forall>r. answers E w c r \<longrightarrow>
     (if r_ret r = 0 then S (Fatal msg) (log c r w) else Q () (log c r w)))"
  by (simp add: alloc_def wp)

lemma wpg_case_option [wp]:
  "wpg d (case x of None \<Rightarrow> m | Some y \<Rightarrow> f y) Q S w =
     (case x of None \<Rightarrow> wpg d m Q S w | Some y \<Rightarrow> wpg d (f y) Q S w)"
  by (cases x) simp_all

lemma log_simps [simp]:
  "hnd (log c r w) = hnd w"
  "trace (log c r w) = trace w @ [(c, r)]"
  by (simp_all add: log_def)

lemma upd_simps [simp]:
  "hnd (upd f w) = f (hnd w)"
  "trace (upd f w) = trace w"
  by (simp_all add: upd_def)

lemma answers_exists: "\<exists>r. answers E w c r"
  by (simp add: answers_def)

lemma wpg_mono:
  "wpg d m Q S w \<Longrightarrow> (\<And>x w'. Q x w' \<Longrightarrow> Q' x w') \<Longrightarrow> (\<And>e w'. S e w' \<Longrightarrow> S' e w') \<Longrightarrow>
   wpg d m Q' S' w"
  by (auto simp: wpg_def split: option.splits sum.splits)

lemma wpg_total_partial: "wpg False m Q S w \<Longrightarrow> wpg d m Q S w"
  by (auto simp: wpg_def split: option.splits)

lemma wpg_conj:
  "wpg d m Q S w \<Longrightarrow> wpg d m Q' S' w \<Longrightarrow>
   wpg d m (\<lambda>x w'. Q x w' \<and> Q' x w') (\<lambda>e w'. S e w' \<and> S' e w') w"
  by (auto simp: wpg_def split: option.splits sum.splits)

lemma wpg_returns: "wpg d m Q S w \<Longrightarrow> m w = Some (Inr x, w') \<Longrightarrow> Q x w'"
  by (simp add: wpg_def)

lemma wpg_stops: "wpg d m Q S w \<Longrightarrow> m w = Some (Inl e, w') \<Longrightarrow> S e w'"
  by (simp add: wpg_def)

lemma wpg_total: "wpg False m Q S w \<Longrightarrow> \<exists>r. m w = Some r"
  by (auto simp: wpg_def split: option.splits)

lemma wpgI:
  assumes "m w = None \<Longrightarrow> d"
    and "\<And>x w'. m w = Some (Inr x, w') \<Longrightarrow> Q x w'"
    and "\<And>e w'. m w = Some (Inl e, w') \<Longrightarrow> S e w'"
  shows "wpg d m Q S w"
  using assms by (auto simp: wpg_def split: option.splits sum.splits)

text \<open>The rules for loops: an invariant, and for total correctness a measure.\<close>

lemma wpg_for_each:
  assumes "I w" and "\<And>x w. x \<in> set xs \<Longrightarrow> I w \<Longrightarrow> wpg d (f x) (\<lambda>_. I) S w"
    and "\<And>w. I w \<Longrightarrow> Q () w"
  shows "wpg d (for_each xs f) Q S w"
  using assms(1,2)
proof (induction xs arbitrary: w)
  case Nil
  then show ?case using assms(3) by (simp add: wp)
next
  case (Cons x xs)
  have "wpg d (f x) (\<lambda>_. I) S w" using Cons.prems by simp
  then show ?case
    by (auto simp: wp intro!: Cons.IH Cons.prems(2) elim: wpg_mono)
qed

text \<open>The same with the index of the round in the invariant.\<close>

lemma wpg_for_each_upt:
  assumes "I m w" and "m \<le> n" and "\<And>k w. m \<le> k \<Longrightarrow> k < n \<Longrightarrow> I k w \<Longrightarrow> wpg d (f k) (\<lambda>_. I (Suc k)) S w"
    and "\<And>w. I n w \<Longrightarrow> Q () w"
  shows "wpg d (for_each [m..<n] f) Q S w"
  using assms(1-3)
proof (induction "n - m" arbitrary: m w)
  case 0
  then show ?case using assms(4) by (simp add: wp)
next
  case (Suc x)
  then have mn: "m < n" by simp
  then have "[m..<n] = m # [Suc m..<n]" by (rule upt_conv_Cons)
  moreover have "wpg d (f m) (\<lambda>_ w'. wpg d (for_each [Suc m..<n] f) Q S w') S w"
    by (rule wpg_mono [OF Suc.prems(3) [OF order_refl mn Suc.prems(1)]])
      (use Suc mn in \<open>auto intro!: Suc.hyps(1) Suc.prems(3)\<close>)
  ultimately show ?case by (simp add: wp)
qed

text \<open>Statements at the head of a block that keep a property.\<close>

lemma wpg_block_append:
  assumes "P w" and "\<And>m w. m \<in> set ms \<Longrightarrow> P w \<Longrightarrow> wpg d m (\<lambda>_. P) S w"
    and "\<And>w. P w \<Longrightarrow> wpg d (block rest) Q S w"
  shows "wpg d (block (ms @ rest)) Q S w"
  using assms(1,2)
proof (induction ms arbitrary: w)
  case Nil
  then show ?case using assms(3) by simp
next
  case (Cons m ms)
  have "wpg d m (\<lambda>_ w'. wpg d (block (ms @ rest)) Q S w') S w"
    by (rule wpg_mono [OF Cons.prems(2) [of m]]) (use Cons in auto)
  then show ?case by (simp add: wpg_andthen)
qed

lemma wpg_for_until:
  assumes "I w"
    and "\<And>x w. x \<in> set xs \<Longrightarrow> I w \<Longrightarrow>
           wpg d (f x) (\<lambda>r w'. case r of None \<Rightarrow> I w' | Some y \<Rightarrow> Q (Some y) w') S w"
    and "\<And>w. I w \<Longrightarrow> Q None w"
  shows "wpg d (for_until xs f) Q S w"
  using assms(1,2)
proof (induction xs arbitrary: w)
  case Nil
  then show ?case using assms(3) by (simp add: wp)
next
  case (Cons x xs)
  have "wpg d (f x) (\<lambda>r w'. case r of None \<Rightarrow> I w' | Some y \<Rightarrow> Q (Some y) w') S w"
    using Cons.prems by simp
  then show ?case
    by (auto simp: wp intro!: Cons.IH Cons.prems(2) elim!: wpg_mono split: option.splits)
qed

lemma wpg_loop_partial:
  assumes I: "I w"
    and body: "\<And>w. I w \<Longrightarrow>
      wpg True b (\<lambda>c w'. case c of None \<Rightarrow> I w' | Some x \<Rightarrow> Q x w') S w"
  shows "wpg True (loop b) Q S w"
proof (cases "loop b w")
  case None
  then show ?thesis by (simp add: wpg_def)
next
  case (Some r)
  have "b = b \<longrightarrow> I w \<longrightarrow> (case fst r of Inl e \<Rightarrow> S e (snd r) | Inr x \<Rightarrow> Q x (snd r))"
  proof (rule loop.raw_induct [where P = "\<lambda>b' w r. b' = b \<longrightarrow> I w \<longrightarrow>
        (case fst r of Inl e \<Rightarrow> S e (snd r) | Inr x \<Rightarrow> Q x (snd r))",
        OF _ Some])
    fix lp b' w' r'
    assume IH: "\<And>b'' w r. lp b'' w = Some r \<Longrightarrow> b'' = b \<longrightarrow> I w \<longrightarrow>
        (case fst r of Inl e \<Rightarrow> S e (snd r) | Inr x \<Rightarrow> Q x (snd r))"
      and eq: "(case b' w' of None \<Rightarrow> None
        | Some p \<Rightarrow> (case fst p of Inl e \<Rightarrow> Some (Inl e, snd p)
            | Inr c \<Rightarrow> (case c of None \<Rightarrow> lp b' (snd p) | Some x \<Rightarrow> Some (Inr x, snd p)))) = Some r'"
    show "b' = b \<longrightarrow> I w' \<longrightarrow>
        (case fst r' of Inl e \<Rightarrow> S e (snd r') | Inr x \<Rightarrow> Q x (snd r'))"
    proof (intro impI)
      assume "b' = b" and "I w'"
      have step: "I w'' \<Longrightarrow> lp b w'' = Some r' \<Longrightarrow>
          case fst r' of Inl e \<Rightarrow> S e (snd r') | Inr x \<Rightarrow> Q x (snd r')" for w''
        using IH [of b w'' r'] by simp
      from \<open>b' = b\<close> \<open>I w'\<close> body [of w'] eq show
        "case fst r' of Inl e \<Rightarrow> S e (snd r') | Inr x \<Rightarrow> Q x (snd r')"
        by (cases "b w'"; cases "fst r'")
          (use step in \<open>auto simp: wpg_def split: sum.splits option.splits\<close>)
    qed
  qed
  with I Some show ?thesis
    by (cases r) (auto simp: wpg_def split: sum.splits)
qed

lemma wpg_loop_total:
  fixes m :: "'h world \<Rightarrow> nat"
  assumes "I w"
    and body: "\<And>w. I w \<Longrightarrow>
      wpg d b (\<lambda>c w'. case c of None \<Rightarrow> I w' \<and> m w' < m w | Some x \<Rightarrow> Q x w') S w"
  shows "wpg d (loop b) Q S w"
  using assms(1)
proof (induction "m w" arbitrary: w rule: less_induct)
  case less
  have "wpg d b (\<lambda>c w'. wpg d (case c of None \<Rightarrow> loop b | Some x \<Rightarrow> return x) Q S w') S w"
    by (rule wpg_mono [OF body [OF less.prems]])
       (auto simp: wp less.hyps split: option.splits)
  then show ?case
    by (subst loop_unfold) (simp add: wpg_bind)
qed

text \<open>A loop whose body always comes back to a state of the same kind never returns.\<close>

lemma loop_diverges:
  assumes I: "I w" and step: "\<And>w. I w \<Longrightarrow> \<exists>w'. b w = Some (Inr None, w') \<and> I w'"
  shows "loop b w = None"
proof -
  have "wpg True (loop b) (\<lambda>_ _. False) (\<lambda>_ _. False) w"
    by (rule wpg_loop_partial [where I = I, OF I])
      (use step in \<open>auto simp: wpg_def split: option.splits sum.splits\<close>, force+)
  then show ?thesis by (auto simp: wpg_def split: option.splits sum.splits)
qed

text \<open>Reading off an outcome.\<close>

lemma wpg_outcome:
  "wpg False m Q (\<lambda>_ _. False) w \<Longrightarrow> \<exists>x w'. m w = Some (Inr x, w') \<and> Q x w'"
  by (cases "m w"; cases "fst (the (m w))") (auto simp: wpg_def)

lemma wpg_exact:
  "wpg False m (\<lambda>x w'. x = a \<and> w' = w1) (\<lambda>_ _. False) w \<Longrightarrow> m w = Some (Inr a, w1)"
  by (auto dest: wpg_outcome)

lemma wpg_stopped:
  "wpg False m (\<lambda>_ _. False) S w \<Longrightarrow> \<exists>e w'. m w = Some (Inl e, w') \<and> S e w'"
  by (cases "m w"; cases "fst (the (m w))") (auto simp: wpg_def)

section \<open>Programs that only talk to the kernel\<close>

text \<open>
  \<open>orderly e\<close>: the process stopped through one of its own exits, not by undefined behaviour.
  \<open>silent m\<close>: the program always returns or stops in an orderly way, and leaves the handle as
  it is. The set-up calls of the code are of this kind.
\<close>

definition orderly :: "stop \<Rightarrow> bool" where
  "orderly e \<longleftrightarrow> (\<forall>msg. e \<noteq> Undef msg)"

lemma orderly_simps [simp]:
  "orderly (Fatal msg)" "orderly (Bug msg)" "orderly Quit" "\<not> orderly (Undef msg)"
  by (simp_all add: orderly_def)

definition silent :: "('h, 'a) prog \<Rightarrow> bool" where
  "silent m \<longleftrightarrow> (\<forall>w. wpg False m (\<lambda>_ w'. hnd w' = hnd w) (\<lambda>e _. orderly e) w)"

lemma silentI: "(\<And>w. wpg False m (\<lambda>_ w'. hnd w' = hnd w) (\<lambda>e _. orderly e) w) \<Longrightarrow> silent m"
  by (simp add: silent_def)

lemma wpg_silent:
  assumes "silent m" and "\<And>x w'. hnd w' = hnd w \<Longrightarrow> Q x w'" and "\<And>e w'. orderly e \<Longrightarrow> S e w'"
  shows "wpg d m Q S w"
  by (rule wpg_total_partial,
      rule wpg_mono [where Q = "\<lambda>_ w'. hnd w' = hnd w" and S = "\<lambda>e _. orderly e"])
     (use assms in \<open>auto simp: silent_def\<close>)

section \<open>What the kernel promises\<close>

text \<open>
  The documented behaviour of the calls whose results the code uses as lengths and keys:
  \<open>recv\<close> returns \<open>-1\<close> or at most the length asked for, and \<open>epoll_wait\<close> reports only
  descriptors that were registered, never \<open>-1\<close>.
\<close>

definition kernel_sound :: "env \<Rightarrow> bool" where
  "kernel_sound E \<longleftrightarrow>
     (\<forall>tr fd n fl. -1 \<le> r_ret (sys E tr (Recv fd n fl)) \<and>
        r_ret (sys E tr (Recv fd n fl)) \<le> int (unat n)) \<and>
     (\<forall>tr ep m. \<forall>ev \<in> set (r_events (sys E tr (EpollWait ep m))). fst ev \<noteq> -1)"

lemma kernel_sound_recv:
  "kernel_sound E \<Longrightarrow> answers E w (Recv fd n fl) r \<Longrightarrow> -1 \<le> r_ret r \<and> nat (r_ret r) \<le> unat n"
  unfolding kernel_sound_def answers_def by (metis nat_le_iff)

lemma kernel_sound_epoll:
  "kernel_sound E \<Longrightarrow> answers E w (EpollWait ep m) r \<Longrightarrow> ev \<in> set (r_events r) \<Longrightarrow> fst ev \<noteq> -1"
  by (auto simp: kernel_sound_def answers_def)

end
