(* ===== verification/Wire.thy ===== *)
theory Wire
  imports Machine
begin

text \<open>
  cluster-api/Config.h: the system-wide constants, the commands of the protocol and the packed
  \<open>RequestHeader\<close> with its encoding. A message is five header bytes (the command and the task
  id in network order) followed by a payload whose length both sides know.
\<close>

section \<open>Constants\<close>

definition DISCOVERY_SERVER_PORT :: u16 where "DISCOVERY_SERVER_PORT = 9798"
definition DISCOVERY_CLIENT_PORT :: u16 where "DISCOVERY_CLIENT_PORT = 9799"
definition DISCOVERY_REPEAT_INTERVAL :: int where "DISCOVERY_REPEAT_INTERVAL = 1"

text \<open>The datagrams are C strings: the size counts the closing zero byte.\<close>

definition c_string :: "string \<Rightarrow> u8 list" where
  "c_string s = map of_char s @ [0]"

definition CLIENTS_DISCOVERY_DATAGRAM :: "u8 list" where
  "CLIENTS_DISCOVERY_DATAGRAM = c_string ''Where are you, CLUSTER-SERVER!''"

definition CLIENTS_DISCOVERY_DATAGRAM_SIZE :: nat where
  "CLIENTS_DISCOVERY_DATAGRAM_SIZE = length CLIENTS_DISCOVERY_DATAGRAM"

definition SERVERS_DISCOVERY_DATAGRAM :: "u8 list" where
  "SERVERS_DISCOVERY_DATAGRAM = c_string ''I am here, CLUSTER-CLIENT!''"

definition SERVERS_DISCOVERY_DATAGRAM_SIZE :: nat where
  "SERVERS_DISCOVERY_DATAGRAM_SIZE = length SERVERS_DISCOVERY_DATAGRAM"

definition CONNECTION_PORT :: u16 where "CONNECTION_PORT = 9798"
definition CONNECTION_PORT_STR :: string where "CONNECTION_PORT_STR = ''9798''"
definition MAX_SIMULTANEOUS_CONNECTIONS :: nat where "MAX_SIMULTANEOUS_CONNECTIONS = 100"
definition LISTEN_CONNECTION_BACKLOG :: int where "LISTEN_CONNECTION_BACKLOG = 10"
definition TCP_KEEPALIVE_IDLE_TIME :: int where "TCP_KEEPALIVE_IDLE_TIME = 1"
definition TCP_KEEPALIVE_INTERVAL :: int where "TCP_KEEPALIVE_INTERVAL = 1"
definition TCP_KEEPALIVE_NUM_PROBES :: int where "TCP_KEEPALIVE_NUM_PROBES = 4"
definition TCP_NO_SEND_ACKS_TIMEOUT :: int where "TCP_NO_SEND_ACKS_TIMEOUT = 5000"
definition MAX_TASKS_PER_CLIENT :: nat where "MAX_TASKS_PER_CLIENT = 16"

section \<open>Commands and the request header\<close>

definition ERR_CONN_BROKEN :: u8 where "ERR_CONN_BROKEN = 0"
definition ERR_NOT_READY :: u8 where "ERR_NOT_READY = 1"
definition CMD_REQUEST_FOR_DATA :: u8 where "CMD_REQUEST_FOR_DATA = 2"
definition CMD_RESULT :: u8 where "CMD_RESULT = 3"
definition CMD_TASK :: u8 where "CMD_TASK = 4"

lemmas cmd_defs = ERR_CONN_BROKEN_def ERR_NOT_READY_def CMD_REQUEST_FOR_DATA_def
  CMD_RESULT_def CMD_TASK_def

record request_header =
  cmd :: u8
  task_id :: u32

text \<open>\<open>sizeof(struct RequestHeader)\<close>: the struct is packed.\<close>

definition sizeof_header :: nat where
  "sizeof_header = 5"

section \<open>Byte order\<close>

text \<open>A 32-bit value, most significant byte first.\<close>

definition be_bytes :: "u32 \<Rightarrow> u8 list" where
  "be_bytes w = [ucast (drop_bit 24 w), ucast (drop_bit 16 w), ucast (drop_bit 8 w), ucast w]"

fun u32_of_be :: "u8 list \<Rightarrow> u32" where
  "u32_of_be [a, b, c, d] =
     push_bit 24 (ucast a) OR push_bit 16 (ucast b) OR push_bit 8 (ucast c) OR ucast d"
| "u32_of_be _ = 0"

text \<open>How the host lays a 32-bit value out in memory, and reads one.\<close>

definition mem_of_u32 :: "endian \<Rightarrow> u32 \<Rightarrow> u8 list" where
  "mem_of_u32 e w = (case e of LittleEndian \<Rightarrow> rev (be_bytes w) | BigEndian \<Rightarrow> be_bytes w)"

definition u32_of_mem :: "endian \<Rightarrow> u8 list \<Rightarrow> u32" where
  "u32_of_mem e bs = (case e of LittleEndian \<Rightarrow> u32_of_be (rev bs) | BigEndian \<Rightarrow> u32_of_be bs)"

definition mem_of_u64 :: "endian \<Rightarrow> u64 \<Rightarrow> u8 list" where
  "mem_of_u64 e w =
     (let hi = be_bytes (ucast (drop_bit 32 w)) @ be_bytes (ucast w)
      in case e of LittleEndian \<Rightarrow> rev hi | BigEndian \<Rightarrow> hi)"

definition bswap32 :: "u32 \<Rightarrow> u32" where
  "bswap32 w = u32_of_be (rev (be_bytes w))"

text \<open>\<open>htobe32\<close> and \<open>be32toh\<close> of endian.h: the identity or a byte swap, by the host.\<close>

definition htobe32 :: "endian \<Rightarrow> u32 \<Rightarrow> u32" where
  "htobe32 e w = (case e of LittleEndian \<Rightarrow> bswap32 w | BigEndian \<Rightarrow> w)"

definition be32toh :: "endian \<Rightarrow> u32 \<Rightarrow> u32" where
  "be32toh e w = htobe32 e w"

definition htonl :: "endian \<Rightarrow> u32 \<Rightarrow> u32" where
  "htonl e w = htobe32 e w"

definition htons :: "endian \<Rightarrow> u16 \<Rightarrow> u16" where
  "htons e p = (case e of LittleEndian \<Rightarrow> push_bit 8 p OR drop_bit 8 p | BigEndian \<Rightarrow> p)"

text \<open>
  The header in memory, as \<open>memcpy(send_buffer, header, sizeof(*header))\<close> copies it, and the
  header as the receivers take it out of their buffer.
\<close>

definition header_bytes :: "endian \<Rightarrow> request_header \<Rightarrow> u8 list" where
  "header_bytes e h = cmd h # mem_of_u32 e (task_id h)"

definition parse_header :: "endian \<Rightarrow> u8 list \<Rightarrow> request_header" where
  "parse_header e buf =
     \<lparr>cmd = buf ! 0, task_id = be32toh e (u32_of_mem e (slice 1 4 buf))\<rparr>"

text \<open>A header in an uninitialised stack variable.\<close>

definition uninitialised_header :: "env \<Rightarrow> ('h, request_header) prog" where
  "uninitialised_header E = bind (uninitialised E sizeof_header)
     (\<lambda>bs. return \<lparr>cmd = bs ! 0, task_id = u32_of_mem (host E) (slice 1 4 bs)\<rparr>)"

section \<open>Facts\<close>

lemma length_be_bytes [simp]: "length (be_bytes w) = 4"
  by (simp add: be_bytes_def)

lemma length_mem_of_u32 [simp]: "length (mem_of_u32 e w) = 4"
  by (cases e) (simp_all add: mem_of_u32_def)

lemma length_header_bytes [simp]: "length (header_bytes e h) = sizeof_header"
  by (simp add: header_bytes_def sizeof_header_def)

lemma u32_of_be_bytes [simp]: "u32_of_be (be_bytes w) = w"
proof (rule bit_word_eqI)
  fix n
  assume "n < LENGTH(32)"
  then consider "n < 8" | "8 \<le> n" "n < 16" | "16 \<le> n" "n < 24" | "24 \<le> n" "n < 32"
    by fastforce
  then show "bit (u32_of_be (be_bytes w)) n = bit w n"
    by cases (auto simp: be_bytes_def bit_simps)
qed

lemma bit_u8_beyond: "8 \<le> n \<Longrightarrow> \<not> bit (x :: u8) n"
  using bit_imp_le_length [of x n] by auto

lemma be_bytes_u32_of_be: "be_bytes (u32_of_be [a, b, c, d]) = [a, b, c, d]"
  unfolding be_bytes_def
  by (auto intro!: bit_word_eqI simp: bit_simps bit_u8_beyond)

lemma rev_be_bytes: "\<exists>a b c d. rev (be_bytes w) = [a, b, c, d]"
  by (simp add: be_bytes_def)

lemma be_bytes_bswap32: "be_bytes (bswap32 w) = rev (be_bytes w)"
proof -
  obtain a b c d where "rev (be_bytes w) = [a, b, c, d]" using rev_be_bytes by blast
  then show ?thesis unfolding bswap32_def by (simp only: be_bytes_u32_of_be)
qed

lemma bswap32_bswap32 [simp]: "bswap32 (bswap32 w) = w"
  by (simp add: bswap32_def [of "bswap32 w"] be_bytes_bswap32)

lemma u32_of_mem_mem [simp]: "u32_of_mem e (mem_of_u32 e w) = w"
  by (cases e) (simp_all add: u32_of_mem_def mem_of_u32_def)

lemma be32toh_htobe32 [simp]: "be32toh e (htobe32 e w) = w"
  by (cases e) (simp_all add: be32toh_def htobe32_def)

lemma mem_htobe32: "mem_of_u32 e (htobe32 e w) = be_bytes w"
  by (cases e) (simp_all add: mem_of_u32_def htobe32_def be_bytes_bswap32)

lemma be32toh_mem: "be32toh e (u32_of_mem e (be_bytes w)) = w"
  using be32toh_htobe32 [of e w] u32_of_mem_mem [of e "htobe32 e w"]
  by (simp add: mem_htobe32)

lemma header_bytes_be:
  "header_bytes e \<lparr>cmd = c, task_id = htobe32 e t\<rparr> = c # be_bytes t"
  by (simp add: header_bytes_def mem_htobe32)

lemma parse_header_be:
  "parse_header e (c # be_bytes t @ payload) = \<lparr>cmd = c, task_id = t\<rparr>"
  by (simp add: parse_header_def slice_def be32toh_mem)

end
