(* ===== verification/SlotTable.thy ===== *)
theory SlotTable
  imports Prelude
begin

text \<open>
  The interface that three components of the code share: a fixed array of cells, a test for a
  free cell, and the linear search for the first free one. The server keeps its connections
  (\<open>socket_fd == -1\<close> is free) and each connection's task list (\<open>-1\<close> is free) this way, the
  client its threads (\<open>empty == 1\<close> is free). The locale states what the cells must promise and
  proves once what acquiring and releasing a cell does to the number of used cells; each
  component interprets it on its own cells.
\<close>

locale slot_table =
  fixes free :: "'c \<Rightarrow> bool"
    and admissible :: "'x \<Rightarrow> bool"
    and occupy :: "'x \<Rightarrow> 'c \<Rightarrow> 'c"
    and release :: "'c \<Rightarrow> 'c"
  assumes occupied: "admissible x \<Longrightarrow> \<not> free (occupy x c)"
    and released: "free (release c)"
begin

definition used :: "'c list \<Rightarrow> nat" where
  "used cs = countp (\<lambda>c. \<not> free c) cs"

lemma used_le: "used cs \<le> length cs"
  by (simp add: used_def)

lemma search_fails_iff_full: "find_index free cs = None \<longleftrightarrow> used cs = length cs"
  unfolding used_def countp_all_iff find_index_None by simp

lemma search_succeeds: "used cs < length cs \<Longrightarrow> \<exists>i. find_index free cs = Some i"
  using search_fails_iff_full [of cs] by (cases "find_index free cs") auto

lemma used_acquire:
  "find_index free cs = Some i \<Longrightarrow> admissible x \<Longrightarrow>
   used (cs[i := occupy x (cs ! i)]) = Suc (used cs)"
  unfolding used_def find_index_Some by (simp add: countp_update_on occupied)

lemma used_acquire_less: "find_index free cs = Some i \<Longrightarrow> used cs < length cs"
  using search_fails_iff_full [of cs] used_le [of cs] by (simp add: le_neq_implies_less)

lemma used_release:
  "i < length cs \<Longrightarrow> \<not> free (cs ! i) \<Longrightarrow> used (cs[i := release (cs ! i)]) = used cs - 1"
  unfolding used_def by (simp add: countp_update_off released)

lemma used_pos: "i < length cs \<Longrightarrow> \<not> free (cs ! i) \<Longrightarrow> 0 < used cs"
  unfolding used_def by (simp add: countp_pos)

lemma used_update_same:
  "i < length cs \<Longrightarrow> free c' = free (cs ! i) \<Longrightarrow> used (cs[i := c']) = used cs"
  unfolding used_def by (rule countp_update_same) simp_all

lemma used_release_all: "used (map release cs) = 0"
  unfolding used_def countp_zero_iff by (simp add: released)

end

end
