(* ===== verification/ServerState.thy ===== *)
theory ServerState
  imports Wire SlotTable
begin

text \<open>
  cluster-api/ClusterServer.h: the server's state. A pointer to a buffer is the buffer's
  contents; \<open>user_tasks\<close> and \<open>user_rets\<close> are the caller's memory, and the pointers that a
  \<open>TaskInfo\<close> keeps into them are byte offsets.
\<close>

record connection =
  socket_fd :: int
  recv_buffer :: "u8 list"
  bytes_recieved :: size_t
  now_sending_task_i :: u32
  requested_tasks :: size_t
  task_list :: "u32 list"

datatype task_status = NOT_RESOLVED | RESOLVING | COMPLETED

record task_info =
  task :: nat
  ret :: nat
  status :: task_status

record server =
  epoll_fd :: int
  discovery_socket_fd :: int
  broadcast_addr :: sockaddr_in
  accept_socket_fd :: int
  client_conns :: "connection list"
  num_clients :: size_t
  max_clients :: size_t
  task_manager :: "task_info list"
  num_not_resolved :: size_t
  num_completed :: size_t
  min_not_resolved_task :: size_t
  user_tasks :: "u8 list"
  user_rets :: "u8 list"
  num_tasks :: size_t
  task_size :: size_t
  ret_size :: size_t

text \<open>The indices of the code's loops over the connections, the task list and the tasks.\<close>

definition conn_indices :: "server \<Rightarrow> nat list" where
  "conn_indices h = [0..<unat (max_clients h)]"

definition conn :: "server \<Rightarrow> nat \<Rightarrow> connection" where
  [handle_defs]: "conn h i = client_conns h ! i"

definition set_conn :: "nat \<Rightarrow> (connection \<Rightarrow> connection) \<Rightarrow> server \<Rightarrow> server" where
  [handle_defs]: "set_conn i f h = h\<lparr>client_conns := (client_conns h)[i := f (conn h i)]\<rparr>"

definition task_status_of :: "server \<Rightarrow> nat \<Rightarrow> task_status" where
  [handle_defs]: "task_status_of h t = status (task_manager h ! t)"

definition set_status :: "nat \<Rightarrow> task_status \<Rightarrow> server \<Rightarrow> server" where
  [handle_defs]: "set_status t st h =
     h\<lparr>task_manager := (task_manager h)[t := (task_manager h ! t)\<lparr>status := st\<rparr>]\<rparr>"

text \<open>The size of a message from a client: the header and one result.\<close>

definition recv_buffer_size :: "server \<Rightarrow> size_t" where
  "recv_buffer_size h = of_nat sizeof_header + ret_size h"

text \<open>The connection table as a table of cells: a cell is free while its socket is \<open>-1\<close>.\<close>

interpretation conn_table: slot_table
  "\<lambda>c. socket_fd c = -1" "\<lambda>fd. fd \<noteq> -1"
  "\<lambda>fd c. c\<lparr>socket_fd := fd, bytes_recieved := 0, now_sending_task_i := -1, requested_tasks := 0\<rparr>"
  "\<lambda>c. c\<lparr>socket_fd := -1\<rparr>"
  by unfold_locales simp_all

text \<open>A task list as a table of cells: the task id \<open>-1\<close> (that is, \<open>UINT32_MAX\<close>) is free.\<close>

interpretation task_slots: slot_table
  "\<lambda>t :: u32. t = -1" "\<lambda>t. t \<noteq> -1" "\<lambda>t _. t" "\<lambda>_. -1"
  by unfold_locales simp_all

end
