(* ===== verification/Datagram.thy ===== *)
theory Datagram
  imports Wire
begin

text \<open>
  Discovery datagrams, as both programs receive them: the comparison of the buffer with the
  expected text, and the datagrams that a history sent.
\<close>

text \<open>
  \<open>strcmp(buffer, DATAGRAM) == 0\<close> on a buffer whose last byte was overwritten by zero. The
  bytes matter only when the datagram filled the whole buffer.
\<close>

definition strcmp_equal :: "u8 list \<Rightarrow> u8 list \<Rightarrow> bool" where
  "strcmp_equal a b \<longleftrightarrow> takeWhile (\<lambda>c. c \<noteq> 0) a = takeWhile (\<lambda>c. c \<noteq> 0) b"

definition is_datagram :: "u8 list \<Rightarrow> sysret \<Rightarrow> bool" where
  "is_datagram dgram r \<longleftrightarrow>
     r_ret r = int (length dgram) \<and>
     strcmp_equal ((fit (length dgram) (r_data r))[length dgram - 1 := 0]) dgram"

lemma strcmp_equal_closed:
  assumes "0 \<notin> set t" and "length xs = length t"
  shows "strcmp_equal (xs @ [0]) (t @ [0]) \<longleftrightarrow> xs = t"
proof -
  have t: "takeWhile (\<lambda>c. c \<noteq> 0) (t @ [0]) = t" using assms(1) by (subst takeWhile_append2) auto
  have "takeWhile (\<lambda>c. c \<noteq> 0) (xs @ [0]) = takeWhile (\<lambda>c. c \<noteq> 0) xs"
  proof (cases "0 \<in> set xs")
    case False
    then have a: "takeWhile (\<lambda>c. c \<noteq> 0) xs = xs" by (subst takeWhile_eq_all_conv) auto
    have "takeWhile (\<lambda>c. c \<noteq> 0) (xs @ [0]) = xs" by (subst takeWhile_append2) (use False in auto)
    from trans [OF this sym [OF a]] show ?thesis .
  qed (auto simp: takeWhile_append)
  moreover have "takeWhile (\<lambda>c. c \<noteq> 0) xs = t \<longleftrightarrow> xs = t"
  proof
    assume a: "takeWhile (\<lambda>c. c \<noteq> 0) xs = t"
    then have "length (takeWhile (\<lambda>c. c \<noteq> 0) xs) = length xs" using assms(2) by simp
    then have "takeWhile (\<lambda>c. c \<noteq> 0) xs = xs" by (metis takeWhile_eq_take take_all order_refl)
    with a show "xs = t" by simp
  qed (use assms(1) in \<open>auto simp: takeWhile_eq_all_conv\<close>)
  ultimately show ?thesis unfolding strcmp_equal_def t by simp
qed

text \<open>The text of the datagram; the closing byte is not compared, the buffer's last byte being
  overwritten before the comparison.\<close>

lemma is_datagram_iff:
  assumes "0 \<notin> set t"
  shows "is_datagram (t @ [0]) r \<longleftrightarrow>
    r_ret r = int (Suc (length t)) \<and> take (length t) (fit (Suc (length t)) (r_data r)) = t"
proof -
  let ?b = "fit (Suc (length t)) (r_data r)"
  have "?b[length t := 0] = take (length t) ?b @ [0]"
    by (simp add: upd_conv_take_nth_drop)
  then show ?thesis using strcmp_equal_closed [OF assms, of "take (length t) ?b"] by (simp add: is_datagram_def)
qed

definition is_sendto :: "syscall \<Rightarrow> bool" where
  "is_sendto c = (case c of Sendto fd bs fl a \<Rightarrow> True | _ \<Rightarrow> False)"

text \<open>The datagrams a history sent.\<close>

definition sentto :: "trace \<Rightarrow> syscall list" where
  "sentto tr = filter is_sendto (map fst tr)"

lemma sentto_simps [simp]:
  "sentto (tr @ tr') = sentto tr @ sentto tr'"
  "sentto [] = []"
  "sentto ((Recv fd n fl, r) # tr) = sentto tr"
  "sentto ((Sendto fd bs fl a, r) # tr) = Sendto fd bs fl a # sentto tr"
  by (simp_all add: sentto_def is_sendto_def)

end
