(* ===== verification/ServerDiscovery.thy ===== *)
theory ServerDiscovery
  imports ServerState Datagram
begin

text \<open>
  The discovery process of cluster-api/cluster-server.c: a broadcast UDP socket on which the
  server answers the clients' "where are you" datagrams.
\<close>

definition init_discovery_routine :: "env \<Rightarrow> (server, unit) prog" where
  "init_discovery_routine E =
     bind (must E (Socket AF_INET (SOCK_DGRAM OR SOCK_NONBLOCK) 0)
             ''Unable to create discovery-in socket'') (\<lambda>sock_fd.
     block
      [must_ok E (Setsockopt sock_fd SOL_SOCKET SO_BROADCAST (IntVal 1))
         ''Unable to call setsockopt()'',
       must_ok E (Setsockopt sock_fd SOL_SOCKET SO_REUSEADDR (IntVal 1))
         ''Unable to set SO_REUSEADDR socket option'',
       must_ok E (Bind sock_fd \<lparr>sin_family = AF_INET,
           s_addr = htonl (host E) INADDR_BROADCAST,
           sin_port = htons (host E) DISCOVERY_SERVER_PORT\<rparr>)
         ''Unable to bind()'',
       modify (\<lambda>h. h\<lparr>broadcast_addr := \<lparr>sin_family = AF_INET,
           s_addr = htonl (host E) INADDR_BROADCAST,
           sin_port = htons (host E) DISCOVERY_CLIENT_PORT\<rparr>\<rparr>),
       modify (\<lambda>h. h\<lparr>discovery_socket_fd := sock_fd\<rparr>)])"

definition free_discovery_routine :: "env \<Rightarrow> (server, unit) prog" where
  "free_discovery_routine E =
     bind (get discovery_socket_fd) (\<lambda>fd. must_ok E (Close fd) ''Unable to close socket'')"

definition start_discovery_routine :: "env \<Rightarrow> (server, unit) prog" where
  "start_discovery_routine E =
     bind (get epoll_fd) (\<lambda>epfd.
     bind (get discovery_socket_fd) (\<lambda>fd.
     must_ok E (EpollCtl epfd (CTL_ADD EPOLLIN fd) fd)
       ''Unable to register file descriptor for epoll''))"

text \<open>One round of the do-while loop: \<open>Some ()\<close> leaves it.\<close>

definition answer_round :: "env \<Rightarrow> (server, unit option) prog" where
  "answer_round E =
     bind (get discovery_socket_fd) (\<lambda>fd.
     bind (call E (Recv fd (of_nat CLIENTS_DISCOVERY_DATAGRAM_SIZE) 0)) (\<lambda>r.
     andthen (fail_if (r_ret r = -1 \<and> r_errno r \<noteq> EAGAIN \<and> r_errno r \<noteq> EWOULDBLOCK)
                ''Unable to recieve discovery datagram'')
     (if is_datagram CLIENTS_DISCOVERY_DATAGRAM r
      then bind (get broadcast_addr) (\<lambda>addr.
           andthen (must E (Sendto fd SERVERS_DISCOVERY_DATAGRAM MSG_NOSIGNAL addr)
                      ''Unable to broadcast discovery datagram'')
           (return (Some ())))
      else return (if r_ret r \<noteq> -1 then None else Some ()))))"

definition answer_clients_discovery_datagram :: "env \<Rightarrow> (server, unit) prog" where
  "answer_clients_discovery_datagram E = loop (answer_round E)"

section \<open>Answering\<close>

text \<open>
  A socket whose queue holds the datagrams that the answers \<open>rs\<close> deliver and is empty after
  them, and on which sending works.
\<close>

fun queued :: "env \<Rightarrow> trace \<Rightarrow> int \<Rightarrow> size_t \<Rightarrow> sysret list \<Rightarrow> bool" where
  "queued E tr fd n [] =
     (r_ret (sys E tr (Recv fd n 0)) = -1 \<and> r_errno (sys E tr (Recv fd n 0)) = EAGAIN)"
| "queued E tr fd n (r # rs) =
     (sys E tr (Recv fd n 0) = r \<and> r_ret r \<noteq> -1 \<and> queued E (tr @ [(Recv fd n 0, r)]) fd n rs \<and>
      (\<forall>bs a. r_ret (sys E (tr @ [(Recv fd n 0, r)]) (Sendto fd bs MSG_NOSIGNAL a)) \<noteq> -1))"

lemma answer_loop_queued:
  "queued E (trace w) (discovery_socket_fd (hnd w)) (of_nat CLIENTS_DISCOVERY_DATAGRAM_SIZE) rs \<Longrightarrow>
   \<exists>w'. loop (answer_round E) w = Some (Inr (), w') \<and> hnd w' = hnd w \<and>
     sentto (trace w') = sentto (trace w) @
       (if \<exists>r \<in> set rs. is_datagram CLIENTS_DISCOVERY_DATAGRAM r
        then [Sendto (discovery_socket_fd (hnd w)) SERVERS_DISCOVERY_DATAGRAM MSG_NOSIGNAL
                (broadcast_addr (hnd w))] else [])"
proof (induction rs arbitrary: w)
  case Nil
  let ?c = "Recv (discovery_socket_fd (hnd w)) (of_nat CLIENTS_DISCOVERY_DATAGRAM_SIZE) 0"
  have "\<not> is_datagram CLIENTS_DISCOVERY_DATAGRAM (sys E (trace w) ?c)"
    using Nil by (simp add: is_datagram_def)
  then have "answer_round E w = Some (Inr (Some ()), log ?c (sys E (trace w) ?c) w)"
    using Nil by (intro wpg_exact) (simp add: answer_round_def wp answers_def)
  then show ?case by (subst loop_unfold) (simp add: bind_def return_def)
next
  case (Cons r rs)
  let ?fd = "discovery_socket_fd (hnd w)"
  let ?c = "Recv ?fd (of_nat CLIENTS_DISCOVERY_DATAGRAM_SIZE) 0"
  let ?s = "Sendto ?fd SERVERS_DISCOVERY_DATAGRAM MSG_NOSIGNAL (broadcast_addr (hnd w))"
  show ?case
  proof (cases "is_datagram CLIENTS_DISCOVERY_DATAGRAM r")
    case True
    let ?w1 = "log ?s (sys E (trace (log ?c r w)) ?s) (log ?c r w)"
    have "answer_round E w = Some (Inr (Some ()), ?w1)"
      using Cons.prems True by (intro wpg_exact) (simp add: answer_round_def wp answers_def)
    then show ?thesis using True by (subst loop_unfold) (simp add: bind_def return_def)
  next
    case False
    have "answer_round E w = Some (Inr None, log ?c r w)"
      using Cons.prems False by (intro wpg_exact) (simp add: answer_round_def wp answers_def)
    then have "loop (answer_round E) w = loop (answer_round E) (log ?c r w)"
      by (subst loop_unfold) (simp add: bind_def)
    with Cons.IH [of "log ?c r w"] Cons.prems False show ?thesis by (auto split: if_splits)
  qed
qed

end
