(* ===== verification/ServerInv.thy ===== *)
theory ServerInv
  imports ServerState
begin

text \<open>
  The server's invariant, and the lemmas that say how assigning, completing and returning a
  task keep it. The task table and the task lists are viewed as a list of statuses and a matrix
  of cells; the central fact is that a task is \<open>RESOLVING\<close> exactly when one cell of one
  connection holds its id.
\<close>

section \<open>Statuses and cells\<close>

definition statuses :: "server \<Rightarrow> task_status list" where
  "statuses h = map status (task_manager h)"

definition cells :: "server \<Rightarrow> u32 list list" where
  "cells h = map task_list (client_conns h)"

definition holds :: "u32 list list \<Rightarrow> nat \<Rightarrow> nat \<Rightarrow> u32 \<Rightarrow> bool" where
  "holds cs i j t \<longleftrightarrow> i < length cs \<and> j < length (cs ! i) \<and> cs ! i ! j = t \<and> t \<noteq> -1"

definition set_cell :: "nat \<Rightarrow> nat \<Rightarrow> u32 \<Rightarrow> u32 list list \<Rightarrow> u32 list list" where
  "set_cell i j t cs = cs[i := (cs ! i)[j := t]]"

definition cells_ok :: "task_status list \<Rightarrow> u32 list list \<Rightarrow> bool" where
  "cells_ok sts cs \<longleftrightarrow>
     (\<forall>i j t. holds cs i j t \<longrightarrow> unat t < length sts \<and> sts ! unat t = RESOLVING) \<and>
     (\<forall>i j i' j' t. holds cs i j t \<longrightarrow> holds cs i' j' t \<longrightarrow> i = i' \<and> j = j') \<and>
     (\<forall>k < length sts. sts ! k = RESOLVING \<longrightarrow> (\<exists>i j. holds cs i j (of_nat k)))"

lemma holds_set_cell:
  "i < length cs \<Longrightarrow> j < length (cs ! i) \<Longrightarrow>
   holds (set_cell i j x cs) i' j' t =
     (if i' = i \<and> j' = j then x = t \<and> t \<noteq> -1 else holds cs i' j' t)"
  by (auto simp: holds_def set_cell_def nth_list_update)

lemma of_nat_u32_eq: "m < 2 ^ 32 \<Longrightarrow> n < 2 ^ 32 \<Longrightarrow> (of_nat m :: u32) = of_nat n \<longleftrightarrow> m = n"
  by (metis unat_of_nat_32)

lemma cells_ok_assign:
  assumes ok: "cells_ok sts cs" and k: "k < length sts" "sts ! k = NOT_RESOLVED"
    and small: "length sts < 2 ^ 32" and ij: "i < length cs" "j < length (cs ! i)"
    and free: "cs ! i ! j = -1"
  shows "cells_ok (sts[k := RESOLVING]) (set_cell i j (of_nat k) cs)"
proof -
  let ?cs = "set_cell i j (of_nat k) cs"
  have k32: "unat (of_nat k :: u32) = k" using k small by simp
  have new: "holds ?cs i' j' t \<longleftrightarrow>
      (if i' = i \<and> j' = j then of_nat k = t \<and> t \<noteq> -1 else holds cs i' j' t)" for i' j' t
    using ij by (rule holds_set_cell)
  have "k \<noteq> unat (- 1 :: u32)" using k small by (simp add: unat_minus_1_32)
  then have kne: "(of_nat k :: u32) \<noteq> -1" using k32 by auto
  have old: "\<not> holds cs i' j' (of_nat k)" for i' j'
    using ok k k32 unfolding cells_ok_def by (metis task_status.distinct(1))
  show ?thesis
    unfolding cells_ok_def length_list_update
  proof (intro conjI allI impI)
    fix i' j' t
    assume "holds ?cs i' j' t"
    then show "unat t < length sts" and "sts[k := RESOLVING] ! unat t = RESOLVING"
      using ok k k32 unfolding new cells_ok_def
      by (auto simp: nth_list_update split: if_splits)
  next
    fix i1 j1 i2 j2 t
    assume "holds ?cs i1 j1 t" and "holds ?cs i2 j2 t"
    then show "i1 = i2" and "j1 = j2"
      using ok old unfolding new cells_ok_def by (auto split: if_splits)
  next
    fix m
    assume m: "m < length sts" and r: "sts[k := RESOLVING] ! m = RESOLVING"
    show "\<exists>i' j'. holds ?cs i' j' (of_nat m)"
    proof (cases "m = k")
      case True
      with kne show ?thesis unfolding new by (intro exI [of _ i] exI [of _ j]) simp
    next
      case False
      with r m ok obtain i' j' where h: "holds cs i' j' (of_nat m)"
        unfolding cells_ok_def by auto
      then have "\<not> (i' = i \<and> j' = j)" using free by (auto simp: holds_def)
      with h show ?thesis unfolding new by (intro exI [of _ i'] exI [of _ j']) auto
    qed
  qed
qed

lemma cells_ok_release:
  assumes ok: "cells_ok sts cs" and h: "holds cs i j t" and st: "st \<noteq> RESOLVING"
    and small: "length sts < 2 ^ 32"
  shows "cells_ok (sts[unat t := st]) (set_cell i j (-1) cs)"
proof -
  let ?cs = "set_cell i j (-1) cs"
  have ij: "i < length cs" "j < length (cs ! i)" and t: "t \<noteq> -1" "cs ! i ! j = t"
    using h by (auto simp: holds_def)
  have new: "holds ?cs i' j' t' \<longleftrightarrow> holds cs i' j' t' \<and> \<not> (i' = i \<and> j' = j)" for i' j' t'
    using holds_set_cell [OF ij, of "-1" i' j' t'] by auto
  have uniq: "holds cs i' j' t \<Longrightarrow> i' = i \<and> j' = j" for i' j'
    using ok h unfolding cells_ok_def by blast
  have tlt: "unat t < length sts" using ok h unfolding cells_ok_def by blast
  show ?thesis
    unfolding cells_ok_def length_list_update
  proof (intro conjI allI impI)
    fix i' j' t'
    assume a: "holds ?cs i' j' t'"
    then have "t' \<noteq> t" using uniq unfolding new by blast
    then have "unat t \<noteq> unat t'" by (simp add: word_unat_eq_iff)
    with a ok show "unat t' < length sts" and "sts[unat t := st] ! unat t' = RESOLVING"
      unfolding new cells_ok_def by auto
  next
    fix i1 j1 i2 j2 t'
    assume "holds ?cs i1 j1 t'" and "holds ?cs i2 j2 t'"
    then show "i1 = i2" and "j1 = j2"
      using ok unfolding new cells_ok_def by blast+
  next
    fix m
    assume m: "m < length sts" and r: "sts[unat t := st] ! m = RESOLVING"
    have "m \<noteq> unat t" using r m st by (auto simp: nth_list_update)
    with r m ok obtain i' j' where h': "holds cs i' j' (of_nat m)"
      unfolding cells_ok_def by auto
    have "(of_nat m :: u32) \<noteq> t" using \<open>m \<noteq> unat t\<close> m small by auto
    then have "\<not> (i' = i \<and> j' = j)" using h' t by (auto simp: holds_def)
    with h' show "\<exists>i' j'. holds ?cs i' j' (of_nat m)" unfolding new by blast
  qed
qed

section \<open>The invariant\<close>

text \<open>
  What never changes after the initialisation: the sizes of the tables and of the caller's
  buffers. The number of tasks is bounded by what a C \<open>int\<close> can index, because
  \<open>drop_resolving_tasks\<close> reads task ids into an \<open>int\<close>; a message is shorter than 2 GB, because
  \<open>read_data_on_connection\<close> keeps what \<open>recv\<close> returns in an \<open>int\<close>; and no
  C object is larger than \<open>PTRDIFF_MAX\<close>.
\<close>

definition config_ok :: "server \<Rightarrow> bool" where
  "config_ok h \<longleftrightarrow>
     length (client_conns h) = unat (max_clients h) \<and> 0 < unat (max_clients h) \<and>
     length (task_manager h) = unat (num_tasks h) \<and> unat (num_tasks h) \<le> 2 ^ 31 \<and>
     num_tasks h \<noteq> 0 \<and> task_size h \<noteq> 0 \<and> length (user_tasks h) < 2 ^ 63 \<and>
     sizeof_header + unat (ret_size h) < 2 ^ 31 \<and> ret_size h \<noteq> 0 \<and>
     length (user_rets h) = unat (num_tasks h) * unat (ret_size h) \<and>
     length (user_tasks h) = unat (num_tasks h) * unat (task_size h) \<and>
     (\<forall>t < unat (num_tasks h). ret (task_manager h ! t) = t * unat (ret_size h))"

text \<open>One connection: the receive buffer is never full between calls, a free cell of the
  table holds no task.\<close>

definition conn_ok :: "nat \<Rightarrow> connection \<Rightarrow> bool" where
  "conn_ok rsize c \<longleftrightarrow>
     length (recv_buffer c) = sizeof_header + rsize \<and>
     unat (bytes_recieved c) < sizeof_header + rsize \<and>
     length (task_list c) = MAX_TASKS_PER_CLIENT \<and>
     (socket_fd c = -1 \<longrightarrow> task_list c = replicate MAX_TASKS_PER_CLIENT (-1))"

definition quiet :: "connection \<Rightarrow> bool" where
  "quiet c \<longleftrightarrow> socket_fd c = -1 \<or> now_sending_task_i c = -1"

definition counters_ok :: "server \<Rightarrow> bool" where
  "counters_ok h \<longleftrightarrow>
     unat (num_not_resolved h) = countp (\<lambda>s. s = NOT_RESOLVED) (statuses h) \<and>
     unat (num_completed h) = countp (\<lambda>s. s = COMPLETED) (statuses h) \<and>
     unat (min_not_resolved_task h) \<le> unat (num_tasks h) \<and>
     (\<forall>t < unat (min_not_resolved_task h). statuses h ! t \<noteq> NOT_RESOLVED)"

definition core_inv :: "server \<Rightarrow> bool" where
  "core_inv h \<longleftrightarrow> config_ok h \<and>
     (\<forall>i < length (client_conns h). conn_ok (unat (ret_size h)) (conn h i)) \<and>
     unat (num_clients h) = conn_table.used (client_conns h) \<and>
     cells_ok (statuses h) (cells h) \<and> counters_ok h"

text \<open>Between two events no connection is in the middle of a send.\<close>

definition server_inv :: "server \<Rightarrow> bool" where
  "server_inv h \<longleftrightarrow> core_inv h \<and> (\<forall>i < length (client_conns h). quiet (conn h i))"

section \<open>How the accessors see an update\<close>

lemma statuses_simps [simp]:
  "length (statuses h) = length (task_manager h)"
  "statuses (set_conn i f h) = statuses h"
  "statuses (set_status t st h) = (statuses h)[t := st]"
  "cells (set_status t st h) = cells h"
  "length (cells h) = length (client_conns h)"
  by (simp_all add: statuses_def cells_def handle_defs map_update)

lemma task_status_of_statuses:
  "t < length (task_manager h) \<Longrightarrow> task_status_of h t = statuses h ! t"
  by (simp add: statuses_def handle_defs)

lemma cells_nth [simp]: "i < length (client_conns h) \<Longrightarrow> cells h ! i = task_list (conn h i)"
  by (simp add: cells_def conn_def)

lemma cells_set_conn: "cells (set_conn i f h) = (cells h)[i := task_list (f (conn h i))]"
  by (simp add: cells_def set_conn_def map_update)

lemma cells_set_conn_cell:
  "i < length (client_conns h) \<Longrightarrow>
   cells (set_conn i (\<lambda>c. c\<lparr>task_list := (task_list c)[j := t]\<rparr>) h) = set_cell i j t (cells h)"
  by (simp add: cells_set_conn set_cell_def)

lemma cells_set_conn_same:
  "i < length (client_conns h) \<Longrightarrow> task_list (f (conn h i)) = task_list (conn h i) \<Longrightarrow>
   cells (set_conn i f h) = cells h"
  by (simp add: cells_set_conn) (metis cells_nth list_update_id)

lemma conn_set_conn:
  "i < length (client_conns h) \<Longrightarrow>
   conn (set_conn i f h) k = (if k = i then f (conn h i) else conn h k)"
  by (simp add: handle_defs)

lemma set_conn_fields [simp]:
  "length (client_conns (set_conn i f h)) = length (client_conns h)"
  "max_clients (set_conn i f h) = max_clients h"
  "num_clients (set_conn i f h) = num_clients h"
  "task_manager (set_conn i f h) = task_manager h"
  "num_not_resolved (set_conn i f h) = num_not_resolved h"
  "num_completed (set_conn i f h) = num_completed h"
  "min_not_resolved_task (set_conn i f h) = min_not_resolved_task h"
  "user_tasks (set_conn i f h) = user_tasks h"
  "user_rets (set_conn i f h) = user_rets h"
  "num_tasks (set_conn i f h) = num_tasks h"
  "task_size (set_conn i f h) = task_size h"
  "ret_size (set_conn i f h) = ret_size h"
  "epoll_fd (set_conn i f h) = epoll_fd h"
  "accept_socket_fd (set_conn i f h) = accept_socket_fd h"
  "discovery_socket_fd (set_conn i f h) = discovery_socket_fd h"
  by (simp_all add: set_conn_def)

lemma set_status_fields [simp]:
  "client_conns (set_status t st h) = client_conns h"
  "max_clients (set_status t st h) = max_clients h"
  "num_clients (set_status t st h) = num_clients h"
  "length (task_manager (set_status t st h)) = length (task_manager h)"
  "num_not_resolved (set_status t st h) = num_not_resolved h"
  "num_completed (set_status t st h) = num_completed h"
  "min_not_resolved_task (set_status t st h) = min_not_resolved_task h"
  "user_tasks (set_status t st h) = user_tasks h"
  "user_rets (set_status t st h) = user_rets h"
  "num_tasks (set_status t st h) = num_tasks h"
  "task_size (set_status t st h) = task_size h"
  "ret_size (set_status t st h) = ret_size h"
  "epoll_fd (set_status t st h) = epoll_fd h"
  "accept_socket_fd (set_status t st h) = accept_socket_fd h"
  "discovery_socket_fd (set_status t st h) = discovery_socket_fd h"
  "conn (set_status t st h) i = conn h i"
  by (simp_all add: set_status_def conn_def)

lemma set_status_ret [simp]:
  "ret (task_manager (set_status t st h) ! k) = ret (task_manager h ! k)"
  by (cases "t < length (task_manager h)"; cases "k = t")
     (simp_all add: set_status_def list_update_beyond)

end
