(* ===== verification/ServerTasks.thy ===== *)
theory ServerTasks
  imports ServerInv
begin

text \<open>
  Task management of cluster-api/cluster-server.c: the task table with its counters, the
  assignment of a task to a connection, the collection of a result, and the return of a lost
  connection's tasks to the pool.
\<close>

section \<open>The operations\<close>

definition init_task_management_routine :: "env \<Rightarrow> (server, unit) prog" where
  "init_task_management_routine E =
     bind (get num_tasks) (\<lambda>n.
     block
      [alloc E (Calloc TaskManager n 24) ''alloc task manager'',
       modify (\<lambda>h. h\<lparr>task_manager := map (\<lambda>i.
           \<lparr>task = unat (of_nat i * task_size h),
            ret = unat (of_nat i * ret_size h),
            status = NOT_RESOLVED\<rparr>) [0..<unat n]\<rparr>),
       modify (\<lambda>h. h\<lparr>num_not_resolved := num_tasks h, num_completed := 0,
                      min_not_resolved_task := 0\<rparr>)])"

definition free_task_management_routine :: "env \<Rightarrow> (server, unit) prog" where
  "free_task_management_routine E = andthen (call E (Free TaskManager)) (return ())"

text \<open>
  The search of \<open>get_task_to_send\<close>: the index at which the code's loop over
  \<open>[min_not_resolved_task, num_tasks)\<close> stops, by \<open>break\<close> or because it ran out.
\<close>

definition next_task :: "server \<Rightarrow> nat" where
  "next_task h =
     (let lo = unat (min_not_resolved_task h); hi = unat (num_tasks h)
      in case find_index (\<lambda>t. task_status_of h t = NOT_RESOLVED) [lo..<hi] of
           Some k \<Rightarrow> lo + k
         | None \<Rightarrow> max lo hi)"

definition take_task :: "nat \<Rightarrow> server \<Rightarrow> server" where
  "take_task t h =
     (if t < unat (num_tasks h)
      then (set_status t RESOLVING h)\<lparr>num_not_resolved := num_not_resolved h - 1,
             min_not_resolved_task := of_nat t + 1\<rparr>
      else h)"

definition get_task_to_send :: "env \<Rightarrow> nat \<Rightarrow> (server, size_t) prog" where
  "get_task_to_send E conn_i =
     bind (get next_task) (\<lambda>task_i.
     andthen (modify (take_task task_i))
     (andthen (bind (get num_tasks) (\<lambda>n. bug_on (task_i = unat n) ''Greedy client detected''))
     (bind (get (\<lambda>h. find_index (\<lambda>t. t = -1)
                   (take MAX_TASKS_PER_CLIENT (task_list (conn h conn_i))))) (\<lambda>cell.
     case cell of
       Some j \<Rightarrow>
         andthen (modify (set_conn conn_i
                    (\<lambda>c. c\<lparr>task_list := (task_list c)[j := of_nat task_i]\<rparr>)))
         (return (of_nat j))
     | None \<Rightarrow> halt (Bug ''Asking for a task while there is no room for it'')))))"

text \<open>
  \<open>push_return_value\<close>: the result is copied to the caller's memory before the task list is
  looked at, and the task list is searched for the task id the client sent.
\<close>

definition push_return_value :: "env \<Rightarrow> nat \<Rightarrow> request_header \<Rightarrow> (server, unit) prog" where
  "push_return_value E conn_i header =
     (let task_index = unat (task_id header) in
     bind (get (\<lambda>h. length (task_manager h))) (\<lambda>n.
     andthen (undef_if (n \<le> task_index) ''task_manager out of bounds'')
     (bind (get (\<lambda>h. ret (task_manager h ! task_index))) (\<lambda>off.
     bind (get (\<lambda>h. slice sizeof_header (unat (ret_size h)) (recv_buffer (conn h conn_i)))) (\<lambda>bytes.
     bind (get (\<lambda>h. length (user_rets h))) (\<lambda>len.
     andthen (undef_if (len < off + length bytes) ''user_rets out of bounds'')
     (andthen (modify (\<lambda>h. h\<lparr>user_rets := blit (user_rets h) off bytes\<rparr>))
     (bind (get (\<lambda>h. find_index (\<lambda>t. t = task_id header)
                   (take MAX_TASKS_PER_CLIENT (task_list (conn h conn_i))))) (\<lambda>cell.
     case cell of
       None \<Rightarrow> halt (Bug ''Cannot find number of task in the task list'')
     | Some i \<Rightarrow> block
        [modify (set_conn conn_i (\<lambda>c. c\<lparr>task_list := (task_list c)[i := -1]\<rparr>)),
         modify (set_status task_index COMPLETED),
         modify (\<lambda>h. h\<lparr>num_completed := num_completed h + 1\<rparr>)])))))))))"

text \<open>
  One cell of \<open>drop_resolving_tasks\<close>: the task id passes through a C \<open>int\<close>, and the comparison
  with the \<open>size_t\<close> counter converts it back to an unsigned 64-bit value.
\<close>

definition drop_cell :: "nat \<Rightarrow> nat \<Rightarrow> (server, unit) prog" where
  "drop_cell conn_i i =
     bind (get (\<lambda>h. sint (task_list (conn h conn_i) ! i))) (\<lambda>task_i.
     andthen (modify (set_conn conn_i (\<lambda>c. c\<lparr>task_list := (task_list c)[i := -1]\<rparr>)))
     (if task_i \<noteq> -1
      then bind (get (\<lambda>h. length (task_manager h))) (\<lambda>n. block
        [undef_if (task_i < 0 \<or> int n \<le> task_i) ''task_manager out of bounds'',
         modify (set_status (nat task_i) NOT_RESOLVED),
         modify (\<lambda>h. h\<lparr>num_not_resolved := num_not_resolved h + 1\<rparr>),
         modify (\<lambda>h. if word_of_int task_i < min_not_resolved_task h
                      then h\<lparr>min_not_resolved_task := word_of_int task_i\<rparr> else h)])
      else return ()))"

definition drop_resolving_tasks :: "env \<Rightarrow> nat \<Rightarrow> (server, unit) prog" where
  "drop_resolving_tasks E conn_i = for_each [0..<MAX_TASKS_PER_CLIENT] (drop_cell conn_i)"

section \<open>Choosing a task\<close>

text \<open>The effect of a successful \<open>get_task_to_send\<close>, in one function of the handle.\<close>

definition assign_task :: "nat \<Rightarrow> nat \<Rightarrow> nat \<Rightarrow> server \<Rightarrow> server" where
  "assign_task i j t h =
     set_conn i (\<lambda>c. c\<lparr>task_list := (task_list c)[j := of_nat t]\<rparr>) (take_task t h)"

text \<open>Accessors of the assumed invariant.\<close>

lemma core_inv_config: "core_inv h \<Longrightarrow> config_ok h"
  and core_inv_conn: "core_inv h \<Longrightarrow> i < length (client_conns h) \<Longrightarrow>
        conn_ok (unat (ret_size h)) (conn h i)"
  and core_inv_clients: "core_inv h \<Longrightarrow> unat (num_clients h) = conn_table.used (client_conns h)"
  and core_inv_cells: "core_inv h \<Longrightarrow> cells_ok (statuses h) (cells h)"
  and core_inv_counters: "core_inv h \<Longrightarrow> counters_ok h"
  by (simp_all add: core_inv_def)

lemma core_inv_tasks: "core_inv h \<Longrightarrow> length (task_manager h) = unat (num_tasks h)"
  and core_inv_small: "core_inv h \<Longrightarrow> unat (num_tasks h) \<le> 2147483648"
  and core_inv_table: "core_inv h \<Longrightarrow> length (client_conns h) = unat (max_clients h)"
  by (simp_all add: core_inv_def config_ok_def)

lemma core_inv_length_task_list:
  "core_inv h \<Longrightarrow> i < length (client_conns h) \<Longrightarrow>
   length (task_list (conn h i)) = MAX_TASKS_PER_CLIENT"
  using core_inv_conn [of h i] by (simp add: conn_ok_def)

lemma next_task_cases:
  assumes "core_inv h"
  shows "next_task h < unat (num_tasks h) \<and> statuses h ! next_task h = NOT_RESOLVED \<and>
           (\<forall>t < next_task h. statuses h ! t \<noteq> NOT_RESOLVED)
       \<or> next_task h = unat (num_tasks h) \<and>
           (\<forall>t < unat (num_tasks h). statuses h ! t \<noteq> NOT_RESOLVED)"
proof -
  let ?lo = "unat (min_not_resolved_task h)" and ?hi = "unat (num_tasks h)"
  let ?f = "find_index (\<lambda>t. task_status_of h t = NOT_RESOLVED) [?lo..<?hi]"
  have len: "length (task_manager h) = ?hi" and lo: "?lo \<le> ?hi"
    and below: "\<forall>t < ?lo. statuses h ! t \<noteq> NOT_RESOLVED"
    using assms by (simp_all add: core_inv_def config_ok_def counters_ok_def)
  show ?thesis
  proof (cases ?f)
    case None
    then have "\<forall>k < ?hi - ?lo. statuses h ! (?lo + k) \<noteq> NOT_RESOLVED"
      by (simp add: find_index_None task_status_of_statuses len)
    then have "\<forall>t < ?hi. statuses h ! t \<noteq> NOT_RESOLVED"
      using below lo by (metis add_diff_inverse_nat diff_less_mono not_le)
    with None lo show ?thesis by (simp add: next_task_def max_def)
  next
    case (Some k)
    then have k: "k < ?hi - ?lo" "statuses h ! (?lo + k) = NOT_RESOLVED"
      and before: "\<forall>j < k. statuses h ! (?lo + j) \<noteq> NOT_RESOLVED"
      by (auto simp: find_index_Some task_status_of_statuses len)
    have "\<forall>t < ?lo + k. statuses h ! t \<noteq> NOT_RESOLVED"
      using below before by (metis add_diff_inverse_nat nat_add_left_cancel_less)
    with Some k show ?thesis by (simp add: next_task_def) linarith
  qed
qed

lemma next_task_le: "core_inv h \<Longrightarrow> next_task h \<le> unat (num_tasks h)"
  using next_task_cases [of h] by auto

lemma next_task_runs_out:
  assumes "core_inv h"
  shows "next_task h = unat (num_tasks h) \<longleftrightarrow> num_not_resolved h = 0"
proof -
  have "num_not_resolved h = 0 \<longleftrightarrow> countp (\<lambda>s. s = NOT_RESOLVED) (statuses h) = 0"
    using core_inv_counters [OF assms] by (simp add: counters_ok_def unat_eq_0 [symmetric])
  also have "\<dots> \<longleftrightarrow> (\<forall>t < unat (num_tasks h). statuses h ! t \<noteq> NOT_RESOLVED)"
    by (simp add: countp_zero_iff core_inv_tasks [OF assms])
  finally show ?thesis using next_task_cases [OF assms] by auto
qed

lemma take_task_fields [simp]:
  "conn (take_task t h) i = conn h i"
  "client_conns (take_task t h) = client_conns h"
  "num_tasks (take_task t h) = num_tasks h"
  "take_task (unat (num_tasks h)) h = h"
  by (simp_all add: take_task_def conn_def)

lemma wpg_get_task_to_send:
  assumes "core_inv (hnd w)"
  shows "wpg d (get_task_to_send E i) Q S w =
    (let h = hnd w; t = next_task h in
     if num_not_resolved h = 0 then S (Bug ''Greedy client detected'') w
     else (case find_index (\<lambda>t. t = -1) (take MAX_TASKS_PER_CLIENT (task_list (conn h i))) of
             None \<Rightarrow> S (Bug ''Asking for a task while there is no room for it'')
                       (upd (take_task t) w)
           | Some j \<Rightarrow> Q (of_nat j) (upd (assign_task i j t) w)))"
  using next_task_runs_out [OF assms]
  by (auto simp: get_task_to_send_def wp Let_def assign_task_def upd_def split: option.splits)

lemma config_ok_frame:
  "client_conns h' = client_conns h \<Longrightarrow> task_manager h' = task_manager h \<Longrightarrow>
   max_clients h' = max_clients h \<Longrightarrow> num_tasks h' = num_tasks h \<Longrightarrow>
   ret_size h' = ret_size h \<Longrightarrow> task_size h' = task_size h \<Longrightarrow>
   length (user_rets h') = length (user_rets h) \<Longrightarrow> user_tasks h' = user_tasks h \<Longrightarrow>
   config_ok h' = config_ok h"
  by (simp add: config_ok_def)

lemma config_ok_set_conn [simp]: "config_ok (set_conn i f h) = config_ok h"
  by (simp add: config_ok_def)

lemma config_ok_set_status [simp]: "config_ok (set_status t st h) = config_ok h"
  by (simp add: config_ok_def)

lemma used_set_conn_same:
  "i < length (client_conns h) \<Longrightarrow> (socket_fd (f (conn h i)) = -1) = (socket_fd (conn h i) = -1) \<Longrightarrow>
   conn_table.used (client_conns (set_conn i f h)) = conn_table.used (client_conns h)"
  by (simp add: set_conn_def conn_table.used_update_same conn_def)

lemma statuses_not_resolved_small:
  "core_inv h \<Longrightarrow> length (statuses h) < 2 ^ 32"
  using core_inv_small [of h] core_inv_tasks [of h] by simp

lemma counters_ok_assign:
  assumes c: "counters_ok h" and len: "length (task_manager h) = unat (num_tasks h)"
    and small: "unat (num_tasks h) \<le> 2147483648"
    and t: "t < unat (num_tasks h)" "statuses h ! t = NOT_RESOLVED"
      "\<forall>k < t. statuses h ! k \<noteq> NOT_RESOLVED"
  shows "counters_ok (take_task t h)"
proof -
  let ?c = "countp (\<lambda>s. s = NOT_RESOLVED) (statuses h)"
  have tl: "t < length (statuses h)" using t len by simp
  have "0 < ?c" using countp_pos [OF tl] t(2) by simp
  with c have ne: "num_not_resolved h \<noteq> 0"
    by (metis counters_ok_def less_numeral_extra(3) unat_0)
  have nr: "countp (\<lambda>s. s = NOT_RESOLVED) ((statuses h)[t := RESOLVING]) = ?c - 1"
    by (rule countp_update_off) (use tl t in simp_all)
  have cp: "countp (\<lambda>s. s = COMPLETED) ((statuses h)[t := RESOLVING]) =
      countp (\<lambda>s. s = COMPLETED) (statuses h)"
    by (rule countp_update_same) (use tl t in simp_all)
  have m: "unat (of_nat t + 1 :: u64) = Suc t"
    using t small by (subst unat_plus_1) simp_all
  have st: "statuses (take_task t h) = (statuses h)[t := RESOLVING]"
    using t by (simp add: take_task_def statuses_def [of "_ \<lparr>num_not_resolved := _, min_not_resolved_task := _\<rparr>"])
      (simp add: statuses_def [symmetric])
  show ?thesis
    unfolding counters_ok_def st nr cp
    using c t ne m tl
    by (auto simp: counters_ok_def take_task_def unat_minus_1 nth_list_update less_Suc_eq)
qed

lemma core_inv_assign_task:
  assumes inv: "core_inv h" and i: "i < length (client_conns h)"
    and active: "socket_fd (conn h i) \<noteq> -1"
    and more: "num_not_resolved h \<noteq> 0"
    and j: "j < MAX_TASKS_PER_CLIENT" "task_list (conn h i) ! j = -1"
  shows "core_inv (assign_task i j (next_task h) h)"
proof -
  let ?t = "next_task h"
  let ?h = "take_task ?t h"
  have t: "?t < unat (num_tasks h)" "statuses h ! ?t = NOT_RESOLVED"
    "\<forall>k < ?t. statuses h ! k \<noteq> NOT_RESOLVED"
    using next_task_cases [OF inv] next_task_runs_out [OF inv] more by auto
  have st: "statuses ?h = (statuses h)[?t := RESOLVING]" and tm: "length (task_manager ?h) = unat (num_tasks h)"
    using t core_inv_tasks [OF inv]
    by (simp_all add: take_task_def statuses_def set_status_def map_update)
  have cells: "cells_ok ((statuses h)[?t := RESOLVING]) (set_cell i j (of_nat ?t) (cells h))"
    by (rule cells_ok_assign)
      (use inv t i j core_inv_length_task_list [OF inv i] statuses_not_resolved_small [OF inv]
        core_inv_tasks [OF inv] in \<open>simp_all add: core_inv_cells\<close>)
  have "cells (assign_task i j ?t h) = set_cell i j (of_nat ?t) (cells h)"
    using i by (simp add: assign_task_def cells_set_conn_cell cells_def [of ?h]) (simp add: cells_def)
  moreover have "counters_ok ?h"
    by (rule counters_ok_assign [OF core_inv_counters core_inv_tasks core_inv_small])
      (use inv t in simp_all)
  then have "counters_ok (assign_task i j ?t h)"
    by (simp add: counters_ok_def assign_task_def)
  moreover have "config_ok (assign_task i j ?t h)"
    using core_inv_config [OF inv] t
    by (simp add: assign_task_def take_task_def config_ok_def)
  moreover have "conn_ok (unat (ret_size h)) (conn (assign_task i j ?t h) k)"
    if "k < length (client_conns h)" for k
    using core_inv_conn [OF inv that] active i
    by (auto simp: assign_task_def conn_set_conn conn_ok_def)
  moreover have "ret_size (assign_task i j ?t h) = ret_size h"
    "num_clients (assign_task i j ?t h) = num_clients h"
    using t by (simp_all add: assign_task_def take_task_def)
  moreover have "conn_table.used (client_conns (assign_task i j ?t h)) = conn_table.used (client_conns h)"
    using i by (simp add: assign_task_def used_set_conn_same)
  ultimately show ?thesis
    using core_inv_clients [OF inv] cells st
    by (simp add: core_inv_def assign_task_def)
qed

section \<open>Collecting a result\<close>

definition store_result :: "nat \<Rightarrow> nat \<Rightarrow> server \<Rightarrow> server" where
  "store_result i t h = h\<lparr>user_rets := blit (user_rets h) (ret (task_manager h ! t))
     (slice sizeof_header (unat (ret_size h)) (recv_buffer (conn h i)))\<rparr>"

definition complete_task :: "nat \<Rightarrow> nat \<Rightarrow> nat \<Rightarrow> server \<Rightarrow> server" where
  "complete_task i j t h =
     (set_status t COMPLETED
       (set_conn i (\<lambda>c. c\<lparr>task_list := (task_list c)[j := -1]\<rparr>) (store_result i t h)))
     \<lparr>num_completed := num_completed h + 1\<rparr>"

lemma ret_range:
  assumes inv: "core_inv h" and t: "t < unat (num_tasks h)"
  shows "ret (task_manager h ! t) = t * unat (ret_size h)"
    and "t * unat (ret_size h) + unat (ret_size h) \<le> length (user_rets h)"
proof -
  have "Suc t * unat (ret_size h) \<le> unat (num_tasks h) * unat (ret_size h)"
    using t by (intro mult_le_mono1) simp
  then show "ret (task_manager h ! t) = t * unat (ret_size h)"
    and "t * unat (ret_size h) + unat (ret_size h) \<le> length (user_rets h)"
    using core_inv_config [OF inv] t by (simp_all add: config_ok_def)
qed

lemma length_result_bytes:
  "core_inv h \<Longrightarrow> i < length (client_conns h) \<Longrightarrow>
   length (slice sizeof_header (unat (ret_size h)) (recv_buffer (conn h i))) = unat (ret_size h)"
  using core_inv_conn [of h i] by (simp add: conn_ok_def)

lemma store_result_fields [simp]:
  "conn (store_result i t h) k = conn h k"
  "client_conns (store_result i t h) = client_conns h"
  "statuses (store_result i t h) = statuses h"
  "cells (store_result i t h) = cells h"
  "num_completed (store_result i t h) = num_completed h"
  "num_clients (store_result i t h) = num_clients h"
  "ret_size (store_result i t h) = ret_size h"
  "num_tasks (store_result i t h) = num_tasks h"
  by (simp_all add: store_result_def conn_def statuses_def cells_def)

lemma config_ok_store_result:
  "core_inv h \<Longrightarrow> i < length (client_conns h) \<Longrightarrow> t < unat (num_tasks h) \<Longrightarrow>
   config_ok (store_result i t h)"
  using core_inv_config [of h] ret_range [of h t] length_result_bytes [of h i]
  by (simp add: store_result_def config_ok_frame [of "_\<lparr>user_rets := _\<rparr>" h])

lemma wpg_push_return_value:
  assumes inv: "core_inv (hnd w)" and i: "i < length (client_conns (hnd w))"
  shows "wpg d (push_return_value E i header) Q S w =
    (let h = hnd w; t = unat (task_id header) in
     if unat (num_tasks h) \<le> t then S (Undef ''task_manager out of bounds'') w
     else (case find_index (\<lambda>x. x = task_id header)
                  (take MAX_TASKS_PER_CLIENT (task_list (conn h i))) of
             None \<Rightarrow> S (Bug ''Cannot find number of task in the task list'')
                       (upd (store_result i t) w)
           | Some j \<Rightarrow> Q () (upd (complete_task i j t) w)))"
proof (cases "unat (num_tasks (hnd w)) \<le> unat (task_id header)")
  case True
  then show ?thesis
    using core_inv_tasks [OF inv] by (simp add: push_return_value_def wp Let_def)
next
  case False
  then have t: "unat (task_id header) < unat (num_tasks (hnd w))" by simp
  let ?t = "unat (task_id header)"
  have store: "(hnd w)\<lparr>user_rets := blit (user_rets (hnd w)) (ret (task_manager (hnd w) ! ?t))
        (slice sizeof_header (unat (ret_size (hnd w))) (recv_buffer (conn (hnd w) i)))\<rparr>
      = store_result i ?t (hnd w)"
    by (simp add: store_result_def)
  have fits: "\<not> length (user_rets (hnd w)) < ret (task_manager (hnd w) ! ?t) +
      length (slice sizeof_header (unat (ret_size (hnd w))) (recv_buffer (conn (hnd w) i)))"
    using ret_range [OF inv t] length_result_bytes [OF inv i] by simp
  show ?thesis
    using False t core_inv_tasks [OF inv] fits
    by (simp add: push_return_value_def wp Let_def store)
      (simp add: upd_def complete_task_def store wp split: option.splits)
qed

lemma core_inv_complete_task:
  assumes inv: "core_inv h" and i: "i < length (client_conns h)"
    and t: "unat x < unat (num_tasks h)"
    and j: "j < MAX_TASKS_PER_CLIENT" "task_list (conn h i) ! j = x"
  shows "core_inv (complete_task i j (unat x) h)"
proof -
  have "x \<noteq> -1" using t core_inv_small [OF inv] by (auto simp: unat_minus_1_32)
  then have h: "holds (cells h) i j x"
    using i j core_inv_length_task_list [OF inv i] by (simp add: holds_def)
  have r: "statuses h ! unat x = RESOLVING"
    using core_inv_cells [OF inv] h by (simp add: cells_ok_def)
  have tl: "unat x < length (statuses h)" using t core_inv_tasks [OF inv] by simp
  let ?h = "complete_task i j (unat x) h"
  have st: "statuses ?h = (statuses h)[unat x := COMPLETED]"
    by (simp add: complete_task_def statuses_def [of "_\<lparr>num_completed := _\<rparr>"])
      (simp add: statuses_def [symmetric])
  have cl: "cells ?h = set_cell i j (-1) (cells h)"
    using i by (simp add: complete_task_def cells_def [of "_\<lparr>num_completed := _\<rparr>"])
      (simp add: cells_def [symmetric] cells_set_conn_cell)
  have nr: "countp (\<lambda>s. s = NOT_RESOLVED) ((statuses h)[unat x := COMPLETED]) =
      countp (\<lambda>s. s = NOT_RESOLVED) (statuses h)"
    by (rule countp_update_same) (use tl r in simp_all)
  have cp: "countp (\<lambda>s. s = COMPLETED) ((statuses h)[unat x := COMPLETED]) =
      Suc (countp (\<lambda>s. s = COMPLETED) (statuses h))"
    by (rule countp_update_on) (use tl r in simp_all)
  have "countp (\<lambda>s. s = COMPLETED) (statuses h) \<le> length (statuses h)"
    by (rule countp_le_length)
  then have nc: "unat (num_completed h + 1) = Suc (unat (num_completed h))"
    using core_inv_counters [OF inv] core_inv_tasks [OF inv] core_inv_small [OF inv]
    by (subst unat_plus_1) (simp_all add: counters_ok_def)
  have "counters_ok ?h"
    using core_inv_counters [OF inv] nr cp nc tl
    unfolding counters_ok_def st
    by (auto simp: complete_task_def nth_list_update store_result_def)
  moreover have "cells_ok (statuses ?h) (cells ?h)"
    unfolding st cl
    by (rule cells_ok_release [OF core_inv_cells [OF inv] h _ statuses_not_resolved_small [OF inv]])
      simp
  moreover have "config_ok ?h"
    using config_ok_store_result [OF inv i t]
    by (simp add: complete_task_def config_ok_def)
  moreover have "conn_ok (unat (ret_size h)) (conn ?h k)" if "k < length (client_conns h)" for k
  proof -
    have eq: "conn ?h k = (if k = i then (conn h i)\<lparr>task_list := (task_list (conn h i))[j := -1]\<rparr>
        else conn h k)"
      using i that by (simp add: complete_task_def conn_def set_conn_def)
    have nf: "socket_fd (conn h i) \<noteq> -1"
      using core_inv_conn [OF inv i] j \<open>x \<noteq> -1\<close> by (auto simp: conn_ok_def)
    show ?thesis using core_inv_conn [OF inv that] nf unfolding eq by (auto simp: conn_ok_def)
  qed
  moreover have "conn_table.used (client_conns ?h) = conn_table.used (client_conns h)"
    "num_clients ?h = num_clients h" "ret_size ?h = ret_size h"
    "length (client_conns ?h) = length (client_conns h)"
    using i by (simp_all add: complete_task_def used_set_conn_same)
  ultimately show ?thesis
    using core_inv_clients [OF inv] by (simp add: core_inv_def)
qed

section \<open>Returning the tasks of a lost connection\<close>

text \<open>The effect of \<open>drop_cell\<close> and of the whole loop, as functions of the handle.\<close>

definition clear_cell :: "nat \<Rightarrow> nat \<Rightarrow> server \<Rightarrow> server" where
  "clear_cell i j h = set_conn i (\<lambda>c. c\<lparr>task_list := (task_list c)[j := -1]\<rparr>) h"

definition lower_min :: "size_t \<Rightarrow> server \<Rightarrow> server" where
  "lower_min t h = (if t < min_not_resolved_task h then h\<lparr>min_not_resolved_task := t\<rparr> else h)"

definition return_task :: "nat \<Rightarrow> nat \<Rightarrow> server \<Rightarrow> server" where
  "return_task i j h =
     (let x = task_list (conn h i) ! j in
      if x = -1 then clear_cell i j h
      else lower_min (ucast x)
        ((set_status (unat x) NOT_RESOLVED (clear_cell i j h))
          \<lparr>num_not_resolved := num_not_resolved h + 1\<rparr>))"

definition drop_tasks :: "nat \<Rightarrow> server \<Rightarrow> server" where
  "drop_tasks i = fold (return_task i) [0..<MAX_TASKS_PER_CLIENT]"

lemma holds_cell:
  "core_inv h \<Longrightarrow> i < length (client_conns h) \<Longrightarrow> j < MAX_TASKS_PER_CLIENT \<Longrightarrow>
   holds (cells h) i j x \<longleftrightarrow> task_list (conn h i) ! j = x \<and> x \<noteq> -1"
  using core_inv_length_task_list [of h i] by (simp add: holds_def)

lemma held_resolving:
  "core_inv h \<Longrightarrow> holds (cells h) i j x \<Longrightarrow> unat x < unat (num_tasks h) \<and> statuses h ! unat x = RESOLVING"
  using core_inv_cells [of h] core_inv_tasks [of h] by (simp add: cells_ok_def)

lemma sint_task:
  assumes "core_inv h" and "unat x < unat (num_tasks h)"
  shows "sint (x :: u32) = int (unat x)"
  by (rule sint_small_32) (use assms core_inv_small [of h] in simp)

lemma wpg_drop_cell:
  assumes inv: "core_inv (hnd w)" and i: "i < length (client_conns (hnd w))"
    and j: "j < MAX_TASKS_PER_CLIENT"
  shows "wpg d (drop_cell i j) Q S w = Q () (upd (return_task i j) w)"
proof (cases "task_list (conn (hnd w) i) ! j = -1")
  case True
  then show ?thesis
    by (simp add: drop_cell_def wp return_task_def upd_def clear_cell_def)
next
  case False
  let ?x = "task_list (conn (hnd w) i) ! j"
  from False have "holds (cells (hnd w)) i j ?x" using holds_cell [OF inv i j] by simp
  then have x: "unat ?x < unat (num_tasks (hnd w))" using held_resolving [OF inv] by blast
  obtain n where n: "unat ?x = n" by simp
  obtain N where N: "length (task_manager (hnd w)) = N" by simp
  have s: "sint ?x = int n" using sint_task [OF inv x] unfolding n .
  have "(word_of_int (int (unat ?x)) :: u64) = ucast ?x"
    by (metis of_nat_unat ucast_eq uint_nat)
  then have u: "(of_nat n :: u64) = ucast ?x" unfolding n by simp
  have "(scast ?x :: u64) = word_of_int (sint ?x)" by (rule scast_eq)
  then have sc: "(scast ?x :: u64) = ucast ?x" using s u by simp
  have "n < N" using x core_inv_tasks [OF inv] n N by simp
  then show ?thesis
    using False by (simp add: drop_cell_def wp return_task_def Let_def clear_cell_def n N s u sc)
      (simp add: upd_def return_task_def lower_min_def clear_cell_def Let_def n u sc)
qed

lemma clear_cell_fields [simp]:
  "statuses (clear_cell i j h) = statuses h"
  "length (client_conns (clear_cell i j h)) = length (client_conns h)"
  "config_ok (clear_cell i j h) = config_ok h"
  "num_clients (clear_cell i j h) = num_clients h"
  "num_not_resolved (clear_cell i j h) = num_not_resolved h"
  "num_completed (clear_cell i j h) = num_completed h"
  "num_tasks (clear_cell i j h) = num_tasks h"
  "ret_size (clear_cell i j h) = ret_size h"
  "min_not_resolved_task (clear_cell i j h) = min_not_resolved_task h"
  by (simp_all add: clear_cell_def)

lemma lower_min_fields [simp]:
  "client_conns (lower_min t h) = client_conns h"
  "task_manager (lower_min t h) = task_manager h"
  "conn (lower_min t h) i = conn h i"
  "statuses (lower_min t h) = statuses h"
  "cells (lower_min t h) = cells h"
  "config_ok (lower_min t h) = config_ok h"
  "num_clients (lower_min t h) = num_clients h"
  "max_clients (lower_min t h) = max_clients h"
  "num_not_resolved (lower_min t h) = num_not_resolved h"
  "num_completed (lower_min t h) = num_completed h"
  "num_tasks (lower_min t h) = num_tasks h"
  "user_rets (lower_min t h) = user_rets h"
  "ret_size (lower_min t h) = ret_size h"
  "min_not_resolved_task (lower_min t h) = min t (min_not_resolved_task h)"
  by (simp_all add: lower_min_def conn_def statuses_def cells_def config_ok_def)

lemma bump_not_resolved_fields [simp]:
  "conn (h\<lparr>num_not_resolved := x\<rparr>) i = conn h i"
  "statuses (h\<lparr>num_not_resolved := x\<rparr>) = statuses h"
  "cells (h\<lparr>num_not_resolved := x\<rparr>) = cells h"
  "config_ok (h\<lparr>num_not_resolved := x\<rparr>) = config_ok h"
  by (simp_all add: conn_def statuses_def cells_def config_ok_def)

lemma conn_return_task:
  "i < length (client_conns h) \<Longrightarrow>
   conn (return_task i j h) k =
     (if k = i then (conn h i)\<lparr>task_list := (task_list (conn h i))[j := -1]\<rparr> else conn h k)"
  by (simp add: return_task_def Let_def clear_cell_def conn_set_conn)

lemma return_task_fields [simp]:
  "length (client_conns (return_task i j h)) = length (client_conns h)"
  "num_clients (return_task i j h) = num_clients h"
  "max_clients (return_task i j h) = max_clients h"
  "num_tasks (return_task i j h) = num_tasks h"
  "num_completed (return_task i j h) = num_completed h"
  "ret_size (return_task i j h) = ret_size h"
  "user_rets (return_task i j h) = user_rets h"
  "config_ok (return_task i j h) = config_ok h"
  by (simp_all add: return_task_def Let_def clear_cell_def)

lemma cells_return_task:
  "i < length (client_conns h) \<Longrightarrow> cells (return_task i j h) = set_cell i j (-1) (cells h)"
  by (simp add: return_task_def Let_def clear_cell_def cells_set_conn_cell)

lemma statuses_return_task:
  "statuses (return_task i j h) =
     (let x = task_list (conn h i) ! j in
      if x = -1 then statuses h else (statuses h)[unat x := NOT_RESOLVED])"
  by (simp add: return_task_def Let_def)

lemma core_inv_return_task:
  assumes inv: "core_inv h" and i: "i < length (client_conns h)" and j: "j < MAX_TASKS_PER_CLIENT"
  shows "core_inv (return_task i j h)"
proof -
  let ?x = "task_list (conn h i) ! j" and ?h = "return_task i j h"
  have len: "length (task_list (conn h i)) = MAX_TASKS_PER_CLIENT"
    by (rule core_inv_length_task_list [OF inv i])
  have "cells_ok (statuses ?h) (cells ?h) \<and> counters_ok ?h"
  proof (cases "?x = -1")
    case True
    then have "(task_list (conn h i))[j := -1] = task_list (conn h i)"
      by (metis list_update_id)
    then have "cells ?h = cells h"
      using i len j by (simp add: cells_return_task set_cell_def) (metis cells_nth list_update_id)
    then show ?thesis
      using True core_inv_cells [OF inv] core_inv_counters [OF inv]
      by (simp add: statuses_return_task counters_ok_def) (simp add: return_task_def Let_def)
  next
    case False
    then have h: "holds (cells h) i j ?x" using holds_cell [OF inv i j] by simp
    then have x: "unat ?x < unat (num_tasks h)" "statuses h ! unat ?x = RESOLVING"
      using held_resolving [OF inv] by blast+
    then have xl: "unat ?x < length (statuses h)" using core_inv_tasks [OF inv] by simp
    have st: "statuses ?h = (statuses h)[unat ?x := NOT_RESOLVED]"
      using False by (simp add: statuses_return_task)
    have nr: "countp (\<lambda>s. s = NOT_RESOLVED) ((statuses h)[unat ?x := NOT_RESOLVED]) =
        Suc (countp (\<lambda>s. s = NOT_RESOLVED) (statuses h))"
      by (rule countp_update_on) (use xl x in simp_all)
    have cp: "countp (\<lambda>s. s = COMPLETED) ((statuses h)[unat ?x := NOT_RESOLVED]) =
        countp (\<lambda>s. s = COMPLETED) (statuses h)"
      by (rule countp_update_same) (use xl x in simp_all)
    have "countp (\<lambda>s. s = NOT_RESOLVED) (statuses h) \<le> length (statuses h)"
      by (rule countp_le_length)
    then have nn: "unat (num_not_resolved h + 1) = Suc (unat (num_not_resolved h))"
      using core_inv_counters [OF inv] core_inv_tasks [OF inv] core_inv_small [OF inv]
      by (subst unat_plus_1) (simp_all add: counters_ok_def)
    have m: "unat (min (ucast ?x) (min_not_resolved_task h)) =
        min (unat ?x) (unat (min_not_resolved_task h))"
      by (simp add: min_def word_le_nat_alt)
    have "counters_ok ?h"
      unfolding counters_ok_def st nr cp
      using False nn m core_inv_counters [OF inv] xl x
      by (auto simp: return_task_def Let_def counters_ok_def nth_list_update)
    moreover have "cells_ok (statuses ?h) (cells ?h)"
      unfolding st cells_return_task [OF i]
      by (rule cells_ok_release [OF core_inv_cells [OF inv] h _ statuses_not_resolved_small [OF inv]])
        simp
    ultimately show ?thesis by simp
  qed
  moreover have "conn_ok (unat (ret_size h)) (conn ?h k)" if "k < length (client_conns h)" for k
    using core_inv_conn [OF inv that] core_inv_conn [OF inv i] j
    by (auto simp: conn_return_task [OF i] conn_ok_def) (metis list_update_id nth_replicate)
  moreover have "conn_table.used (client_conns ?h) = conn_table.used (client_conns h)"
    using i by (simp add: return_task_def Let_def clear_cell_def used_set_conn_same)
  ultimately show ?thesis
    using core_inv_clients [OF inv] core_inv_config [OF inv] by (simp add: core_inv_def)
qed

lemma of_nat_task_iff:
  assumes "core_inv h" and "t < unat (num_tasks h)"
  shows "x = (of_nat t :: u32) \<longleftrightarrow> unat x = t"
  using assms core_inv_small [of h] by (auto simp: word_unat_eq_iff)

text \<open>The loop over the cells, for any list of cells.\<close>

lemma fold_return_task:
  assumes "core_inv h" and "i < length (client_conns h)" and "\<forall>j \<in> set js. j < MAX_TASKS_PER_CLIENT"
  shows "core_inv (fold (return_task i) js h)"
    and "length (client_conns (fold (return_task i) js h)) = length (client_conns h)"
    and "num_clients (fold (return_task i) js h) = num_clients h"
    and "max_clients (fold (return_task i) js h) = max_clients h"
    and "num_tasks (fold (return_task i) js h) = num_tasks h"
    and "num_completed (fold (return_task i) js h) = num_completed h"
    and "user_rets (fold (return_task i) js h) = user_rets h"
    and "ret_size (fold (return_task i) js h) = ret_size h"
    and "holds (cells (fold (return_task i) js h)) i' j' x \<longleftrightarrow>
           holds (cells h) i' j' x \<and> \<not> (i' = i \<and> j' \<in> set js)"
    and "conn (fold (return_task i) js h) i' =
           (if i' = i then (conn h i)\<lparr>task_list :=
              fold (\<lambda>j xs. xs[j := -1]) js (task_list (conn h i))\<rparr> else conn h i')"
    and "t < unat (num_tasks h) \<Longrightarrow> statuses (fold (return_task i) js h) ! t =
           (if \<exists>j \<in> set js. holds (cells h) i j (of_nat t) then NOT_RESOLVED else statuses h ! t)"
  using assms
proof (induction js arbitrary: h)
  case Nil
  {
    case 1 then show ?case by simp next
    case 2 then show ?case by simp next
    case 3 then show ?case by simp next
    case 4 then show ?case by simp next
    case 5 then show ?case by simp next
    case 6 then show ?case by simp next
    case 7 then show ?case by simp next
    case 8 then show ?case by simp next
    case 9 then show ?case by simp next
    case 10 then show ?case by simp next
    case 11 then show ?case by simp
  }
next
  case (Cons j js)
  have step: "core_inv (return_task i j h) \<and> i < length (client_conns (return_task i j h)) \<and>
      (\<forall>j \<in> set js. j < MAX_TASKS_PER_CLIENT)"
    if "core_inv h" "i < length (client_conns h)"
      "\<forall>j \<in> set (j # js). j < MAX_TASKS_PER_CLIENT" for h
    using that core_inv_return_task by simp
  have hold: "holds (cells (return_task i j h)) i' j' x \<longleftrightarrow> holds (cells h) i' j' x \<and> \<not> (i' = i \<and> j' = j)"
    if "core_inv h" "i < length (client_conns h)" "j < MAX_TASKS_PER_CLIENT" for h i' j' x
    using that core_inv_length_task_list [of h i] holds_set_cell [of i "cells h" j "-1" i' j' x]
    by (auto simp: cells_return_task)
  {
    case 1 from step [OF 1] 1 show ?case by (simp add: Cons.IH(1) ) next
    case 2 from step [OF 2] 2 show ?case by (simp add: Cons.IH(2) ) next
    case 3 from step [OF 3] 3 show ?case by (simp add: Cons.IH(3) ) next
    case 4 from step [OF 4] 4 show ?case by (simp add: Cons.IH(4) ) next
    case 5 from step [OF 5] 5 show ?case by (simp add: Cons.IH(5) ) next
    case 6 from step [OF 6] 6 show ?case by (simp add: Cons.IH(6) ) next
    case 7 from step [OF 7] 7 show ?case by (simp add: Cons.IH(7) ) next
    case 8 from step [OF 8] 8 show ?case by (simp add: Cons.IH(8) ) next
    case 9 from step [OF 9] 9 show ?case by (auto simp: Cons.IH(9) hold) next
    case 10 from step [OF 10] 10 show ?case by (simp add: Cons.IH(10) conn_return_task ) next
    case 11
    have "statuses (return_task i j h) ! t = (if holds (cells h) i j (of_nat t) then NOT_RESOLVED else statuses h ! t)"
      using 11 holds_cell [of h i j] of_nat_task_iff [of h t] core_inv_tasks [of h]
      by (auto simp: statuses_return_task Let_def nth_list_update)
    with step [OF 11(2-4)] 11 show ?case by (auto simp: Cons.IH(11) hold)
  }
qed

lemma drop_tasks_effect:
  assumes inv: "core_inv h" and i: "i < length (client_conns h)"
  shows "core_inv (drop_tasks i h)"
    and "length (client_conns (drop_tasks i h)) = length (client_conns h)"
    and "num_clients (drop_tasks i h) = num_clients h"
    and "max_clients (drop_tasks i h) = max_clients h"
    and "num_tasks (drop_tasks i h) = num_tasks h"
    and "num_completed (drop_tasks i h) = num_completed h"
    and "user_rets (drop_tasks i h) = user_rets h"
    and "ret_size (drop_tasks i h) = ret_size h"
    and "holds (cells (drop_tasks i h)) i' j' x \<longleftrightarrow> i' \<noteq> i \<and> holds (cells h) i' j' x"
    and "conn (drop_tasks i h) k = (if k = i
           then (conn h i)\<lparr>task_list := replicate MAX_TASKS_PER_CLIENT (-1)\<rparr> else conn h k)"
    and "t < unat (num_tasks h) \<Longrightarrow> statuses (drop_tasks i h) ! t =
           (if \<exists>j. holds (cells h) i j (of_nat t) then NOT_RESOLVED else statuses h ! t)"
proof -
  let ?js = "[0..<MAX_TASKS_PER_CLIENT]"
  have js: "\<forall>j \<in> set ?js. j < MAX_TASKS_PER_CLIENT" by simp
  have len: "length (task_list (conn h i)) = MAX_TASKS_PER_CLIENT"
    by (rule core_inv_length_task_list [OF inv i])
  have range: "holds (cells h) i j y \<Longrightarrow> j < MAX_TASKS_PER_CLIENT" for j y
    using i len by (simp add: holds_def)
  note step = fold_return_task [OF inv i js, folded drop_tasks_def]
  show "core_inv (drop_tasks i h)"
    and "length (client_conns (drop_tasks i h)) = length (client_conns h)"
    and "num_clients (drop_tasks i h) = num_clients h"
    and "max_clients (drop_tasks i h) = max_clients h"
    and "num_tasks (drop_tasks i h) = num_tasks h"
    and "num_completed (drop_tasks i h) = num_completed h"
    and "user_rets (drop_tasks i h) = user_rets h"
    and "ret_size (drop_tasks i h) = ret_size h"
    by (fact step)+
  show "holds (cells (drop_tasks i h)) i' j' x \<longleftrightarrow> i' \<noteq> i \<and> holds (cells h) i' j' x"
    using step(9) [of i' j' x] range [of j' x] by auto
  show "conn (drop_tasks i h) k = (if k = i
      then (conn h i)\<lparr>task_list := replicate MAX_TASKS_PER_CLIENT (-1)\<rparr> else conn h k)"
    using step(10) [of k] len by (simp add: fold_update_prefix)
  show "statuses (drop_tasks i h) ! t =
      (if \<exists>j. holds (cells h) i j (of_nat t) then NOT_RESOLVED else statuses h ! t)"
    if "t < unat (num_tasks h)"
    using step(11) [OF that] range by auto
qed

lemma wpg_drop_cells:
  assumes "core_inv (hnd w)" and "i < length (client_conns (hnd w))"
    and "\<forall>j \<in> set js. j < MAX_TASKS_PER_CLIENT"
  shows "wpg d (for_each js (drop_cell i)) Q S w = Q () (upd (fold (return_task i) js) w)"
  using assms
proof (induction js arbitrary: w)
  case Nil
  then show ?case by (simp add: wp upd_def id_def)
next
  case (Cons j js)
  then have "wpg d (for_each js (drop_cell i)) Q S (upd (return_task i j) w) =
      Q () (upd (fold (return_task i) js) (upd (return_task i j) w))"
    by (intro Cons.IH) (simp_all add: core_inv_return_task)
  with Cons.prems show ?case by (simp add: wp wpg_drop_cell) (simp add: upd_def)
qed

lemma wpg_drop_resolving_tasks:
  assumes "core_inv (hnd w)" and "i < length (client_conns (hnd w))"
  shows "wpg d (drop_resolving_tasks E i) Q S w = Q () (upd (drop_tasks i) w)"
  unfolding drop_resolving_tasks_def drop_tasks_def
  by (rule wpg_drop_cells [OF assms]) simp

end
