(* ===== verification/Contract.thy ===== *)
theory Contract
  imports Machine
begin

text \<open>
  The contract that the operations of a component share: started in a handle that satisfies the
  invariant, an operation that returns leaves the invariant in place, and one that stops the
  process stops it in an admissible way. The locale proves once how the program constructs keep
  a contract; the server and the client interpret it on their invariants.
\<close>

locale contract =
  fixes I :: "'h \<Rightarrow> bool"
    and P :: "stop \<Rightarrow> bool"
  assumes orderly_admissible: "orderly e \<Longrightarrow> P e"
begin

definition keeps :: "('h, 'a) prog \<Rightarrow> bool" where
  "keeps m \<longleftrightarrow> (\<forall>w. I (hnd w) \<longrightarrow> wpg True m (\<lambda>_ w'. I (hnd w')) (\<lambda>e _. P e) w)"

lemma keepsI: "(\<And>w. I (hnd w) \<Longrightarrow> wpg True m (\<lambda>_ w'. I (hnd w')) (\<lambda>e _. P e) w) \<Longrightarrow> keeps m"
  by (simp add: keeps_def)

lemma keepsD: "keeps m \<Longrightarrow> I (hnd w) \<Longrightarrow> wpg True m (\<lambda>_ w'. I (hnd w')) (\<lambda>e _. P e) w"
  by (simp add: keeps_def)

lemma wpg_keeps:
  "keeps m \<Longrightarrow> I (hnd w) \<Longrightarrow> (\<And>x w'. I (hnd w') \<Longrightarrow> Q x w') \<Longrightarrow> (\<And>e w'. P e \<Longrightarrow> S e w') \<Longrightarrow>
   wpg True m Q S w"
  by (drule (1) keepsD) (erule wpg_mono)

lemma keeps_silent: "silent m \<Longrightarrow> keeps m"
  by (rule keepsI) (auto elim!: wpg_silent intro: orderly_admissible)

lemma keeps_return [simp]: "keeps (return x)"
  by (rule keepsI) (simp add: wp)

lemma keeps_halt: "P e \<Longrightarrow> keeps (halt e)"
  by (rule keepsI) (simp add: wp)

lemma keeps_fail_if [simp]: "keeps (fail_if c msg)"
  by (rule keepsI) (simp add: wp orderly_admissible)

lemma keeps_bug_on [simp]: "keeps (bug_on c msg)"
  by (rule keepsI) (simp add: wp orderly_admissible)

lemma keeps_call [simp]: "keeps (call E c)"
  by (rule keepsI) (simp add: wp)

lemma keeps_modify: "(\<And>h. I h \<Longrightarrow> I (f h)) \<Longrightarrow> keeps (modify f)"
  by (rule keepsI) (simp add: wp)

lemma keeps_bind: "keeps m \<Longrightarrow> (\<And>x. keeps (f x)) \<Longrightarrow> keeps (bind m f)"
  by (rule keepsI) (auto simp: wp intro: keepsD elim!: wpg_keeps)

lemma keeps_get_bind: "(\<And>x. keeps (f x)) \<Longrightarrow> keeps (bind (get g) f)"
  by (rule keepsI) (simp add: wp keepsD)

lemma keeps_andthen: "keeps m \<Longrightarrow> keeps n \<Longrightarrow> keeps (andthen m n)"
  unfolding andthen_def by (rule keeps_bind)

lemma keeps_if: "(b \<Longrightarrow> keeps m) \<Longrightarrow> (\<not> b \<Longrightarrow> keeps n) \<Longrightarrow> keeps (if b then m else n)"
  by simp

lemma keeps_block: "(\<And>m. m \<in> set ms \<Longrightarrow> keeps m) \<Longrightarrow> keeps (block ms)"
  by (induction ms) (auto intro: keeps_andthen)

lemma keeps_for_each: "(\<And>x. x \<in> set xs \<Longrightarrow> keeps (f x)) \<Longrightarrow> keeps (for_each xs f)"
  by (induction xs) (auto intro: keeps_andthen)

lemma keeps_for_until: "(\<And>x. x \<in> set xs \<Longrightarrow> keeps (f x)) \<Longrightarrow> keeps (for_until xs f)"
  by (induction xs) (auto intro!: keeps_bind split: option.splits)

lemma keeps_loop: "keeps b \<Longrightarrow> keeps (loop b)"
  by (rule keepsI, rule wpg_loop_partial [where I = "\<lambda>w. I (hnd w)"])
     (auto elim!: wpg_keeps split: option.splits)

lemmas keeps_intros = keeps_return keeps_fail_if keeps_bug_on keeps_call keeps_bind
  keeps_andthen keeps_if keeps_block keeps_for_each keeps_for_until keeps_loop

end

end
