(* ===== verification/ServerConn.thy ===== *)
theory ServerConn
  imports ServerTasks Contract
begin

text \<open>
  Connection management of cluster-api/cluster-server.c: the listening socket, the table of at
  most 100 client connections, and the framing of messages on a connection.
\<close>

section \<open>Set-up and tear-down\<close>

text \<open>\<open>sizeof(struct Connection)\<close> on the 64-bit platform.\<close>

definition sizeof_connection :: size_t where
  "sizeof_connection = 48"

text \<open>
  One round of the first loop of \<open>init_connection_management_routine\<close>. The fields the loop
  does not write keep whatever the allocated block held.
\<close>

definition init_connection :: "env \<Rightarrow> nat \<Rightarrow> (server, unit) prog" where
  "init_connection E i =
     bind (get recv_buffer_size) (\<lambda>n.
     andthen (alloc E (Malloc (RecvBuffer i) n) ''Unable to allocate memory for recv-buffer'')
     (bind (uninitialised E (unat n)) (\<lambda>mem. block
      [modify (set_conn i (\<lambda>c. c\<lparr>recv_buffer := mem\<rparr>)),
       modify (set_conn i (\<lambda>c. c\<lparr>bytes_recieved := 0\<rparr>)),
       alloc E (Malloc (TaskList i) (of_nat MAX_TASKS_PER_CLIENT * 4))
         ''Unable to allocate memory for task list'',
       modify (set_conn i (\<lambda>c. c\<lparr>task_list := replicate MAX_TASKS_PER_CLIENT (-1)\<rparr>))])))"

text \<open>\<open>raw\<close> is what the block of \<open>malloc\<close> for the connection table holds.\<close>

definition init_connection_management_routine ::
    "env \<Rightarrow> (nat \<Rightarrow> connection) \<Rightarrow> (server, unit) prog" where
  "init_connection_management_routine E raw =
     block
      [modify (\<lambda>h. h\<lparr>max_clients := of_nat MAX_SIMULTANEOUS_CONNECTIONS\<rparr>),
       bind (get max_clients) (\<lambda>n. alloc E (Malloc ClientConns (n * sizeof_connection))
         ''Unable to allocate memory for connections''),
       modify (\<lambda>h. h\<lparr>client_conns := map raw (conn_indices h)\<rparr>),
       bind (get conn_indices) (\<lambda>is. for_each is (init_connection E)),
       bind (get conn_indices) (\<lambda>is. for_each is
         (\<lambda>i. modify (set_conn i (\<lambda>c. c\<lparr>socket_fd := -1\<rparr>)))),
       modify (\<lambda>h. h\<lparr>num_clients := 0\<rparr>),
       bind (must E (Socket AF_INET (SOCK_STREAM OR SOCK_NONBLOCK) IPPROTO_TCP)
               ''Unable to call socket()'') (\<lambda>sock_fd. block
        [must_ok E (Bind sock_fd \<lparr>sin_family = AF_INET, s_addr = htonl (host E) INADDR_ANY,
                      sin_port = htons (host E) CONNECTION_PORT\<rparr>) ''Unable to bind()'',
         must_ok E (Setsockopt sock_fd SOL_SOCKET SO_REUSEADDR (IntVal 1))
           ''Unable to set SO_REUSEADDR socket option'',
         must_ok E (Listen sock_fd LISTEN_CONNECTION_BACKLOG) ''Unable to listen() on a socket'',
         modify (\<lambda>h. h\<lparr>accept_socket_fd := sock_fd\<rparr>)])]"

definition free_connection :: "env \<Rightarrow> nat \<Rightarrow> (server, unit) prog" where
  "free_connection E i =
     bind (get (\<lambda>h. socket_fd (conn h i))) (\<lambda>fd.
     if fd \<noteq> -1
     then block
      [must_ok E (Shutdown fd) ''Unable to shutdown connection'',
       must_zero E (Close fd) ''Unable to close connection'',
       andthen (call E (Free (RecvBuffer i))) (return ()),
       andthen (call E (Free (TaskList i))) (return ())]
     else return ())"

definition free_connection_management_routine :: "env \<Rightarrow> (server, unit) prog" where
  "free_connection_management_routine E =
     block
      [bind (get accept_socket_fd) (\<lambda>fd. must_ok E (Close fd) ''Unable to close accept socket''),
       bind (get conn_indices) (\<lambda>is. for_each is (free_connection E)),
       andthen (call E (Free ClientConns)) (return ())]"

definition start_connection_management_routine :: "env \<Rightarrow> (server, unit) prog" where
  "start_connection_management_routine E =
     bind (get epoll_fd) (\<lambda>epfd.
     bind (get accept_socket_fd) (\<lambda>fd.
     must_ok E (EpollCtl epfd (CTL_ADD EPOLLIN fd) fd)
       ''Unable to register file descriptor for epoll''))"

definition pause_connection_management_routine :: "env \<Rightarrow> (server, unit) prog" where
  "pause_connection_management_routine E =
     bind (get epoll_fd) (\<lambda>epfd.
     bind (get accept_socket_fd) (\<lambda>fd.
     must_ok E (EpollCtl epfd CTL_DEL fd) ''Unable to delete file descriptor from epoll''))"

definition update_connection_management :: "env \<Rightarrow> nat \<Rightarrow> bool \<Rightarrow> (server, unit) prog" where
  "update_connection_management E client_index can_write =
     bind (get epoll_fd) (\<lambda>epfd.
     bind (get (\<lambda>h. socket_fd (conn h client_index))) (\<lambda>fd.
     must_ok E (EpollCtl epfd
         (CTL_MOD (EPOLLHUP OR EPOLLIN OR (if can_write then EPOLLOUT else 0)) fd) fd)
       ''Unable to update connection in epoll''))"

section \<open>Accepting and deleting connections\<close>

definition configure_connection :: "env \<Rightarrow> int \<Rightarrow> (server, unit) prog" where
  "configure_connection E fd =
     block
      [must_ok E (Setsockopt fd SOL_SOCKET SO_KEEPALIVE (IntVal 1))
         ''Unable to set SO_KEEPALIVE socket option'',
       must_ok E (Setsockopt fd IPPROTO_TCP_LEVEL TCP_KEEPIDLE (IntVal TCP_KEEPALIVE_IDLE_TIME))
         ''Unable to set TCP_KEEPIDLE socket option'',
       must_ok E (Setsockopt fd IPPROTO_TCP_LEVEL TCP_KEEPINTVL (IntVal TCP_KEEPALIVE_INTERVAL))
         ''Unable to set TCP_KEEPINTVL socket option'',
       must_ok E (Setsockopt fd IPPROTO_TCP_LEVEL TCP_KEEPCNT (IntVal TCP_KEEPALIVE_NUM_PROBES))
         ''Unable to set TCP_KEEPCNT socket option'',
       must_ok E (Setsockopt fd IPPROTO_TCP_LEVEL TCP_USER_TIMEOUT (IntVal TCP_NO_SEND_ACKS_TIMEOUT))
         ''Unable to set TCP_USER_TIMEOUT socket option'',
       must_ok E (Setsockopt fd SOL_SOCKET SO_LINGER (LingerVal 1 0))
         ''Unable to disable SO_LINGER socket option'',
       must_ok E (Setsockopt fd IPPROTO_TCP_LEVEL TCP_LINGER2 (IntVal 0))
         ''Unable to disable TCP_LINGER2 socket option'',
       must_ok E (Setsockopt fd IPPROTO_TCP_LEVEL TCP_NODELAY (IntVal 0))
         ''Unable to disable TCP_NODELAY socket option'',
       must_ok E (Setsockopt fd IPPROTO_TCP_LEVEL TCP_CORK (IntVal 0))
         ''Unable to disable TCP_CORK socket option'']"

text \<open>The part of \<open>accept_incoming_connection_request\<close> that enters the socket in the table.\<close>

definition open_connection :: "int \<Rightarrow> connection \<Rightarrow> connection" where
  "open_connection fd c = c\<lparr>socket_fd := fd, bytes_recieved := 0,
     now_sending_task_i := -1, requested_tasks := 0\<rparr>"

definition register_connection :: "env \<Rightarrow> int \<Rightarrow> (server, int) prog" where
  "register_connection E fd =
     bind (get (\<lambda>h. find_index (\<lambda>c. socket_fd c = -1)
                 (take (unat (max_clients h)) (client_conns h)))) (\<lambda>cell.
     andthen (modify (\<lambda>h. if cell = None then h else h\<lparr>num_clients := num_clients h + 1\<rparr>))
     (bind (get (\<lambda>h. num_clients h = max_clients h)) (\<lambda>full.
     andthen (if full then pause_connection_management_routine E else return ())
     (case cell of
        None \<Rightarrow> halt (Bug ''No free cell in the connection array'')
      | Some conn_i \<Rightarrow>
          andthen (modify (set_conn conn_i (open_connection fd)))
          (bind (get epoll_fd) (\<lambda>epfd.
          andthen (must_ok E (EpollCtl epfd
                     (CTL_ADD (EPOLLIN OR EPOLLOUT OR EPOLLHUP OR EPOLLRDHUP) fd) fd)
                     ''Unable to add connection to epoll'')
          (return 0)))))))"

definition accept_incoming_connection_request :: "env \<Rightarrow> (server, int) prog" where
  "accept_incoming_connection_request E =
     bind (get accept_socket_fd) (\<lambda>afd.
     bind (call E (Accept4 afd SOCK_NONBLOCK)) (\<lambda>r.
     if r_ret r = -1
     then (if r_errno r = EAGAIN then return (-1)
           else halt (Fatal ''Unable to accept4() incoming connection request''))
     else andthen (configure_connection E (r_ret r)) (register_connection E (r_ret r))))"

definition delete_connection :: "env \<Rightarrow> nat \<Rightarrow> (server, unit) prog" where
  "delete_connection E conn_i =
     bind (get (\<lambda>h. num_clients h = max_clients h)) (\<lambda>full.
     bind (get epoll_fd) (\<lambda>epfd.
     bind (get (\<lambda>h. socket_fd (conn h conn_i))) (\<lambda>fd. block
      [if full then start_connection_management_routine E else return (),
       must_ok E (EpollCtl epfd CTL_DEL fd) ''Unable to delete connection from epoll'',
       must_ok E (Close fd) ''Unable to close connection socket'',
       modify (set_conn conn_i (\<lambda>c. c\<lparr>socket_fd := -1\<rparr>)),
       modify (\<lambda>h. h\<lparr>num_clients := num_clients h - 1\<rparr>)])))"

section \<open>Messages\<close>

text \<open>
  \<open>read_data_on_connection\<close>: the header is an out-parameter; the branches that write only
  \<open>cmd\<close> leave the rest of it as it was. \<open>keep_data\<close> is the part of the function after \<open>recv\<close>
  delivered something: the kernel wrote what it received into the buffer behind the bytes that
  are already there.
\<close>

definition keep_data ::
    "env \<Rightarrow> nat \<Rightarrow> request_header \<Rightarrow> sysret \<Rightarrow> (server, request_header) prog" where
  "keep_data E conn_i header r =
     bind (get (\<lambda>h. conn h conn_i)) (\<lambda>c.
     bind (get recv_buffer_size) (\<lambda>size.
     let n = nat (r_ret r); pos = unat (bytes_recieved c) in
     andthen (undef_if (length (recv_buffer c) < pos + n) ''recv past the end of recv_buffer'')
     (andthen (modify (set_conn conn_i (\<lambda>c. c\<lparr>
                 recv_buffer := blit (recv_buffer c) pos (fit n (r_data r)),
                 bytes_recieved := bytes_recieved c + word_of_int (r_ret r)\<rparr>)))
     (bind (get (\<lambda>h. conn h conn_i)) (\<lambda>c'.
      if bytes_recieved c' = size
      then andthen (modify (set_conn conn_i (\<lambda>c. c\<lparr>bytes_recieved := 0\<rparr>)))
           (return (parse_header (host E) (recv_buffer c')))
      else return (header\<lparr>cmd := ERR_NOT_READY\<rparr>))))))"

definition read_data_on_connection ::
    "env \<Rightarrow> nat \<Rightarrow> request_header \<Rightarrow> (server, request_header) prog" where
  "read_data_on_connection E conn_i header =
     bind (get (\<lambda>h. conn h conn_i)) (\<lambda>c.
     bind (get recv_buffer_size) (\<lambda>size.
     bind (call E (Recv (socket_fd c) (size - bytes_recieved c) MSG_WAITALL)) (\<lambda>r.
     if r_ret r = -1
     then (if r_errno r = EAGAIN \<or> r_errno r = EWOULDBLOCK
           then return (header\<lparr>cmd := ERR_NOT_READY\<rparr>)
           else if r_errno r = ECONNRESET then return (header\<lparr>cmd := ERR_CONN_BROKEN\<rparr>)
           else halt (Bug ''Unable to recv() command from server''))
     else if r_ret r = 0 then return (header\<lparr>cmd := ERR_CONN_BROKEN\<rparr>)
     else keep_data E conn_i header r)))"

definition put_data_to_connection ::
    "env \<Rightarrow> nat \<Rightarrow> size_t \<Rightarrow> request_header \<Rightarrow> (server, request_header) prog" where
  "put_data_to_connection E conn_i task_list_i header =
     bind (get task_size) (\<lambda>size.
     andthen (bug_on (cmd header \<noteq> CMD_TASK) ''Wrong command'')
     (andthen (bug_on (256 \<le> of_nat sizeof_header + size) ''Send buffer too small'')
     (andthen (bug_on (task_list_i = -1) ''Invalid task index'')
     (andthen (undef_if (MAX_TASKS_PER_CLIENT \<le> unat task_list_i) ''task_list out of bounds'')
     (bind (get (\<lambda>h. conn h conn_i)) (\<lambda>c.
     bind (get user_tasks) (\<lambda>tasks.
     let task_global_i = task_list c ! unat task_list_i;
         off = unat (ucast task_global_i * size :: size_t) in
     andthen (undef_if (256 < sizeof_header + unat size) ''send_buffer overflow'')
     (andthen (undef_if (length tasks < off + unat size) ''user_tasks out of bounds'')
     (bind (call E (Send (socket_fd c)
              (header_bytes (host E) header @ slice off (unat size) tasks) MSG_NOSIGNAL)) (\<lambda>r.
     if word_of_int (r_ret r) \<noteq> of_nat sizeof_header + size
     then (if r_ret r = -1 \<and> (r_errno r = EAGAIN \<or> r_errno r = EWOULDBLOCK)
           then return (header\<lparr>cmd := ERR_NOT_READY\<rparr>)
           else if r_ret r = -1 \<and> r_errno r = EPIPE
           then return (header\<lparr>cmd := ERR_CONN_BROKEN\<rparr>)
           else halt (Bug ''Unhandled error in send()''))
     else return header))))))))))"

section \<open>What the operations do to the handle\<close>

lemma silent_configure_connection: "silent (configure_connection E fd)"
  and silent_start_connection_management: "silent (start_connection_management_routine E)"
  and silent_pause_connection_management: "silent (pause_connection_management_routine E)"
  and silent_update_connection_management: "silent (update_connection_management E i b)"
  by (rule silentI; simp add: wp configure_connection_def start_connection_management_routine_def
      pause_connection_management_routine_def update_connection_management_def)+

definition add_connection :: "int \<Rightarrow> nat \<Rightarrow> server \<Rightarrow> server" where
  "add_connection fd i h =
     set_conn i (open_connection fd) (h\<lparr>num_clients := num_clients h + 1\<rparr>)"

definition remove_connection :: "nat \<Rightarrow> server \<Rightarrow> server" where
  "remove_connection i h =
     (set_conn i (\<lambda>c. c\<lparr>socket_fd := -1\<rparr>) h)\<lparr>num_clients := num_clients h - 1\<rparr>"

lemma client_count_fields [simp]:
  "conn (h\<lparr>num_clients := x\<rparr>) i = conn h i"
  "statuses (h\<lparr>num_clients := x\<rparr>) = statuses h"
  "cells (h\<lparr>num_clients := x\<rparr>) = cells h"
  "config_ok (h\<lparr>num_clients := x\<rparr>) = config_ok h"
  "counters_ok (h\<lparr>num_clients := x\<rparr>) = counters_ok h"
  by (simp_all add: conn_def statuses_def cells_def config_ok_def counters_ok_def)

lemma counters_ok_set_conn [simp]: "counters_ok (set_conn i f h) = counters_ok h"
  by (simp add: counters_ok_def)

lemma core_inv_add_connection:
  assumes inv: "core_inv h" and fd: "fd \<noteq> -1"
    and cell: "find_index (\<lambda>c. socket_fd c = -1) (client_conns h) = Some i"
  shows "core_inv (add_connection fd i h)"
proof -
  have i: "i < length (client_conns h)" and free: "socket_fd (conn h i) = -1"
    using cell by (auto simp: find_index_Some conn_def)
  let ?h = "add_connection fd i h"
  have "conn_table.used (client_conns h) < length (client_conns h)"
    by (rule conn_table.used_acquire_less [OF cell])
  moreover have "unat (max_clients h) < 2 ^ 64" using unsigned_less [of "max_clients h"] by simp
  ultimately have "unat (num_clients h + 1) = Suc (unat (num_clients h))"
    using core_inv_clients [OF inv] core_inv_table [OF inv] by (subst unat_plus_1) simp_all
  moreover have "conn_table.used (client_conns ?h) = Suc (conn_table.used (client_conns h))"
    using conn_table.used_acquire [OF cell, of fd] fd
    by (simp add: add_connection_def set_conn_def open_connection_def conn_def)
  moreover have "cells ?h = cells h"
    using i by (simp add: add_connection_def cells_set_conn_same open_connection_def)
  moreover have "conn_ok (unat (ret_size h)) (conn ?h k)" if "k < length (client_conns h)" for k
    using core_inv_conn [OF inv that] core_inv_conn [OF inv i] free fd i
    by (auto simp: add_connection_def conn_set_conn conn_ok_def open_connection_def sizeof_header_def)
  ultimately show ?thesis
    using inv by (simp add: core_inv_def add_connection_def)
qed

lemma core_inv_remove_connection:
  assumes inv: "core_inv h" and i: "i < length (client_conns h)"
    and active: "socket_fd (conn h i) \<noteq> -1"
    and empty: "task_list (conn h i) = replicate MAX_TASKS_PER_CLIENT (-1)"
  shows "core_inv (remove_connection i h)"
proof -
  let ?h = "remove_connection i h"
  have "0 < conn_table.used (client_conns h)"
    using conn_table.used_pos [OF i] active by (simp add: conn_def)
  then have "num_clients h \<noteq> 0"
    using core_inv_clients [OF inv] by (metis less_irrefl unat_0)
  then have "unat (num_clients h - 1) = unat (num_clients h) - 1" by (rule unat_minus_1)
  moreover have "conn_table.used (client_conns ?h) = conn_table.used (client_conns h) - 1"
    using conn_table.used_release [OF i] active by (simp add: remove_connection_def set_conn_def conn_def)
  moreover have "cells ?h = cells h"
    using i by (simp add: remove_connection_def cells_set_conn_same)
  moreover have "conn_ok (unat (ret_size h)) (conn ?h k)" if "k < length (client_conns h)" for k
    using core_inv_conn [OF inv that] core_inv_conn [OF inv i] empty i
    by (auto simp: remove_connection_def conn_set_conn conn_ok_def)
  ultimately show ?thesis
    using inv by (simp add: core_inv_def remove_connection_def)
qed

text \<open>\<open>quiet\<close> connections stay quiet.\<close>

lemma quiet_add_connection:
  "i < length (client_conns h) \<Longrightarrow> (k \<noteq> i \<Longrightarrow> quiet (conn h k)) \<Longrightarrow>
   quiet (conn (add_connection fd i h) k)"
  by (simp add: add_connection_def conn_set_conn quiet_def open_connection_def)

lemma quiet_remove_connection:
  "i < length (client_conns h) \<Longrightarrow> (k \<noteq> i \<Longrightarrow> quiet (conn h k)) \<Longrightarrow>
   quiet (conn (remove_connection i h) k)"
  by (simp add: remove_connection_def conn_set_conn quiet_def)

text \<open>What an accept can do: nothing (there was no request), or enter one socket in the table.\<close>

definition accepted :: "server \<Rightarrow> int \<Rightarrow> server \<Rightarrow> bool" where
  "accepted h r h' \<longleftrightarrow> r = -1 \<and> h' = h \<or>
     r = 0 \<and> (\<exists>fd i. fd \<noteq> -1 \<and>
       find_index (\<lambda>c. socket_fd c = -1) (client_conns h) = Some i \<and> h' = add_connection fd i h)"

lemma wpg_register_connection:
  assumes inv: "core_inv (hnd w)" and fd: "fd \<noteq> -1"
  shows "wpg d (register_connection E fd) (\<lambda>r w'. accepted (hnd w) r (hnd w')) (\<lambda>e _. orderly e) w"
  using fd core_inv_table [OF inv]
  by (cases "find_index (\<lambda>c. socket_fd c = -1) (client_conns (hnd w))")
     (auto simp: register_connection_def wp add_connection_def accepted_def
        intro!: wpg_silent [OF silent_pause_connection_management])

lemma wpg_accept:
  assumes inv: "core_inv (hnd w)"
  shows "wpg d (accept_incoming_connection_request E)
    (\<lambda>r w'. accepted (hnd w) r (hnd w')) (\<lambda>e _. orderly e) w"
proof -
  have reg: "wpg d (register_connection E fd) (\<lambda>r w''. accepted (hnd w) r (hnd w'')) (\<lambda>e _. orderly e) w'"
    if "hnd w' = hnd w" "fd \<noteq> -1" for w' :: "server world" and fd
    using wpg_register_connection [of w' fd d E] that inv by simp
  show ?thesis
    by (auto simp: accept_incoming_connection_request_def wp
        intro!: wpg_silent [OF silent_configure_connection] reg)
      (simp add: accepted_def)
qed

lemma wpg_delete_connection:
  "wpg d (delete_connection E i) (\<lambda>_ w'. hnd w' = remove_connection i (hnd w)) (\<lambda>e _. orderly e) w"
  by (auto simp: delete_connection_def wp remove_connection_def set_conn_def conn_def
      intro!: wpg_silent [OF silent_start_connection_management])

text \<open>
  Reading changes only the connection's receive buffer and its fill level, and returns a header:
  the parsed one when the message is complete, otherwise an error code.
\<close>

definition refill :: "nat \<Rightarrow> u8 list \<Rightarrow> size_t \<Rightarrow> server \<Rightarrow> server" where
  "refill i buf n = set_conn i (\<lambda>c. c\<lparr>recv_buffer := buf, bytes_recieved := n\<rparr>)"

lemma core_inv_buffer:
  assumes inv: "core_inv h" and i: "i < length (client_conns h)"
  shows "length (recv_buffer (conn h i)) = sizeof_header + unat (ret_size h)"
    and "unat (bytes_recieved (conn h i)) < sizeof_header + unat (ret_size h)"
    and "unat (recv_buffer_size h) = sizeof_header + unat (ret_size h)"
    and "unat (recv_buffer_size h - bytes_recieved (conn h i)) =
      sizeof_header + unat (ret_size h) - unat (bytes_recieved (conn h i))"
proof -
  show 1: "length (recv_buffer (conn h i)) = sizeof_header + unat (ret_size h)"
    and 2: "unat (bytes_recieved (conn h i)) < sizeof_header + unat (ret_size h)"
    using core_inv_conn [OF inv i] by (simp_all add: conn_ok_def)
  have "sizeof_header + unat (ret_size h) < 2 ^ 31"
    using core_inv_config [OF inv] by (simp add: config_ok_def)
  then show 3: "unat (recv_buffer_size h) = sizeof_header + unat (ret_size h)"
    by (simp add: recv_buffer_size_def sizeof_header_def unat_word_ariths)
  show "unat (recv_buffer_size h - bytes_recieved (conn h i)) =
      sizeof_header + unat (ret_size h) - unat (bytes_recieved (conn h i))"
    using 2 3 by (subst unat_sub) (simp_all add: word_le_nat_alt)
qed

lemma refill_same: "refill i (recv_buffer (conn h i)) (bytes_recieved (conn h i)) h = h"
  by (simp add: refill_def set_conn_def conn_def)

lemma recv_buffer_size_set_conn [simp]: "recv_buffer_size (set_conn i f h) = recv_buffer_size h"
  by (simp add: recv_buffer_size_def)

lemma set_conn_set_conn: "set_conn i g (set_conn i f h) = set_conn i (\<lambda>c. g (f c)) h"
  by (cases "i < length (client_conns h)") (simp_all add: set_conn_def conn_def list_update_beyond)

text \<open>What a read can do: header and handle afterwards.\<close>

definition received :: "env \<Rightarrow> nat \<Rightarrow> request_header \<Rightarrow> server \<Rightarrow> request_header \<Rightarrow> server \<Rightarrow> bool" where
  "received E i header h hdr h' \<longleftrightarrow> (\<exists>buf n. h' = refill i buf n h \<and>
        length buf = sizeof_header + unat (ret_size h) \<and>
        unat n < sizeof_header + unat (ret_size h) \<and>
        (hdr = header\<lparr>cmd := ERR_NOT_READY\<rparr> \<or> hdr = header\<lparr>cmd := ERR_CONN_BROKEN\<rparr> \<or>
         n = 0 \<and> hdr = parse_header (host E) buf))"

lemma wpg_keep_data:
  assumes inv: "core_inv (hnd w)" and i: "i < length (client_conns (hnd w))"
  and ret: "0 < r_ret r" "nat (r_ret r) \<le> unat (recv_buffer_size (hnd w) - bytes_recieved (conn (hnd w) i))"
  shows "wpg d (keep_data E i header r) Q S w =
    (let h = hnd w; c = conn h i; n = nat (r_ret r); pos = unat (bytes_recieved c);
         buf = blit (recv_buffer c) pos (fit n (r_data r)) in
     if pos + n = sizeof_header + unat (ret_size h)
     then Q (parse_header (host E) buf) (upd (refill i buf 0) w)
     else Q (header\<lparr>cmd := ERR_NOT_READY\<rparr>)
            (upd (refill i buf (bytes_recieved c + word_of_int (r_ret r))) w))"
proof -
  let ?c = "conn (hnd w) i" and ?rs = "unat (ret_size (hnd w))"
  let ?n = "nat (r_ret r)" and ?pos = "unat (bytes_recieved ?c)"
  note b = core_inv_buffer [OF inv i]
  have lim: "sizeof_header + ?rs < 2 ^ 31"
    using core_inv_config [OF inv] by (simp add: config_ok_def)
  have n: "0 \<le> r_ret r" "?pos + ?n \<le> sizeof_header + ?rs" using ret b by auto
  then have u: "unat (bytes_recieved ?c + word_of_int (r_ret r)) = ?pos + ?n"
    using lim by (intro unat_plus_word_of_int) simp_all
  have full: "bytes_recieved ?c + word_of_int (r_ret r) = recv_buffer_size (hnd w) \<longleftrightarrow>
      ?pos + ?n = sizeof_header + ?rs"
    using u b by (simp add: word_unat_eq_iff)
  define buf where "buf = blit (recv_buffer ?c) ?pos (fit ?n (r_data r))"
  define m where "m = bytes_recieved ?c + word_of_int (r_ret r)"
  have at: "conn (set_conn i f (hnd w)) i = f ?c" for f
    using i by (simp add: conn_set_conn)
  have no_undef: "\<not> length (recv_buffer ?c) < ?pos + ?n" using n b by simp
  have twice: "upd (set_conn i g) (upd (set_conn i f) w) = upd (set_conn i (\<lambda>c. g (f c))) w" for f g
    by (simp add: upd_def set_conn_set_conn)
  have r1: "upd (refill i buf 0) w = upd (set_conn i (\<lambda>c. c\<lparr>recv_buffer := buf, bytes_recieved := 0\<rparr>)) w"
    and r2: "upd (refill i buf m) w = upd (set_conn i (\<lambda>c. c\<lparr>recv_buffer := buf, bytes_recieved := m\<rparr>)) w"
    by (simp_all add: upd_def refill_def)
  have point: "f ?c = g ?c \<Longrightarrow> upd (set_conn i f) w = upd (set_conn i g) w" for f g
    by (simp add: upd_def set_conn_def)
  have w1: "upd (set_conn i (\<lambda>c. c\<lparr>recv_buffer := blit (recv_buffer c) ?pos (fit ?n (r_data r)),
        bytes_recieved := 0\<rparr>)) w = upd (refill i buf 0) w"
    and w2: "upd (set_conn i (\<lambda>c. c\<lparr>recv_buffer := blit (recv_buffer c) ?pos (fit ?n (r_data r)),
        bytes_recieved := bytes_recieved c + word_of_int (r_ret r)\<rparr>)) w = upd (refill i buf m) w"
    unfolding r1 r2 by (rule point, simp add: buf_def m_def)+
  show ?thesis
    unfolding keep_data_def Let_def wp buf_def [symmetric] m_def [symmetric] upd_simps at twice
    by (simp add: no_undef wp full [folded m_def] twice w1 w2)
qed

lemma wpg_read_data:
  assumes sound: "kernel_sound E" and inv: "core_inv (hnd w)"
    and i: "i < length (client_conns (hnd w))"
  shows "wpg d (read_data_on_connection E i header) (\<lambda>hdr w'. received E i header (hnd w) hdr (hnd w'))
    (\<lambda>e w'. e = Bug ''Unable to recv() command from server'') w"
proof -
  let ?h = "hnd w" let ?c = "conn ?h i" and ?size = "recv_buffer_size ?h"
  note b = core_inv_buffer [OF inv i]
  have same: "received E i header ?h (header\<lparr>cmd := c\<rparr>) ?h"
    if "c = ERR_NOT_READY \<or> c = ERR_CONN_BROKEN" for c
    unfolding received_def
    by (rule exI [of _ "recv_buffer ?c"], rule exI [of _ "bytes_recieved ?c"])
      (use that b refill_same [of i ?h] in auto)
  have step: "wpg d (keep_data E i header r) (\<lambda>hdr w'. received E i header ?h hdr (hnd w')) S (log x r w)"
    if a: "answers E w (Recv (socket_fd ?c) (?size - bytes_recieved ?c) MSG_WAITALL) r"
      "r_ret r \<noteq> -1" "r_ret r \<noteq> 0" for x r S
  proof -
    let ?n = "nat (r_ret r)" and ?pos = "unat (bytes_recieved ?c)"
    let ?buf = "blit (recv_buffer ?c) ?pos (fit ?n (r_data r))"
    let ?m = "bytes_recieved ?c + word_of_int (r_ret r)"
    have lim: "sizeof_header + unat (ret_size ?h) < 2 ^ 31"
      using core_inv_config [OF inv] by (simp add: config_ok_def)
    have n: "0 < r_ret r" "?n \<le> unat (?size - bytes_recieved ?c)"
      using kernel_sound_recv [OF sound a(1)] a by auto
    then have le: "?pos + ?n \<le> sizeof_header + unat (ret_size ?h)" using b by auto
    then have len: "length ?buf = sizeof_header + unat (ret_size ?h)" using b by simp
    have u: "unat ?m = ?pos + ?n" using n le lim by (intro unat_plus_word_of_int) simp_all
    have "received E i header ?h (parse_header (host E) ?buf) (refill i ?buf 0 ?h)"
      unfolding received_def by (rule exI [of _ ?buf], rule exI [of _ 0]) (simp add: len sizeof_header_def)
    moreover have "received E i header ?h (header\<lparr>cmd := ERR_NOT_READY\<rparr>) (refill i ?buf ?m ?h)"
      if "?pos + ?n \<noteq> sizeof_header + unat (ret_size ?h)"
      unfolding received_def by (rule exI [of _ ?buf], rule exI [of _ ?m]) (use len u le that in simp)
    ultimately show ?thesis
      using wpg_keep_data [of "log x r w" i r] inv i n by (simp add: Let_def)
  qed
  show ?thesis
    unfolding read_data_on_connection_def
    by (auto simp: wp intro: same step)
qed

text \<open>
  Sending a task: the message is the header followed by the bytes of the task the cell names.
\<close>

definition task_bytes :: "server \<Rightarrow> nat \<Rightarrow> u8 list" where
  "task_bytes h t = slice (t * unat (task_size h)) (unat (task_size h)) (user_tasks h)"

definition send_result :: "server \<Rightarrow> request_header \<Rightarrow> sysret \<Rightarrow> request_header option" where
  "send_result h header r =
     (if word_of_int (r_ret r) = of_nat sizeof_header + task_size h then Some header
      else if r_ret r = -1 \<and> r_errno r = EAGAIN then Some (header\<lparr>cmd := ERR_NOT_READY\<rparr>)
      else if r_ret r = -1 \<and> r_errno r = EPIPE then Some (header\<lparr>cmd := ERR_CONN_BROKEN\<rparr>)
      else None)"

lemma core_inv_task_size:
  assumes inv: "core_inv h"
  shows "unat (of_nat sizeof_header + task_size h) = sizeof_header + unat (task_size h)"
    and "unat (task_size h) \<noteq> 0" and "length (user_tasks h) = unat (num_tasks h) * unat (task_size h)"
proof -
  have c: "num_tasks h \<noteq> 0" "task_size h \<noteq> 0" "length (user_tasks h) < 2 ^ 63"
    and len: "length (user_tasks h) = unat (num_tasks h) * unat (task_size h)"
    using core_inv_config [OF inv] by (simp_all add: config_ok_def)
  then have "1 \<le> unat (num_tasks h)" by (metis less_one linorder_not_less unat_eq_0)
  then have "unat (task_size h) \<le> length (user_tasks h)" unfolding len by simp
  then have "unat (task_size h) < 2 ^ 63" using c by simp
  then show "unat (of_nat sizeof_header + task_size h) = sizeof_header + unat (task_size h)"
    by (simp add: sizeof_header_def unat_word_ariths)
  show "unat (task_size h) \<noteq> 0" using c by (simp add: unat_eq_0)
  show "length (user_tasks h) = unat (num_tasks h) * unat (task_size h)" by (rule len)
qed

lemma length_task_bytes:
  assumes "core_inv h" and "t < unat (num_tasks h)"
  shows "length (task_bytes h t) = unat (task_size h)"
proof -
  have "t * unat (task_size h) + unat (task_size h) \<le> unat (num_tasks h) * unat (task_size h)"
    using mult_le_mono1 [of "Suc t" "unat (num_tasks h)" "unat (task_size h)"] assms(2) by simp
  then show ?thesis using core_inv_task_size(3) [OF assms(1)] by (simp add: task_bytes_def)
qed

lemma wpg_put_data:
  assumes inv: "core_inv (hnd w)" and j: "unat j < MAX_TASKS_PER_CLIENT"
    and cmd: "cmd header = CMD_TASK"
  shows "wpg d (put_data_to_connection E i j header) Q S w =
    (let h = hnd w; t = unat (task_list (conn h i) ! unat j) in
     if 251 \<le> unat (task_size h) then S (Bug ''Send buffer too small'') w
     else if unat (num_tasks h) \<le> t then S (Undef ''user_tasks out of bounds'') w
     else \<forall>r. answers E w (Send (socket_fd (conn h i))
                 (header_bytes (host E) header @ task_bytes h t) MSG_NOSIGNAL) r \<longrightarrow>
       (case send_result h header r of
          Some header' \<Rightarrow> Q header' (log (Send (socket_fd (conn h i))
                 (header_bytes (host E) header @ task_bytes h t) MSG_NOSIGNAL) r w)
        | None \<Rightarrow> S (Bug ''Unhandled error in send()'') (log (Send (socket_fd (conn h i))
                 (header_bytes (host E) header @ task_bytes h t) MSG_NOSIGNAL) r w)))"
proof -
  let ?h = "hnd w" let ?x = "task_list (conn ?h i) ! unat j" let ?size = "task_size ?h"
  note size = core_inv_task_size [OF inv]
  have jn: "j \<noteq> -1" using j by (auto simp: unat_minus_1_64 MAX_TASKS_PER_CLIENT_def)
  have small: "256 \<le> of_nat sizeof_header + ?size \<longleftrightarrow> 251 \<le> unat ?size"
    using size(1) by (simp add: word_le_nat_alt sizeof_header_def)
  have "unat ?x < 2 ^ 32" using unsigned_less [of ?x] by simp
  then have off: "unat (ucast ?x * ?size) = unat ?x * unat ?size" if "\<not> 251 \<le> unat ?size"
  proof -
    have "unat ?x * unat ?size \<le> 2 ^ 32 * 251"
      by (rule mult_le_mono) (use \<open>unat ?x < 2 ^ 32\<close> that in simp_all)
    then show ?thesis by (simp add: unat_word_ariths)
  qed
  have out: "length (user_tasks ?h) < unat ?x * unat ?size + unat ?size \<longleftrightarrow>
      unat (num_tasks ?h) \<le> unat ?x"
  proof -
    have "unat ?x * unat ?size + unat ?size = Suc (unat ?x) * unat ?size" by simp
    then show ?thesis
      using size(2) by (simp only: size(3) mult_less_cancel2 less_Suc_eq_le) simp
  qed
  have fits: "\<not> 251 \<le> unat ?size \<Longrightarrow> \<not> 256 < sizeof_header + unat ?size"
    by (simp add: sizeof_header_def)
  show ?thesis
  proof (cases "251 \<le> unat ?size")
    case True
    then show ?thesis using cmd small by (simp add: put_data_to_connection_def wp)
  next
    case False
    note facts = j jn cmd small off [OF False] fits [OF False] False out
    have "wpg d (if word_of_int (r_ret r) \<noteq> of_nat sizeof_header + ?size
       then (if r_ret r = -1 \<and> (r_errno r = EAGAIN \<or> r_errno r = EWOULDBLOCK)
             then return (header\<lparr>cmd := ERR_NOT_READY\<rparr>)
             else if r_ret r = -1 \<and> r_errno r = EPIPE
             then return (header\<lparr>cmd := ERR_CONN_BROKEN\<rparr>)
             else halt (Bug ''Unhandled error in send()''))
       else return header) Q S w' =
      (case send_result ?h header r of Some x \<Rightarrow> Q x w' | None \<Rightarrow> S (Bug ''Unhandled error in send()'') w')"
      for r w'
      by (simp add: send_result_def EWOULDBLOCK_def wpg_return wpg_halt)
    with facts show ?thesis
      unfolding task_bytes_def Let_def
      by (cases "unat (num_tasks ?h) \<le> unat ?x")
        (simp_all add: put_data_to_connection_def wpg_bind wpg_andthen wpg_get wpg_undef_if wpg_bug_on
          wpg_call Let_def)
  qed
qed

end
