(* ===== verification/ServerLoop.thy ===== *)
theory ServerLoop
  imports ServerDiscovery ServerConn
begin

text \<open>
  The event loop of cluster-api/cluster-server.c, with one definition per block of its body,
  and the initialisation and de-initialisation around it. The event-loop thread is joined by
  \<open>stop_cluster_server\<close>; between its start and the join the main thread only makes the two
  \<open>epoll_ctl\<close> calls that switch events on, so the thread's run is placed at the join.
\<close>

section \<open>The event loop\<close>

definition has_event :: "u32 \<Rightarrow> u32 \<Rightarrow> bool" where
  "has_event evs flag \<longleftrightarrow> evs AND flag \<noteq> 0"

text \<open>Manage connection deaths.\<close>

definition hangup_connection :: "env \<Rightarrow> int \<Rightarrow> nat \<Rightarrow> (server, unit) prog" where
  "hangup_connection E fd conn_i =
     bind (get (\<lambda>h. socket_fd (conn h conn_i))) (\<lambda>s.
     if fd \<noteq> s then return ()
     else block
      [drop_resolving_tasks E conn_i,
       delete_connection E conn_i,
       bind (get num_clients) (\<lambda>n. if n = 0 then halt Quit else return ())])"

text \<open>Accept incoming connection requests, until there is none left.\<close>

definition accept_round :: "env \<Rightarrow> (server, unit option) prog" where
  "accept_round E = bind (accept_incoming_connection_request E)
     (\<lambda>r. return (if r = 0 then None else Some ()))"

definition accept_all :: "env \<Rightarrow> (server, unit) prog" where
  "accept_all E = loop (accept_round E)"

text \<open>Manage recieves.\<close>

definition enable_write :: "env \<Rightarrow> nat \<Rightarrow> (server, unit) prog" where
  "enable_write E conn_i = bind (get num_not_resolved)
     (\<lambda>n. if n \<noteq> 0 then update_connection_management E conn_i True else return ())"

definition count_request :: "nat \<Rightarrow> (server, unit) prog" where
  "count_request conn_i =
     modify (set_conn conn_i (\<lambda>c. c\<lparr>requested_tasks := requested_tasks c + 1\<rparr>))"

definition handle_request :: "env \<Rightarrow> nat \<Rightarrow> request_header \<Rightarrow> (server, unit) prog" where
  "handle_request E conn_i header =
     (if cmd header = CMD_REQUEST_FOR_DATA
      then block [count_request conn_i, enable_write E conn_i]
      else if cmd header = CMD_RESULT
      then block [push_return_value E conn_i header, count_request conn_i, enable_write E conn_i]
      else if cmd header = ERR_CONN_BROKEN
      then block [drop_resolving_tasks E conn_i, delete_connection E conn_i]
      else bug_on (cmd header \<noteq> ERR_NOT_READY) ''Unknow command recieved'')"

definition receive_on_connection :: "env \<Rightarrow> int \<Rightarrow> nat \<Rightarrow> (server, unit) prog" where
  "receive_on_connection E fd conn_i =
     bind (get (\<lambda>h. socket_fd (conn h conn_i))) (\<lambda>s.
     if s \<noteq> fd then return ()
     else bind (uninitialised_header E) (\<lambda>header0.
          bind (read_data_on_connection E conn_i header0) (handle_request E conn_i)))"

text \<open>Manage sends: one round of the loop over the tasks a connection asked for.\<close>

definition pick_task :: "env \<Rightarrow> nat \<Rightarrow> (server, unit) prog" where
  "pick_task E conn_i =
     bind (get (\<lambda>h. now_sending_task_i (conn h conn_i))) (\<lambda>now.
     if now = -1
     then bind (get_task_to_send E conn_i) (\<lambda>j.
          modify (set_conn conn_i (\<lambda>c. c\<lparr>now_sending_task_i := ucast j\<rparr>)))
     else return ())"

definition finish_send :: "env \<Rightarrow> nat \<Rightarrow> request_header \<Rightarrow> (server, unit) prog" where
  "finish_send E conn_i header =
     (if cmd header = CMD_TASK
      then block
       [modify (set_conn conn_i (\<lambda>c. c\<lparr>now_sending_task_i := -1\<rparr>)),
        modify (set_conn conn_i (\<lambda>c. c\<lparr>requested_tasks := requested_tasks c - 1\<rparr>)),
        update_connection_management E conn_i False]
      else if cmd header = ERR_CONN_BROKEN
      then block [drop_resolving_tasks E conn_i, delete_connection E conn_i]
      else bug_on (cmd header \<noteq> ERR_NOT_READY) ''Unknown command recieved'')"

definition send_current :: "env \<Rightarrow> nat \<Rightarrow> (server, unit option) prog" where
  "send_current E conn_i =
      bind (get (\<lambda>h. ucast (now_sending_task_i (conn h conn_i)))) (\<lambda>task_list_i.
       andthen (undef_if (MAX_TASKS_PER_CLIENT \<le> unat (task_list_i :: size_t))
                  ''task_list out of bounds'')
       (bind (get (\<lambda>h. task_list (conn h conn_i) ! unat task_list_i)) (\<lambda>t.
        bind (put_data_to_connection E conn_i task_list_i
                \<lparr>cmd = CMD_TASK, task_id = htobe32 (host E) t\<rparr>) (\<lambda>header.
        andthen (finish_send E conn_i header) (return None)))))"

definition send_round :: "env \<Rightarrow> nat \<Rightarrow> (server, unit option) prog" where
  "send_round E conn_i =
     bind (get (\<lambda>h. requested_tasks (conn h conn_i))) (\<lambda>n.
     if n = 0 then return (Some ())
     else andthen (pick_task E conn_i) (send_current E conn_i))"

definition send_on_connection :: "env \<Rightarrow> int \<Rightarrow> nat \<Rightarrow> (server, unit) prog" where
  "send_on_connection E fd conn_i =
     bind (get (\<lambda>h. socket_fd (conn h conn_i))) (\<lambda>s.
     if fd \<noteq> s then return () else loop (send_round E conn_i))"

text \<open>One event, and one round of the loop.\<close>

definition process_event :: "env \<Rightarrow> int \<times> u32 \<Rightarrow> (server, unit) prog" where
  "process_event E ev =
     (let fd = fst ev; evs = snd ev in
      bind (get conn_indices) (\<lambda>is.
      bind (get discovery_socket_fd) (\<lambda>dfd.
      bind (get accept_socket_fd) (\<lambda>afd. block
       [if fd = dfd \<and> has_event evs EPOLLIN
        then answer_clients_discovery_datagram E else return (),
        if has_event evs EPOLLHUP \<or> has_event evs EPOLLERR
        then for_each is (hangup_connection E fd) else return (),
        if fd = afd then accept_all E else return (),
        if has_event evs EPOLLIN then for_each is (receive_on_connection E fd) else return (),
        if has_event evs EPOLLOUT then for_each is (send_on_connection E fd) else return ()]))))"

definition MAX_EVENTS :: int where
  "MAX_EVENTS = 16"

definition eventloop_round :: "env \<Rightarrow> (server, unit option) prog" where
  "eventloop_round E =
     bind (get epoll_fd) (\<lambda>epfd.
     bind (call E (EpollWait epfd MAX_EVENTS)) (\<lambda>r.
     andthen (fail_if (r_ret r = -1) ''Failure in epoll_wait()'')
     (andthen (for_each (take (nat (r_ret r)) (r_events r)) (process_event E))
     (bind (get (\<lambda>h. num_completed h = num_tasks h)) (\<lambda>fin.
      return (if fin then Some () else None))))))"

definition server_eventloop :: "env \<Rightarrow> (server, unit) prog" where
  "server_eventloop E = loop (eventloop_round E)"

section \<open>Initialisation and de-initialisation\<close>

definition init_cluster_server :: "env \<Rightarrow> (nat \<Rightarrow> connection) \<Rightarrow> (server, unit) prog" where
  "init_cluster_server E raw =
     block
      [init_discovery_routine E,
       init_connection_management_routine E raw,
       init_task_management_routine E,
       bind (must E (EpollCreate1 0) ''epoll_create1() failed'')
         (\<lambda>fd. modify (\<lambda>h. h\<lparr>epoll_fd := fd\<rparr>)),
       must_zero E (PthreadCreate 0) ''pthread_create() failed'',
       start_connection_management_routine E,
       start_discovery_routine E]"

definition stop_cluster_server :: "env \<Rightarrow> (server, unit) prog" where
  "stop_cluster_server E =
     block
      [must_zero E (PthreadJoin 0) ''pthread_join() failed'',
       bind (get epoll_fd) (\<lambda>fd. must_ok E (Close fd) ''Unable to close() epoll file descriptor''),
       modify (\<lambda>h. h\<lparr>epoll_fd := -1\<rparr>),
       free_discovery_routine E,
       free_connection_management_routine E,
       free_task_management_routine E]"

text \<open>
  \<open>compute_task\<close>: the handle is an uninitialised stack variable (the initial \<open>hnd\<close> of the
  world), the buffers are the caller's (\<open>None\<close> is the null pointer).
\<close>

definition compute_task :: "env \<Rightarrow> (nat \<Rightarrow> connection) \<Rightarrow> size_t \<Rightarrow> u8 list option \<Rightarrow> size_t \<Rightarrow>
    u8 list option \<Rightarrow> size_t \<Rightarrow> (server, int) prog" where
  "compute_task E raw n tasks tsize rets rsize =
     andthen (block
      [bug_on (n = 0) ''Error tasks number'',
       bug_on (tasks = None) ''Task buffer is nullptr'',
       bug_on (tsize = 0) ''Invalid task size'',
       bug_on (rets = None) ''Ret buffer is nullptr'',
       bug_on (rsize = 0) ''Invalid ret size'',
       modify (\<lambda>h. h\<lparr>num_tasks := n, user_tasks := the tasks, task_size := tsize,
                      user_rets := the rets, ret_size := rsize\<rparr>),
       init_cluster_server E raw,
       server_eventloop E,
       stop_cluster_server E])
     (return 0)"

end
