(* ===== verification/ServerPool.thy ===== *)
theory ServerPool
  imports ServerTasks
begin

text \<open>
  The contract of the server's task management, without its tables: a pool in which each task
  is to do, held by one connection, or done with its result. The operations on the task table,
  the task lists and the caller's buffers refine the three steps of the pool.
\<close>

section \<open>The abstract task pool\<close>

datatype phase = Todo | Held nat | Done "u8 list"

inductive pool_step :: "phase list \<Rightarrow> phase list \<Rightarrow> bool" where
  assign: "t < length p \<Longrightarrow> p ! t = Todo \<Longrightarrow> (\<And>k. k < t \<Longrightarrow> p ! k \<noteq> Todo) \<Longrightarrow>
     pool_step p (p[t := Held c])"
| complete: "t < length p \<Longrightarrow> p ! t = Held c \<Longrightarrow> pool_step p (p[t := Done bs])"
| lose: "pool_step p (map (\<lambda>x. if x = Held c then Todo else x) p)"

inductive_cases pool_stepE: "pool_step p q"

abbreviation pool_steps :: "phase list \<Rightarrow> phase list \<Rightarrow> bool" where
  "pool_steps \<equiv> pool_step\<^sup>*\<^sup>*"

lemma pool_step_length: "pool_step p q \<Longrightarrow> length q = length p"
  by (auto elim!: pool_stepE)

lemma pool_steps_length: "pool_steps p q \<Longrightarrow> length q = length p"
  by (induction rule: rtranclp_induct) (auto dest: pool_step_length)

text \<open>A result, once stored, stays.\<close>

lemma pool_step_done:
  "pool_step p q \<Longrightarrow> t < length p \<Longrightarrow> p ! t = Done bs \<Longrightarrow> q ! t = Done bs"
  by (auto elim!: pool_stepE simp: nth_list_update)

lemma pool_steps_done:
  assumes "pool_steps p q" and "t < length p" and "p ! t = Done bs"
  shows "q ! t = Done bs"
  using assms by (induction rule: rtranclp_induct) (auto simp: pool_steps_length intro: pool_step_done)

section \<open>The pool that the server's state stands for\<close>

definition holder :: "u32 list list \<Rightarrow> u32 \<Rightarrow> nat" where
  "holder cs x = (case find_index (\<lambda>ts. x \<in> set ts) cs of Some i \<Rightarrow> i | None \<Rightarrow> 0)"

definition result_bytes :: "server \<Rightarrow> nat \<Rightarrow> u8 list" where
  "result_bytes h t = slice (t * unat (ret_size h)) (unat (ret_size h)) (user_rets h)"

definition phase :: "server \<Rightarrow> nat \<Rightarrow> phase" where
  "phase h t = (case statuses h ! t of
      NOT_RESOLVED \<Rightarrow> Todo
    | RESOLVING \<Rightarrow> Held (holder (cells h) (of_nat t))
    | COMPLETED \<Rightarrow> Done (result_bytes h t))"

definition pool :: "server \<Rightarrow> phase list" where
  "pool h = map (phase h) [0..<unat (num_tasks h)]"

lemma length_pool [simp]: "length (pool h) = unat (num_tasks h)"
  by (simp add: pool_def)

lemma pool_nth [simp]: "t < unat (num_tasks h) \<Longrightarrow> pool h ! t = phase h t"
  by (simp add: pool_def)

lemma pool_frame:
  assumes "statuses h' = statuses h" and "cells h' = cells h" and "user_rets h' = user_rets h"
    and "num_tasks h' = num_tasks h" and "ret_size h' = ret_size h"
  shows "pool h' = pool h"
  unfolding pool_def phase_def result_bytes_def assms by (rule refl)

lemma holder_eq:
  assumes ok: "cells_ok sts cs" and h: "holds cs i j x"
  shows "holder cs x = i"
proof -
  have i: "i < length cs" "x \<in> set (cs ! i)" and x: "x \<noteq> -1"
    using h by (auto simp: holds_def)
  have uniq: "k = i" if k: "k < length cs" "x \<in> set (cs ! k)" for k
  proof -
    obtain j' where "holds cs k j' x" using k x by (auto simp: holds_def in_set_conv_nth)
    with ok h show ?thesis unfolding cells_ok_def by blast
  qed
  have "find_index (\<lambda>ts. x \<in> set ts) cs = Some i"
    unfolding find_index_Some using i uniq by (metis less_trans less_irrefl)
  then show ?thesis by (simp add: holder_def)
qed

lemma phase_held:
  assumes inv: "core_inv h" and t: "t < unat (num_tasks h)" and h: "holds (cells h) i j (of_nat t)"
  shows "phase h t = Held i"
  using held_resolving [OF inv h] of_nat_task_iff [OF inv t, of "of_nat t"]
    holder_eq [OF core_inv_cells [OF inv] h] by (auto simp: phase_def)

lemma phase_held_iff:
  assumes inv: "core_inv h" and t: "t < unat (num_tasks h)"
  shows "phase h t = Held i \<longleftrightarrow> (\<exists>j. holds (cells h) i j (of_nat t))"
proof
  assume p: "phase h t = Held i"
  then have "statuses h ! t = RESOLVING" by (auto simp: phase_def split: task_status.splits)
  then obtain i' j where h: "holds (cells h) i' j (of_nat t)"
    using core_inv_cells [OF inv] t core_inv_tasks [OF inv] unfolding cells_ok_def by auto
  with p phase_held [OF inv t h] show "\<exists>j. holds (cells h) i j (of_nat t)" by auto
qed (use phase_held [OF inv t] in blast)

section \<open>The operations refine the steps of the pool\<close>

lemma pool_eqI:
  assumes "num_tasks h' = num_tasks h" and "length q = unat (num_tasks h)"
    and "\<And>t. t < unat (num_tasks h) \<Longrightarrow> phase h' t = q ! t"
  shows "pool h' = q"
  by (rule nth_equalityI) (use assms in simp_all)

lemma phase_cong:
  assumes inv: "core_inv h" "core_inv h'" and t: "t < unat (num_tasks h)"
    and n: "num_tasks h' = num_tasks h"
    and st: "statuses h' ! t = statuses h ! t"
    and hold: "\<And>i. (\<exists>j. holds (cells h') i j (of_nat t)) = (\<exists>j. holds (cells h) i j (of_nat t))"
    and res: "result_bytes h' t = result_bytes h t"
  shows "phase h' t = phase h t"
proof (cases "statuses h ! t")
  case RESOLVING
  then have "phase h t = Held (holder (cells h) (of_nat t))" by (simp add: phase_def)
  then have "phase h' t = Held (holder (cells h) (of_nat t))"
    using phase_held_iff [OF inv(1) t] phase_held_iff [OF inv(2)] t n hold by auto
  with RESOLVING show ?thesis by (simp add: phase_def)
qed (use st res in \<open>simp_all add: phase_def\<close>)

lemma assign_task_fields [simp]:
  "num_tasks (assign_task i j t h) = num_tasks h"
  "ret_size (assign_task i j t h) = ret_size h"
  "user_rets (assign_task i j t h) = user_rets h"
  by (simp_all add: assign_task_def take_task_def)

lemma statuses_assign_task:
  "t < unat (num_tasks h) \<Longrightarrow> statuses (assign_task i j t h) = (statuses h)[t := RESOLVING]"
  by (simp add: assign_task_def take_task_def statuses_def [of "_\<lparr>num_not_resolved := _, min_not_resolved_task := _\<rparr>"])
    (simp add: statuses_def [symmetric])

lemma cells_assign_task:
  "i < length (client_conns h) \<Longrightarrow> cells (assign_task i j t h) = set_cell i j (of_nat t) (cells h)"
  by (simp add: assign_task_def cells_set_conn_cell cells_def [of "take_task t h"]) (simp add: cells_def)

lemma pool_assign_task:
  assumes inv: "core_inv h" and i: "i < length (client_conns h)"
    and live: "socket_fd (conn h i) \<noteq> -1" and more: "num_not_resolved h \<noteq> 0"
    and j: "j < MAX_TASKS_PER_CLIENT" "task_list (conn h i) ! j = -1"
  shows "pool (assign_task i j (next_task h) h) = (pool h)[next_task h := Held i]"
    and "pool_step (pool h) (pool (assign_task i j (next_task h) h))"
proof -
  let ?t = "next_task h" let ?h = "assign_task i j ?t h"
  have t: "?t < unat (num_tasks h)" "statuses h ! ?t = NOT_RESOLVED"
    "\<forall>k < ?t. statuses h ! k \<noteq> NOT_RESOLVED"
    using next_task_cases [OF inv] next_task_runs_out [OF inv] more by auto
  have inv': "core_inv ?h" by (rule core_inv_assign_task [OF inv i live more j])
  have new: "holds (cells ?h) i' j' x \<longleftrightarrow>
      (if i' = i \<and> j' = j then of_nat ?t = x \<and> x \<noteq> -1 else holds (cells h) i' j' x)" for i' j' x
    using i j core_inv_length_task_list [OF inv i] by (simp add: cells_assign_task holds_set_cell)
  have ne: "(of_nat k :: u32) = of_nat ?t \<longleftrightarrow> k = ?t" if "k < unat (num_tasks h)" for k
    using that t(1) core_inv_small [OF inv] by (intro of_nat_u32_eq) simp_all
  have free: "\<not> holds (cells h) i j x" for x
    using i j by (simp add: holds_def)
  show p: "pool ?h = (pool h)[?t := Held i]"
  proof (rule pool_eqI)
    fix k assume k: "k < unat (num_tasks h)"
    show "phase ?h k = (pool h)[?t := Held i] ! k"
    proof (cases "k = ?t")
      case True
      have "k \<noteq> unat (-1 :: u32)" using k core_inv_small [OF inv] by (simp add: unat_minus_1_32)
      then have "(of_nat k :: u32) \<noteq> -1" using of_nat_task_iff [OF inv k] by metis
      then have "holds (cells ?h) i j (of_nat k)" using True new by simp
      then show ?thesis using True k phase_held [OF inv', of k i j] by simp
    next
      case False
      have "(\<exists>j'. holds (cells ?h) i' j' (of_nat k)) = (\<exists>j'. holds (cells h) i' j' (of_nat k))" for i'
        unfolding new using ne [OF k] False free by metis
      then show ?thesis
        using False k t(1) by (auto intro!: phase_cong [OF inv inv' k]
            simp: statuses_assign_task result_bytes_def)
    qed
  qed simp_all
  show "pool_step (pool h) (pool ?h)"
    unfolding p by (rule assign) (use t in \<open>auto simp: phase_def split: task_status.splits\<close>)
qed

lemma complete_task_fields [simp]:
  "num_tasks (complete_task i j t h) = num_tasks h"
  "ret_size (complete_task i j t h) = ret_size h"
  by (simp_all add: complete_task_def)

lemma user_rets_complete_task:
  "user_rets (complete_task i j t h) = blit (user_rets h) (ret (task_manager h ! t))
     (slice sizeof_header (unat (ret_size h)) (recv_buffer (conn h i)))"
  by (simp add: complete_task_def store_result_def)

lemma statuses_complete_task: "statuses (complete_task i j t h) = (statuses h)[t := COMPLETED]"
  by (simp add: complete_task_def statuses_def [of "_\<lparr>num_completed := _\<rparr>"])
    (simp add: statuses_def [symmetric])

lemma cells_complete_task:
  "i < length (client_conns h) \<Longrightarrow> cells (complete_task i j t h) = set_cell i j (-1) (cells h)"
  by (simp add: complete_task_def cells_def [of "_\<lparr>num_completed := _\<rparr>"])
    (simp add: cells_def [symmetric] cells_set_conn_cell)

definition payload :: "server \<Rightarrow> nat \<Rightarrow> u8 list" where
  "payload h i = slice sizeof_header (unat (ret_size h)) (recv_buffer (conn h i))"

lemma result_complete_task:
  assumes inv: "core_inv h" and i: "i < length (client_conns h)"
    and t: "t < unat (num_tasks h)" and k: "k < unat (num_tasks h)"
  shows "result_bytes (complete_task i j t h) k = (if k = t then payload h i else result_bytes h k)"
proof -
  let ?rs = "unat (ret_size h)"
  note r = ret_range [OF inv t] ret_range [OF inv k]
  have len: "length (payload h i) = ?rs"
    unfolding payload_def by (rule length_result_bytes [OF inv i])
  have eq: "result_bytes (complete_task i j t h) k =
      slice (k * ?rs) ?rs (blit (user_rets h) (t * ?rs) (payload h i))"
    using r by (simp add: result_bytes_def user_rets_complete_task payload_def)
  show ?thesis
  proof (cases "k = t")
    case True
    have "slice (t * ?rs) (length (payload h i)) (blit (user_rets h) (t * ?rs) (payload h i)) = payload h i"
      by (rule slice_blit_same) (use r len in simp)
    then show ?thesis using True eq len by simp
  next
    case False
    have "k * ?rs + ?rs \<le> t * ?rs \<or> t * ?rs + ?rs \<le> k * ?rs"
    proof (cases "k < t")
      case True
      then have "Suc k * ?rs \<le> t * ?rs" by (intro mult_le_mono1) simp
      then show ?thesis by simp
    next
      case F: False
      then have "Suc t * ?rs \<le> k * ?rs" using False by (intro mult_le_mono1) simp
      then show ?thesis by simp
    qed
    then have "slice (k * ?rs) ?rs (blit (user_rets h) (t * ?rs) (payload h i)) =
        slice (k * ?rs) ?rs (user_rets h)"
      by (intro slice_blit_disjoint) (use r len in simp_all)
    then show ?thesis using False eq by (simp add: result_bytes_def [of h])
  qed
qed

lemma pool_complete_task:
  assumes inv: "core_inv h" and i: "i < length (client_conns h)"
    and x: "unat x < unat (num_tasks h)"
    and j: "j < MAX_TASKS_PER_CLIENT" "task_list (conn h i) ! j = x"
  shows "pool (complete_task i j (unat x) h) = (pool h)[unat x := Done (payload h i)]"
    and "pool_step (pool h) (pool (complete_task i j (unat x) h))"
proof -
  let ?t = "unat x" let ?h = "complete_task i j ?t h"
  have xt: "x = of_nat ?t" by simp
  have "x \<noteq> -1" using x core_inv_small [OF inv] by (auto simp: unat_minus_1_32)
  then have h: "holds (cells h) i j x" using holds_cell [OF inv i j(1)] j by simp
  have inv': "core_inv ?h" by (rule core_inv_complete_task [OF inv i x j])
  have new: "holds (cells ?h) i' j' y \<longleftrightarrow> holds (cells h) i' j' y \<and> \<not> (i' = i \<and> j' = j)" for i' j' y
    using i j core_inv_length_task_list [OF inv i] by (auto simp: cells_complete_task holds_set_cell)
  show p: "pool ?h = (pool h)[?t := Done (payload h i)]"
  proof (rule pool_eqI)
    fix k assume k: "k < unat (num_tasks h)"
    show "phase ?h k = (pool h)[?t := Done (payload h i)] ! k"
    proof (cases "k = ?t")
      case True
      then show ?thesis
        using k core_inv_tasks [OF inv] result_complete_task [OF inv i x k]
        by (simp add: phase_def statuses_complete_task)
    next
      case False
      then have "(of_nat k :: u32) \<noteq> x" using of_nat_task_iff [OF inv k, of x] by auto
      then have "\<not> holds (cells h) i j (of_nat k)" using h by (auto simp: holds_def)
      then have "(\<exists>j'. holds (cells ?h) i' j' (of_nat k)) = (\<exists>j'. holds (cells h) i' j' (of_nat k))" for i'
        unfolding new by metis
      moreover have "statuses ?h ! k = statuses h ! k"
        using False by (simp add: statuses_complete_task)
      moreover have "result_bytes ?h k = result_bytes h k"
        using False result_complete_task [OF inv i x k] by simp
      ultimately have "phase ?h k = phase h k"
        by (intro phase_cong [OF inv inv' k]) simp_all
      then show ?thesis using False k by simp
    qed
  qed simp_all
  have "phase h ?t = Held i"
    by (rule phase_held [OF inv x]) (use h xt in simp)
  then show "pool_step (pool h) (pool ?h)"
    unfolding p by (intro complete) (use x in simp_all)
qed

lemma pool_drop_tasks:
  assumes inv: "core_inv h" and i: "i < length (client_conns h)"
  shows "pool (drop_tasks i h) = map (\<lambda>p. if p = Held i then Todo else p) (pool h)"
    and "pool_step (pool h) (pool (drop_tasks i h))"
proof -
  note e = drop_tasks_effect [OF inv i]
  show p: "pool (drop_tasks i h) = map (\<lambda>p. if p = Held i then Todo else p) (pool h)"
  proof (rule pool_eqI)
    fix k assume k: "k < unat (num_tasks h)"
    show "phase (drop_tasks i h) k = map (\<lambda>p. if p = Held i then Todo else p) (pool h) ! k"
    proof (cases "phase h k = Held i")
      case True
      then have "statuses (drop_tasks i h) ! k = NOT_RESOLVED"
        using phase_held_iff [OF inv k] e(11) [OF k] by simp
      then show ?thesis using True k by (simp add: phase_def [of "drop_tasks i h"])
    next
      case False
      then have no: "\<not> (\<exists>j. holds (cells h) i j (of_nat k))" using phase_held_iff [OF inv k] by simp
      then have "(\<exists>j. holds (cells (drop_tasks i h)) i' j (of_nat k)) = (\<exists>j. holds (cells h) i' j (of_nat k))" for i'
        unfolding e(9) by auto
      moreover have "statuses (drop_tasks i h) ! k = statuses h ! k" using e(11) [OF k] no by simp
      moreover have "result_bytes (drop_tasks i h) k = result_bytes h k" by (simp add: result_bytes_def e(7,8))
      ultimately have "phase (drop_tasks i h) k = phase h k"
        by (intro phase_cong [OF inv e(1) k e(5)]) simp_all
      then show ?thesis using False k by simp
    qed
  qed (simp_all add: e(5))
  show "pool_step (pool h) (pool (drop_tasks i h))" unfolding p by (rule lose)
qed

section \<open>Histories\<close>

text \<open>
  \<open>evolved h0 h\<close>: since \<open>h0\<close> the pool has only made the steps of its specification, and what
  the caller announced and the tasks it passed are as they were.
\<close>

definition caller :: "server \<Rightarrow> size_t \<times> u8 list \<times> size_t \<times> size_t" where
  "caller h = (num_tasks h, user_tasks h, task_size h, ret_size h)"

definition evolved :: "server \<Rightarrow> server \<Rightarrow> bool" where
  "evolved h0 h \<longleftrightarrow> caller h = caller h0 \<and> pool_steps (pool h0) (pool h)"

lemma evolved_refl [simp]: "evolved h h"
  by (simp add: evolved_def)

lemma evolved_frame:
  "pool h' = pool h \<Longrightarrow> caller h' = caller h \<Longrightarrow> evolved h0 h' = evolved h0 h"
  by (simp add: evolved_def)

lemma evolved_step:
  "evolved h0 h \<Longrightarrow> pool_step (pool h) (pool h') \<Longrightarrow> caller h' = caller h \<Longrightarrow> evolved h0 h'"
  unfolding evolved_def by (auto intro: rtranclp.rtrancl_into_rtrancl)

lemma caller_simps [simp]:
  "caller (set_conn i f h) = caller h"
  "caller (h\<lparr>num_clients := x\<rparr>) = caller h"
  "caller (complete_task i j t h) = caller h"
  "caller (assign_task i j t h) = caller h"
  by (simp_all add: caller_def complete_task_def store_result_def assign_task_def take_task_def)

lemma caller_return_task [simp]: "caller (return_task i j h) = caller h"
  by (simp add: caller_def return_task_def Let_def clear_cell_def lower_min_def)

lemma caller_drop_tasks [simp]: "caller (drop_tasks i h) = caller h"
proof -
  have "caller (fold (return_task i) js h) = caller h" for js
    by (induction js arbitrary: h) simp_all
  then show ?thesis by (simp add: drop_tasks_def)
qed

lemma pool_set_conn:
  "i < length (client_conns h) \<Longrightarrow> task_list (f (conn h i)) = task_list (conn h i) \<Longrightarrow>
   pool (set_conn i f h) = pool h"
  by (rule pool_frame) (simp_all add: cells_set_conn_same)

lemma evolved_set_conn:
  "i < length (client_conns h) \<Longrightarrow> task_list (f (conn h i)) = task_list (conn h i) \<Longrightarrow>
   evolved h0 (set_conn i f h) = evolved h0 h"
  by (rule evolved_frame) (simp_all add: pool_set_conn)

lemma count_not_resolved:
  assumes inv: "core_inv h"
  shows "unat (num_not_resolved h) = countp (\<lambda>p. p = Todo) (pool h)"
proof -
  have len: "length (statuses h) = unat (num_tasks h)" using core_inv_tasks [OF inv] by simp
  have "map (\<lambda>p. p = Todo) (pool h) = map (\<lambda>s. s = NOT_RESOLVED) (statuses h)"
    by (rule nth_equalityI) (auto simp: core_inv_tasks [OF inv] phase_def split: task_status.splits)
  then have "countp id (map (\<lambda>p. p = Todo) (pool h)) = countp id (map (\<lambda>s. s = NOT_RESOLVED) (statuses h))"
    by simp
  then show ?thesis using core_inv_counters [OF inv] by (simp add: countp_map counters_ok_def)
qed

lemma countp_lose:
  "countp (\<lambda>p. p = Todo) (map (\<lambda>p. if p = Held i then Todo else p) ps) =
   countp (\<lambda>p. p = Todo) ps + countp (\<lambda>p. p = Held i) ps"
  by (induction ps) simp_all

end
