(* ===== verification/ServerSafety.thy ===== *)
theory ServerSafety
  imports ServerLoop ServerPool
begin

text \<open>
  Every block of the server's event loop keeps the invariant, and the only undefined behaviour
  it can run into is the two accesses named in \<open>known_stop\<close>.
\<close>

text \<open>
  The invariant between events, for a connection table of \<open>n\<close> cells and a history that began with
  the handle \<open>q\<close>.
\<close>

definition table_inv :: "nat \<Rightarrow> server \<Rightarrow> server \<Rightarrow> bool" where
  "table_inv n q h \<longleftrightarrow> server_inv h \<and> length (client_conns h) = n \<and> evolved q h"

definition known_stop :: "stop \<Rightarrow> bool" where
  "known_stop e \<longleftrightarrow> orderly e \<or>
     e = Undef ''task_manager out of bounds'' \<or> e = Undef ''user_tasks out of bounds''"

interpretation srv: contract "table_inv n q" known_stop for n q
  by unfold_locales (simp add: known_stop_def)

lemma known_stop_simps [simp]:
  "known_stop (Fatal msg)" "known_stop (Bug msg)" "known_stop Quit"
  "known_stop (Undef ''task_manager out of bounds'')"
  "known_stop (Undef ''user_tasks out of bounds'')"
  by (simp_all add: known_stop_def)

lemma orderly_known [simp]: "orderly e \<Longrightarrow> known_stop e"
  by (simp add: known_stop_def)

lemma table_inv_iff:
  "table_inv n q h \<longleftrightarrow> core_inv h \<and> (\<forall>k < n. quiet (conn h k)) \<and> length (client_conns h) = n \<and>
     evolved q h"
  by (auto simp: table_inv_def server_inv_def)

text \<open>The updates that the pool does not see.\<close>

lemma evolved_num_clients [simp]: "evolved h0 (h\<lparr>num_clients := x\<rparr>) = evolved h0 h"
proof (rule evolved_frame)
  show "pool (h\<lparr>num_clients := x\<rparr>) = pool h" by (rule pool_frame) (simp_all add: statuses_def cells_def)
qed simp

lemma evolved_add_connection:
  "i < length (client_conns h) \<Longrightarrow> evolved h0 (add_connection fd i h) = evolved h0 h"
  unfolding add_connection_def by (subst evolved_set_conn) (simp_all add: open_connection_def)

lemma evolved_remove_connection:
  "i < length (client_conns h) \<Longrightarrow> evolved h0 (remove_connection i h) = evolved h0 h"
  unfolding remove_connection_def by (simp add: evolved_set_conn)

lemma core_inv_frame:
  assumes "core_inv h" and "config_ok h'" and "ret_size h' = ret_size h"
    and "length (client_conns h') = length (client_conns h)"
    and "\<And>k. k < length (client_conns h) \<Longrightarrow> conn_ok (unat (ret_size h)) (conn h' k)"
    and "num_clients h' = num_clients h"
    and "conn_table.used (client_conns h') = conn_table.used (client_conns h)"
    and "statuses h' = statuses h" and "cells h' = cells h" and "counters_ok h'"
  shows "core_inv h'"
  using assms by (simp add: core_inv_def)

lemma core_inv_set_conn:
  assumes inv: "core_inv h" and i: "i < length (client_conns h)"
    and ok: "conn_ok (unat (ret_size h)) (f (conn h i))"
    and same: "task_list (f (conn h i)) = task_list (conn h i)"
      "(socket_fd (f (conn h i)) = -1) = (socket_fd (conn h i) = -1)"
  shows "core_inv (set_conn i f h)"
  by (rule core_inv_frame [OF inv])
    (use assms core_inv_conn [OF inv] in \<open>auto simp: core_inv_config core_inv_counters
       conn_set_conn cells_set_conn_same used_set_conn_same\<close>)

section \<open>Discovery and accepting\<close>

lemma silent_answer_round: "silent (answer_round E)"
  by (rule silentI) (simp add: wp answer_round_def)

lemma keeps_answer: "srv.keeps n q (answer_clients_discovery_datagram E)"
  unfolding answer_clients_discovery_datagram_def
  by (intro srv.keeps_loop srv.keeps_silent silent_answer_round)

lemma length_add_connection [simp]:
  "length (client_conns (add_connection fd i h)) = length (client_conns h)"
  by (simp add: add_connection_def)

lemma length_remove_connection [simp]:
  "length (client_conns (remove_connection i h)) = length (client_conns h)"
  by (simp add: remove_connection_def)

lemma table_inv_add_connection:
  assumes inv: "table_inv n q h" and fd: "fd \<noteq> -1"
    and cell: "find_index (\<lambda>c. socket_fd c = -1) (client_conns h) = Some i"
  shows "table_inv n q (add_connection fd i h)"
  using inv core_inv_add_connection [OF _ fd cell] cell
  by (auto simp: table_inv_iff find_index_Some evolved_add_connection intro!: quiet_add_connection)

lemma table_inv_accepted: "table_inv n q h \<Longrightarrow> accepted h r h' \<Longrightarrow> table_inv n q h'"
  by (auto simp: accepted_def intro: table_inv_add_connection)

lemma table_inv_core: "table_inv n q h \<Longrightarrow> core_inv h"
  and table_inv_length: "table_inv n q h \<Longrightarrow> length (client_conns h) = n"
  and table_inv_quiet: "table_inv n q h \<Longrightarrow> k < n \<Longrightarrow> quiet (conn h k)"
  and table_inv_pool: "table_inv n q h \<Longrightarrow> evolved q h"
  by (auto simp: table_inv_iff)

lemma keeps_accept_all: "srv.keeps n q (accept_all E)"
proof -
  have "srv.keeps n q (accept_incoming_connection_request E)"
    by (rule srv.keepsI, rule wpg_mono [OF wpg_accept])
      (auto intro: table_inv_core table_inv_accepted)
  then show ?thesis
    unfolding accept_all_def accept_round_def by (intro srv.keeps_loop srv.keeps_bind srv.keeps_return)
qed

section \<open>Losing a connection\<close>

lemma drop_and_delete:
  assumes inv: "core_inv h" and i: "i < length (client_conns h)" and live: "socket_fd (conn h i) \<noteq> -1"
  shows "core_inv (remove_connection i (drop_tasks i h))"
    and "socket_fd (conn (remove_connection i (drop_tasks i h)) i) = -1"
    and "k \<noteq> i \<Longrightarrow> conn (remove_connection i (drop_tasks i h)) k = conn h k"
    and "length (client_conns (remove_connection i (drop_tasks i h))) = length (client_conns h)"
proof -
  note drop = drop_tasks_effect [OF inv i]
  have i': "i < length (client_conns (drop_tasks i h))" using i drop(2) by simp
  show "core_inv (remove_connection i (drop_tasks i h))"
    by (rule core_inv_remove_connection [OF drop(1) i']) (use live in \<open>simp_all add: drop(10)\<close>)
  show "socket_fd (conn (remove_connection i (drop_tasks i h)) i) = -1"
    using i' by (simp add: remove_connection_def conn_set_conn)
  show "k \<noteq> i \<Longrightarrow> conn (remove_connection i (drop_tasks i h)) k = conn h k"
    using i' drop(10) [of k] by (simp add: remove_connection_def conn_set_conn)
  show "length (client_conns (remove_connection i (drop_tasks i h))) = length (client_conns h)"
    using drop(2) by simp
qed

lemma lose_pool:
  assumes inv: "core_inv h" and i: "i < length (client_conns h)" and p: "evolved q h"
  shows "evolved q (remove_connection i (drop_tasks i h))"
  using pool_drop_tasks(2) [OF inv i] p drop_tasks_effect(2) [OF inv i] i
  by (auto simp: evolved_remove_connection intro: evolved_step)

lemma wpg_lose_connection:
  assumes inv: "core_inv (hnd w)" and i: "i < length (client_conns (hnd w))"
    and Q: "\<And>x w'. hnd w' = remove_connection i (drop_tasks i (hnd w)) \<Longrightarrow> Q x w'"
    and S: "\<And>e w'. orderly e \<Longrightarrow> S e w'"
  shows "wpg d (drop_resolving_tasks E i) (\<lambda>_ w'. wpg d (delete_connection E i) Q S w') S w"
  unfolding wpg_drop_resolving_tasks [OF inv i]
  by (rule wpg_mono [OF wpg_delete_connection]) (use Q S in simp_all)

lemma table_inv_lose:
  assumes inv: "table_inv n q h" and i: "i < n" and live: "socket_fd (conn h i) \<noteq> -1"
  shows "table_inv n q (remove_connection i (drop_tasks i h))"
proof -
  have i': "i < length (client_conns h)" using i table_inv_length [OF inv] by simp
  note lose = drop_and_delete [OF table_inv_core [OF inv] i' live]
  have "quiet (conn (remove_connection i (drop_tasks i h)) k)" if "k < n" for k
    using lose(2) lose(3) [of k] table_inv_quiet [OF inv that] by (cases "k = i") (auto simp: quiet_def)
  moreover have "evolved q (remove_connection i (drop_tasks i h))"
    by (rule lose_pool [OF table_inv_core [OF inv] i' table_inv_pool [OF inv]])
  ultimately show ?thesis using lose table_inv_length [OF inv] by (auto simp: table_inv_iff)
qed

lemma keeps_hangup: "fd \<noteq> -1 \<Longrightarrow> i < n \<Longrightarrow> srv.keeps n q (hangup_connection E fd i)"
proof (rule srv.keepsI)
  fix w :: "server world"
  assume fd: "fd \<noteq> -1" "i < n" and inv: "table_inv n q (hnd w)"
  have i: "i < length (client_conns (hnd w))" using fd table_inv_length [OF inv] by simp
  show "wpg True (hangup_connection E fd i) (\<lambda>_ w'. table_inv n q (hnd w')) (\<lambda>e _. known_stop e) w"
    by (auto simp: hangup_connection_def wp inv
        intro!: wpg_lose_connection table_inv_lose table_inv_core [OF inv] i fd inv
        dest: sym [of fd] split: if_splits) (use fd inv in \<open>auto intro!: table_inv_lose\<close>)
qed

section \<open>Receiving\<close>

text \<open>An update of one connection that leaves its socket, its send state and its tasks alone.\<close>

lemma table_inv_set_conn:
  assumes inv: "table_inv n q h" and i: "i < n"
    and ok: "conn_ok (unat (ret_size h)) (f (conn h i))"
    and same: "task_list (f (conn h i)) = task_list (conn h i)"
      "socket_fd (f (conn h i)) = socket_fd (conn h i)"
      "now_sending_task_i (f (conn h i)) = now_sending_task_i (conn h i)"
  shows "table_inv n q (set_conn i f h)"
proof -
  have i': "i < length (client_conns h)" using i table_inv_length [OF inv] by simp
  have "core_inv (set_conn i f h)"
    by (rule core_inv_set_conn [OF table_inv_core [OF inv] i']) (use ok same in simp_all)
  moreover have "quiet (conn (set_conn i f h) k)" if "k < n" for k
    using table_inv_quiet [OF inv that] same i' by (auto simp: conn_set_conn quiet_def)
  ultimately show ?thesis
    using table_inv_length [OF inv] table_inv_pool [OF inv] i' same by (simp add: table_inv_iff evolved_set_conn)
qed

lemma table_inv_conn_ok: "table_inv n q h \<Longrightarrow> i < n \<Longrightarrow> conn_ok (unat (ret_size h)) (conn h i)"
  using core_inv_conn [of h i] by (auto simp: table_inv_iff)

lemma table_inv_refill:
  assumes inv: "table_inv n q h" and i: "i < n"
    and "length buf = sizeof_header + unat (ret_size h)" "unat m < sizeof_header + unat (ret_size h)"
  shows "table_inv n q (refill i buf m h)"
  unfolding refill_def
  by (rule table_inv_set_conn [OF inv i])
    (use assms table_inv_conn_ok [OF inv i] in \<open>simp_all add: conn_ok_def\<close>)

lemma table_inv_count_request:
  assumes inv: "table_inv n q h" and i: "i < n"
  shows "table_inv n q (set_conn i (\<lambda>c. c\<lparr>requested_tasks := requested_tasks c + 1\<rparr>) h)"
  by (rule table_inv_set_conn [OF inv i])
    (use table_inv_conn_ok [OF inv i] in \<open>simp_all add: conn_ok_def\<close>)

lemma keeps_count_request: "i < n \<Longrightarrow> srv.keeps n q (count_request i)"
  by (rule srv.keepsI) (simp add: count_request_def wp table_inv_count_request)

lemma silent_enable_write: "silent (enable_write E i)"
  by (rule silentI) (auto simp: enable_write_def wp intro: wpg_silent [OF silent_update_connection_management])

lemma conn_complete_task:
  "i < length (client_conns h) \<Longrightarrow> conn (complete_task i j t h) k =
     (if k = i then (conn h i)\<lparr>task_list := (task_list (conn h i))[j := -1]\<rparr> else conn h k)"
  by (simp add: complete_task_def conn_def) (simp add: conn_def [symmetric] conn_set_conn)

lemma length_complete_task [simp]:
  "length (client_conns (complete_task i j t h)) = length (client_conns h)"
  by (simp add: complete_task_def)

lemma table_inv_complete_task:
  assumes inv: "table_inv n q h" and i: "i < n" and t: "unat x < unat (num_tasks h)"
    and j: "j < MAX_TASKS_PER_CLIENT" "task_list (conn h i) ! j = x"
  shows "table_inv n q (complete_task i j (unat x) h)"
proof -
  have i': "i < length (client_conns h)" using i table_inv_length [OF inv] by simp
  have "core_inv (complete_task i j (unat x) h)"
    by (rule core_inv_complete_task [OF table_inv_core [OF inv] i' t j])
  moreover have "quiet (conn (complete_task i j (unat x) h) k)" if "k < n" for k
    using table_inv_quiet [OF inv that] table_inv_quiet [OF inv i] i'
    by (simp add: conn_complete_task quiet_def)
  moreover have "evolved q (complete_task i j (unat x) h)"
    by (rule evolved_step [OF table_inv_pool [OF inv] pool_complete_task(2) [OF table_inv_core [OF inv] i' t j]])
      simp
  ultimately show ?thesis using table_inv_length [OF inv] by (simp add: table_inv_iff)
qed

lemma keeps_push_return_value: "i < n \<Longrightarrow> srv.keeps n q (push_return_value E i header)"
proof (rule srv.keepsI)
  fix w :: "server world"
  assume i: "i < n" and inv: "table_inv n q (hnd w)"
  have i': "i < length (client_conns (hnd w))" using i table_inv_length [OF inv] by simp
  show "wpg True (push_return_value E i header) (\<lambda>_ w'. table_inv n q (hnd w')) (\<lambda>e _. known_stop e) w"
    using core_inv_length_task_list [OF table_inv_core [OF inv] i'] inv i
    by (auto simp: wpg_push_return_value [OF table_inv_core [OF inv] i'] Let_def find_index_Some
        intro!: table_inv_complete_task split: option.splits)
qed

lemma wpg_handle_request:
  assumes inv: "table_inv n q (hnd w)" and i: "i < n" and live: "socket_fd (conn (hnd w) i) \<noteq> -1"
  shows "wpg True (handle_request E i header) (\<lambda>_ w'. table_inv n q (hnd w')) (\<lambda>e _. known_stop e) w"
proof -
  have i': "i < length (client_conns (hnd w))" using i table_inv_length [OF inv] by simp
  have data: "srv.keeps n q (block [count_request i, enable_write E i])"
    "srv.keeps n q (block [push_return_value E i header, count_request i, enable_write E i])"
    using keeps_count_request [OF i, where q = q] keeps_push_return_value [OF i, where E = E and header = header and q = q]
      srv.keeps_silent [OF silent_enable_write [of E i], where n = n and q = q]
    by (auto intro!: srv.keeps_block simp del: block.simps)
  show ?thesis
    unfolding handle_request_def wpg_if
    using data inv i live
    by (auto simp: srv.keepsD wpg_bug_on simp del: block.simps)
      (auto simp: wp intro!: wpg_lose_connection table_inv_core [OF inv] i' table_inv_lose)
qed

lemma keeps_receive:
  assumes sound: "kernel_sound E" and fd: "fd \<noteq> -1" and i: "i < n"
  shows "srv.keeps n q (receive_on_connection E fd i)"
proof (rule srv.keepsI)
  fix w :: "server world"
  assume inv: "table_inv n q (hnd w)"
  have i': "i < length (client_conns (hnd w))" using i table_inv_length [OF inv] by simp
  have after: "wpg True (handle_request E i hdr) (\<lambda>_ w'. table_inv n q (hnd w')) (\<lambda>e _. known_stop e) w'"
    if r: "received E i header (hnd w) hdr (hnd w')" and live: "socket_fd (conn (hnd w) i) = fd"
    for header hdr w'
  proof (rule wpg_handle_request [OF _ i])
    obtain buf m where h': "hnd w' = refill i buf m (hnd w)" and
      b: "length buf = sizeof_header + unat (ret_size (hnd w))" "unat m < sizeof_header + unat (ret_size (hnd w))"
      using r by (auto simp: received_def)
    show "table_inv n q (hnd w')" unfolding h' by (rule table_inv_refill [OF inv i b])
    show "socket_fd (conn (hnd w') i) \<noteq> -1"
      unfolding h' using live fd i' by (simp add: refill_def conn_set_conn)
  qed
  show "wpg True (receive_on_connection E fd i) (\<lambda>_ w'. table_inv n q (hnd w')) (\<lambda>e _. known_stop e) w"
    by (auto simp: receive_on_connection_def uninitialised_header_def wp inv
        intro!: wpg_mono [OF wpg_read_data [OF sound table_inv_core [OF inv] i']] intro: after)
qed

section \<open>Sending\<close>

text \<open>
  The states of the send loop on a connection: nothing is being sent, or the task in one cell of
  the task list is, or the connection was dropped under the loop. Only the first can leave the
  loop without touching memory it should not: the third comes back to the send of an empty cell.
\<close>

definition idle :: "connection \<Rightarrow> bool" where
  "idle c \<longleftrightarrow> socket_fd c \<noteq> -1 \<and> now_sending_task_i c = -1"

definition sending :: "connection \<Rightarrow> bool" where
  "sending c \<longleftrightarrow> socket_fd c \<noteq> -1 \<and> unat (now_sending_task_i c) < MAX_TASKS_PER_CLIENT \<and>
     task_list c ! unat (now_sending_task_i c) \<noteq> -1 \<and> requested_tasks c \<noteq> 0"

definition dropped :: "connection \<Rightarrow> bool" where
  "dropped c \<longleftrightarrow> socket_fd c = -1 \<and> unat (now_sending_task_i c) < MAX_TASKS_PER_CLIENT \<and>
     requested_tasks c \<noteq> 0"

definition send_inv :: "nat \<Rightarrow> server \<Rightarrow> nat \<Rightarrow> server \<Rightarrow> bool" where
  "send_inv n q i h \<longleftrightarrow> core_inv h \<and> length (client_conns h) = n \<and> evolved q h \<and>
     (\<forall>k < n. k \<noteq> i \<longrightarrow> quiet (conn h k)) \<and>
     (idle (conn h i) \<or> sending (conn h i) \<or> dropped (conn h i))"

lemmas send_states = idle_def sending_def dropped_def

lemma send_inv_exit:
  "send_inv n q i h \<Longrightarrow> requested_tasks (conn h i) = 0 \<Longrightarrow> table_inv n q h"
  by (auto simp: send_inv_def send_states table_inv_iff quiet_def)

lemma send_inv_enter:
  "table_inv n q h \<Longrightarrow> i < n \<Longrightarrow> socket_fd (conn h i) \<noteq> -1 \<Longrightarrow> send_inv n q i h"
  by (auto simp: send_inv_def send_states table_inv_iff quiet_def)

text \<open>Updates of the connection's own send state.\<close>

lemma core_inv_send_state:
  assumes inv: "core_inv h" and i: "i < length (client_conns h)"
    and same: "\<And>c. recv_buffer (f c) = recv_buffer c" "\<And>c. bytes_recieved (f c) = bytes_recieved c"
      "\<And>c. task_list (f c) = task_list c" "\<And>c. socket_fd (f c) = socket_fd c"
  shows "core_inv (set_conn i f h)"
  by (rule core_inv_set_conn [OF inv i])
    (use core_inv_conn [OF inv i] same in \<open>simp_all add: conn_ok_def\<close>)

lemma conn_assign_task:
  "i < length (client_conns h) \<Longrightarrow> conn (assign_task i j t h) k =
     (if k = i then (conn h i)\<lparr>task_list := (task_list (conn h i))[j := of_nat t]\<rparr> else conn h k)"
  by (simp add: assign_task_def conn_set_conn)

lemma length_assign_task [simp]:
  "length (client_conns (assign_task i j t h)) = length (client_conns h)"
  by (simp add: assign_task_def)

lemma assign_task_cell:
  assumes inv: "core_inv h" and t: "t < unat (num_tasks h)"
  shows "(of_nat t :: u32) \<noteq> -1" and "unat (of_nat t :: u32) = t"
proof -
  have "t < 2147483648" using t core_inv_small [OF inv] by simp
  then show eq: "unat (of_nat t :: u32) = t" by simp
  show "(of_nat t :: u32) \<noteq> -1"
  proof
    assume "(of_nat t :: u32) = -1"
    with eq have "t = 4294967295" by (simp only: unat_minus_1_32)
    with \<open>t < 2147483648\<close> show False by simp
  qed
qed

definition start_sending :: "nat \<Rightarrow> nat \<Rightarrow> server \<Rightarrow> server" where
  "start_sending i j h =
     set_conn i (\<lambda>c. c\<lparr>now_sending_task_i := ucast (of_nat j :: size_t)\<rparr>)
       (assign_task i j (next_task h) h)"

lemma unat_ucast_small: "j < MAX_TASKS_PER_CLIENT \<Longrightarrow> unat (ucast (of_nat j :: size_t) :: u32) = j"
  by (simp add: MAX_TASKS_PER_CLIENT_def unsigned_ucast_eq take_bit_nat_eq_self)

lemma send_inv_start:
  assumes inv: "send_inv n q i h" and i: "i < n" and idle: "idle (conn h i)"
    and req: "requested_tasks (conn h i) \<noteq> 0" and more: "num_not_resolved h \<noteq> 0"
    and cell: "find_index (\<lambda>t. t = -1) (take MAX_TASKS_PER_CLIENT (task_list (conn h i))) = Some j"
  shows "send_inv n q i (start_sending i j h)" and "sending (conn (start_sending i j h) i)"
proof -
  let ?h = "assign_task i j (next_task h) h"
  have core: "core_inv h" and i': "i < length (client_conns h)" using inv i by (auto simp: send_inv_def)
  have len: "length (task_list (conn h i)) = MAX_TASKS_PER_CLIENT"
    by (rule core_inv_length_task_list [OF core i'])
  have j: "j < MAX_TASKS_PER_CLIENT" "task_list (conn h i) ! j = -1"
    using cell len by (auto simp: find_index_Some)
  have t: "next_task h < unat (num_tasks h)"
    using next_task_cases [OF core] next_task_runs_out [OF core] more by auto
  have "core_inv ?h"
    by (rule core_inv_assign_task [OF core i' _ more j]) (use idle in \<open>simp add: idle_def\<close>)
  then have c: "core_inv (start_sending i j h)"
    unfolding start_sending_def by (rule core_inv_send_state) (use i' in simp_all)
  show s: "sending (conn (start_sending i j h) i)"
    using i' j len idle req assign_task_cell [OF core t] unat_ucast_small [OF j(1)]
    by (simp add: start_sending_def conn_set_conn conn_assign_task sending_def idle_def)
  have "evolved q ?h"
  proof (rule evolved_step)
    show "evolved q h" using inv by (simp add: send_inv_def)
    show "pool_step (pool h) (pool ?h)"
      by (rule pool_assign_task(2) [OF core i' _ more j]) (use idle in \<open>simp add: idle_def\<close>)
  qed simp
  then have "evolved q (start_sending i j h)"
    using i' by (simp add: start_sending_def evolved_set_conn)
  moreover have "\<forall>k < n. k \<noteq> i \<longrightarrow> quiet (conn (start_sending i j h) k)"
    using inv i' by (simp add: send_inv_def start_sending_def conn_set_conn conn_assign_task)
  ultimately show "send_inv n q i (start_sending i j h)"
    using c s inv i' by (simp add: send_inv_def) (simp add: start_sending_def)
qed

definition task_sent :: "nat \<Rightarrow> server \<Rightarrow> server" where
  "task_sent i h = set_conn i (\<lambda>c. c\<lparr>now_sending_task_i := -1,
     requested_tasks := requested_tasks c - 1\<rparr>) h"

lemma send_inv_sent:
  assumes inv: "send_inv n q i h" and i: "i < n" and s: "sending (conn h i)"
  shows "send_inv n q i (task_sent i h)"
proof -
  have core: "core_inv h" and i': "i < length (client_conns h)" using inv i by (auto simp: send_inv_def)
  have "core_inv (task_sent i h)"
    unfolding task_sent_def by (rule core_inv_send_state [OF core i']) simp_all
  then show ?thesis
    using inv s i' by (auto simp: send_inv_def task_sent_def conn_set_conn sending_def idle_def evolved_set_conn)
qed

lemma send_inv_lose:
  assumes inv: "send_inv n q i h" and i: "i < n" and s: "sending (conn h i)"
  shows "send_inv n q i (remove_connection i (drop_tasks i h))"
    and "dropped (conn (remove_connection i (drop_tasks i h)) i)"
proof -
  have core: "core_inv h" and i': "i < length (client_conns h)" using inv i by (auto simp: send_inv_def)
  have live: "socket_fd (conn h i) \<noteq> -1" using s by (simp add: sending_def)
  note lose = drop_and_delete [OF core i' live]
  note drop = drop_tasks_effect [OF core i']
  show d: "dropped (conn (remove_connection i (drop_tasks i h)) i)"
    using s i' drop(2) drop(10) [of i]
    by (simp add: remove_connection_def conn_set_conn dropped_def sending_def)
  show "send_inv n q i (remove_connection i (drop_tasks i h))"
    using lose d inv lose_pool [OF core i', of q] by (auto simp: send_inv_def)
qed

text \<open>What one round of the send loop does, from each of the states.\<close>

lemma wpg_pick_task:
  assumes inv: "core_inv (hnd w)"
  shows "wpg d (pick_task E i) Q S w =
    (let h = hnd w in
     if now_sending_task_i (conn h i) \<noteq> -1 then Q () w
     else if num_not_resolved h = 0 then S (Bug ''Greedy client detected'') w
     else (case find_index (\<lambda>t. t = -1) (take MAX_TASKS_PER_CLIENT (task_list (conn h i))) of
             None \<Rightarrow> S (Bug ''Asking for a task while there is no room for it'')
                       (upd (take_task (next_task h)) w)
           | Some j \<Rightarrow> Q () (upd (start_sending i j) w)))"
  by (auto simp: pick_task_def wp wpg_get_task_to_send [OF inv] Let_def start_sending_def upd_def
      split: option.splits)

lemma wpg_finish_sent:
  assumes "cmd header = CMD_TASK"
    and "\<And>w'. hnd w' = task_sent i (hnd w) \<Longrightarrow> Q () w'" and "\<And>e w'. orderly e \<Longrightarrow> S e w'"
  shows "wpg d (finish_send E i header) Q S w"
proof -
  have "set_conn i (\<lambda>c. c\<lparr>requested_tasks := requested_tasks c - 1\<rparr>)
      (set_conn i (\<lambda>c. c\<lparr>now_sending_task_i := -1\<rparr>) h) = task_sent i h" for h
    by (simp add: task_sent_def set_conn_set_conn)
  then show ?thesis
    using assms
    by (auto simp: finish_send_def wp intro!: wpg_silent [OF silent_update_connection_management])
qed

lemma wpg_send_current:
  assumes inv: "send_inv n q i (hnd w)" and i: "i < n" and s: "sending (conn (hnd w) i)"
  shows "wpg d (send_current E i) (\<lambda>r w'. r = None \<and> send_inv n q i (hnd w')) (\<lambda>e _. orderly e) w"
proof -
  let ?h = "hnd w" let ?c = "conn ?h i"
  have core: "core_inv ?h" and i': "i < length (client_conns ?h)" using inv i by (auto simp: send_inv_def)
  obtain j where j: "unat (now_sending_task_i ?c) = j" by simp
  then have j16: "j < MAX_TASKS_PER_CLIENT" and x: "task_list ?c ! j \<noteq> -1"
    using s by (auto simp: sending_def)
  have "holds (cells ?h) i j (task_list ?c ! j)" using holds_cell [OF core i' j16] x by simp
  then have t: "\<not> unat (num_tasks ?h) \<le> unat (task_list ?c ! j)"
    using held_resolving [OF core] by (meson not_le)
  have after: "wpg d (finish_send E i header) (\<lambda>_ w'. send_inv n q i (hnd w')) (\<lambda>e _. orderly e) (log c r w)"
    if "send_result ?h \<lparr>cmd = CMD_TASK, task_id = y\<rparr> r' = Some header" for header c r y r'
  proof -
    have "cmd header = CMD_TASK \<or> cmd header = ERR_NOT_READY \<or> cmd header = ERR_CONN_BROKEN"
      using that by (auto simp: send_result_def split: if_splits)
    then show ?thesis
    proof (elim disjE)
      assume "cmd header = CMD_TASK"
      then show ?thesis by (rule wpg_finish_sent) (use send_inv_sent [OF inv i s] in simp_all)
    next
      assume "cmd header = ERR_NOT_READY"
      then show ?thesis using inv by (simp add: finish_send_def wp cmd_defs)
    next
      assume "cmd header = ERR_CONN_BROKEN"
      then show ?thesis
        using inv core i' send_inv_lose [OF inv i s]
        by (auto simp: finish_send_def wp cmd_defs intro!: wpg_lose_connection)
    qed
  qed
  show ?thesis
    using j16 t unfolding send_current_def
    by (simp add: wpg_bind wpg_andthen wpg_get wpg_undef_if wpg_return j wpg_put_data [OF core] Let_def)
      (auto split: option.splits intro: after)
qed

lemma wpg_send_dropped:
  assumes inv: "send_inv n q i (hnd w)" and i: "i < n" and s: "dropped (conn (hnd w) i)"
  shows "wpg d (send_current E i) Q
    (\<lambda>e _. e = (if 251 \<le> unat (task_size (hnd w)) then Bug ''Send buffer too small''
                else Undef ''user_tasks out of bounds'')) w"
proof -
  let ?h = "hnd w" let ?c = "conn ?h i"
  have core: "core_inv ?h" and i': "i < length (client_conns ?h)" using inv i by (auto simp: send_inv_def)
  obtain j where j: "unat (now_sending_task_i ?c) = j" by simp
  then have j16: "j < MAX_TASKS_PER_CLIENT" using s by (auto simp: dropped_def)
  then have x: "task_list ?c ! j = -1"
    using core_inv_conn [OF core i'] s by (simp add: conn_ok_def dropped_def)
  have "unat (num_tasks ?h) \<le> unat (-1 :: u32)"
    using core_inv_small [OF core] by (simp add: unat_minus_1_32)
  then show ?thesis
    using j16 unfolding send_current_def
    by (simp add: wpg_bind wpg_andthen wpg_get wpg_undef_if wpg_return j wpg_put_data [OF core] x Let_def)
qed

lemma wpg_send_round:
  assumes inv: "send_inv n q i (hnd w)" and i: "i < n"
  shows "wpg d (send_round E i)
    (\<lambda>r w'. case r of None \<Rightarrow> send_inv n q i (hnd w') | Some _ \<Rightarrow> table_inv n q (hnd w'))
    (\<lambda>e _. known_stop e) w"
proof (cases "requested_tasks (conn (hnd w) i) = 0")
  case True
  then show ?thesis using send_inv_exit [OF inv] by (simp add: send_round_def wp)
next
  case False
  have core: "core_inv (hnd w)" using inv by (simp add: send_inv_def)
  have cur: "wpg d (send_current E i)
      (\<lambda>r w'. case r of None \<Rightarrow> send_inv n q i (hnd w') | Some _ \<Rightarrow> table_inv n q (hnd w'))
      (\<lambda>e _. known_stop e) w'" if "send_inv n q i (hnd w')" "sending (conn (hnd w') i)" for w'
    by (rule wpg_mono [OF wpg_send_current [OF that(1) i that(2)]]) simp_all
  have drop: "wpg d (send_current E i) Q (\<lambda>e _. known_stop e) w" if "dropped (conn (hnd w) i)" for Q
    by (rule wpg_mono [OF wpg_send_dropped [OF inv i that]]) auto
  have min1: "unat (-1 :: u32) \<ge> MAX_TASKS_PER_CLIENT"
    by (simp add: unat_minus_1_32 MAX_TASKS_PER_CLIENT_def)
  consider "idle (conn (hnd w) i)" | "sending (conn (hnd w) i)" | "dropped (conn (hnd w) i)"
    using inv by (auto simp: send_inv_def)
  then show ?thesis
  proof cases
    case 1
    then have now: "now_sending_task_i (conn (hnd w) i) = -1" by (simp add: idle_def)
    show ?thesis
      using False now send_inv_start [OF inv i 1 False] cur
      by (auto simp: send_round_def wpg_bind wpg_get wpg_andthen wpg_pick_task [OF core] Let_def
          split: option.splits)
  next
    case 2
    then have "now_sending_task_i (conn (hnd w) i) \<noteq> -1" using min1 by (auto simp: sending_def)
    then show ?thesis using False cur [OF inv 2]
      by (simp add: send_round_def wpg_bind wpg_get wpg_andthen wpg_pick_task [OF core] Let_def)
  next
    case 3
    then have "now_sending_task_i (conn (hnd w) i) \<noteq> -1" using min1 by (auto simp: dropped_def)
    then show ?thesis using False drop [OF 3]
      by (simp add: send_round_def wpg_bind wpg_get wpg_andthen wpg_pick_task [OF core] Let_def)
  qed
qed

lemma keeps_send: "fd \<noteq> -1 \<Longrightarrow> i < n \<Longrightarrow> srv.keeps n q (send_on_connection E fd i)"
proof (rule srv.keepsI)
  fix w :: "server world"
  assume fd: "fd \<noteq> -1" and i: "i < n" and inv: "table_inv n q (hnd w)"
  have "wpg True (loop (send_round E i)) (\<lambda>_ w'. table_inv n q (hnd w')) (\<lambda>e _. known_stop e) w"
    if "socket_fd (conn (hnd w) i) = fd"
    by (rule wpg_loop_partial [where I = "\<lambda>w. send_inv n q i (hnd w)"])
      (use send_inv_enter [OF inv i] that fd wpg_send_round [OF _ i] in auto)
  then show "wpg True (send_on_connection E fd i) (\<lambda>_ w'. table_inv n q (hnd w')) (\<lambda>e _. known_stop e) w"
    using inv by (simp add: send_on_connection_def wp)
qed

section \<open>The event loop\<close>

lemma table_inv_indices: "table_inv n q h \<Longrightarrow> set (conn_indices h) = {..<n}"
  using core_inv_table [of h] by (auto simp: table_inv_iff conn_indices_def)

lemma keeps_process_event:
  assumes sound: "kernel_sound E" and fd: "fst ev \<noteq> -1"
  shows "srv.keeps n q (process_event E ev)"
proof (rule srv.keepsI)
  fix w :: "server world"
  assume inv: "table_inv n q (hnd w)"
  have "i < n" if "i \<in> set (conn_indices (hnd w))" for i
    using that table_inv_indices [OF inv] by auto
  then show "wpg True (process_event E ev) (\<lambda>_ w'. table_inv n q (hnd w')) (\<lambda>e _. known_stop e) w"
    unfolding process_event_def Let_def wpg_bind wpg_get
    using sound fd inv
    by (intro srv.keepsD)
      (auto intro!: srv.keeps_block srv.keeps_for_each keeps_answer keeps_hangup keeps_accept_all
        keeps_receive keeps_send simp del: block.simps)
qed

lemma wpg_eventloop_round:
  assumes sound: "kernel_sound E" and inv: "table_inv n q (hnd w)"
  shows "wpg True (eventloop_round E)
    (\<lambda>r w'. table_inv n q (hnd w') \<and> (r \<noteq> None \<longrightarrow> num_completed (hnd w') = num_tasks (hnd w')))
    (\<lambda>e _. known_stop e) w"
proof -
  have "srv.keeps n q (for_each (take (nat (r_ret r)) (r_events r)) (process_event E))"
    if "answers E w' (EpollWait ep m) r" for r w' ep m
    by (rule srv.keeps_for_each, rule keeps_process_event [OF sound])
      (use kernel_sound_epoll [OF sound that] in \<open>auto dest: in_set_takeD\<close>)
  then show ?thesis
    by (auto simp: eventloop_round_def wp inv intro!: srv.wpg_keeps [where n = n and q = q])
qed

lemma all_completed:
  assumes inv: "core_inv h" and fin: "num_completed h = num_tasks h" and t: "t < unat (num_tasks h)"
  shows "task_status_of h t = COMPLETED"
proof -
  have len: "length (statuses h) = unat (num_tasks h)" using core_inv_tasks [OF inv] by simp
  have "countp (\<lambda>s. s = COMPLETED) (statuses h) = unat (num_completed h)"
    using core_inv_counters [OF inv] by (simp add: counters_ok_def)
  then have "countp (\<lambda>s. s = COMPLETED) (statuses h) = length (statuses h)"
    unfolding fin len .
  then have "\<forall>k < length (statuses h). statuses h ! k = COMPLETED" unfolding countp_all_iff .
  then have "statuses h ! t = COMPLETED" using t len by simp
  then show ?thesis using t core_inv_tasks [OF inv] by (simp add: task_status_of_statuses)
qed

lemma wpg_eventloop:
  assumes sound: "kernel_sound E" and inv: "table_inv n q (hnd w)"
  shows "wpg True (server_eventloop E)
    (\<lambda>_ w'. table_inv n q (hnd w') \<and> (\<forall>t < unat (num_tasks (hnd w')). task_status_of (hnd w') t = COMPLETED))
    (\<lambda>e _. known_stop e) w"
  unfolding server_eventloop_def
proof (rule wpg_loop_partial [where I = "\<lambda>w. table_inv n q (hnd w)", OF inv])
  fix w :: "server world"
  assume inv: "table_inv n q (hnd w)"
  show "wpg True (eventloop_round E) (\<lambda>c w'. case c of None \<Rightarrow> table_inv n q (hnd w')
      | Some x \<Rightarrow> table_inv n q (hnd w') \<and>
          (\<forall>t < unat (num_tasks (hnd w')). task_status_of (hnd w') t = COMPLETED)) (\<lambda>e _. known_stop e) w"
    by (rule wpg_mono [OF wpg_eventloop_round [OF sound inv]])
      (auto split: option.splits intro: all_completed table_inv_core)
qed

end
