(* ===== verification/ServerInit.thy ===== *)
theory ServerInit
  imports ServerSafety
begin

text \<open>
  Initialisation establishes the invariant from any contents of the uninitialised handle and of
  the allocated blocks, and \<open>compute_task\<close> as a whole.
\<close>

section \<open>What the caller must pass\<close>

text \<open>
  Buffers of the announced sizes, a number of tasks that fits an \<open>int\<close>, a result shorter than
  2 GB and no object larger than \<open>PTRDIFF_MAX\<close>.
\<close>

definition args_ok :: "size_t \<Rightarrow> u8 list \<Rightarrow> size_t \<Rightarrow> u8 list \<Rightarrow> size_t \<Rightarrow> bool" where
  "args_ok n tasks tsize rets rsize \<longleftrightarrow>
     unat n \<le> 2 ^ 31 \<and> n \<noteq> 0 \<and> tsize \<noteq> 0 \<and> rsize \<noteq> 0 \<and>
     sizeof_header + unat rsize < 2 ^ 31 \<and>
     length tasks = unat n * unat tsize \<and> length tasks < 2 ^ 63 \<and>
     length rets = unat n * unat rsize"

definition args_set :: "size_t \<Rightarrow> u8 list \<Rightarrow> size_t \<Rightarrow> u8 list \<Rightarrow> size_t \<Rightarrow> server \<Rightarrow> bool" where
  "args_set n tasks tsize rets rsize h \<longleftrightarrow> num_tasks h = n \<and> user_tasks h = tasks \<and>
     task_size h = tsize \<and> user_rets h = rets \<and> ret_size h = rsize"

definition args_same :: "server \<Rightarrow> server \<Rightarrow> bool" where
  "args_same h h' \<longleftrightarrow> num_tasks h' = num_tasks h \<and> user_tasks h' = user_tasks h \<and>
     task_size h' = task_size h \<and> user_rets h' = user_rets h \<and> ret_size h' = ret_size h"

section \<open>The connection table\<close>

definition fresh :: "nat \<Rightarrow> connection \<Rightarrow> bool" where
  "fresh rsize c \<longleftrightarrow> length (recv_buffer c) = sizeof_header + rsize \<and> bytes_recieved c = 0 \<and>
     task_list c = replicate MAX_TASKS_PER_CLIENT (-1)"

definition table_sized :: "server \<Rightarrow> bool" where
  "table_sized h \<longleftrightarrow> max_clients h = of_nat MAX_SIMULTANEOUS_CONNECTIONS \<and>
     length (client_conns h) = MAX_SIMULTANEOUS_CONNECTIONS \<and>
     sizeof_header + unat (ret_size h) < 2 ^ 31"

lemma unat_recv_buffer_size:
  "sizeof_header + unat (ret_size h) < 2 ^ 31 \<Longrightarrow>
   unat (recv_buffer_size h) = sizeof_header + unat (ret_size h)"
  by (simp add: recv_buffer_size_def sizeof_header_def unat_word_ariths)

lemma wpg_init_connection:
  assumes sized: "table_sized (hnd w)" and k: "k < MAX_SIMULTANEOUS_CONNECTIONS"
    and before: "\<forall>j < k. fresh (unat (ret_size (hnd w))) (conn (hnd w) j)"
  shows "wpg d (init_connection E k)
    (\<lambda>_ w'. table_sized (hnd w') \<and> args_same (hnd w) (hnd w') \<and>
       (\<forall>j < Suc k. fresh (unat (ret_size (hnd w))) (conn (hnd w') j))) (\<lambda>e _. orderly e) w"
  using assms
  by (auto simp: init_connection_def wp table_sized_def args_same_def conn_set_conn fresh_def
      unat_recv_buffer_size less_Suc_eq)

lemma wpg_init_connections:
  assumes sized: "table_sized (hnd w)"
  shows "wpg d (for_each [0..<MAX_SIMULTANEOUS_CONNECTIONS] (init_connection E))
    (\<lambda>_ w'. table_sized (hnd w') \<and> args_same (hnd w) (hnd w') \<and>
       (\<forall>j < MAX_SIMULTANEOUS_CONNECTIONS. fresh (unat (ret_size (hnd w))) (conn (hnd w') j)))
    (\<lambda>e _. orderly e) w"
proof (rule wpg_for_each_upt [where I = "\<lambda>k w'. table_sized (hnd w') \<and> args_same (hnd w) (hnd w') \<and>
       (\<forall>j < k. fresh (unat (ret_size (hnd w))) (conn (hnd w') j))"])
  fix k and w' :: "server world"
  assume k: "k < MAX_SIMULTANEOUS_CONNECTIONS" and
    I: "table_sized (hnd w') \<and> args_same (hnd w) (hnd w') \<and>
       (\<forall>j < k. fresh (unat (ret_size (hnd w))) (conn (hnd w') j))"
  have same: "ret_size (hnd w') = ret_size (hnd w)" using I by (simp add: args_same_def)
  show "wpg d (init_connection E k) (\<lambda>_ w'. table_sized (hnd w') \<and> args_same (hnd w) (hnd w') \<and>
       (\<forall>j < Suc k. fresh (unat (ret_size (hnd w))) (conn (hnd w') j))) (\<lambda>e _. orderly e) w'"
    by (rule wpg_mono [OF wpg_init_connection [OF _ k]])
      (use I same in \<open>auto simp: args_same_def\<close>)
qed (use sized in \<open>auto simp: args_same_def\<close>)

lemma wpg_free_sockets:
  assumes sized: "table_sized (hnd w)"
    and all: "\<forall>j < MAX_SIMULTANEOUS_CONNECTIONS. fresh rs (conn (hnd w) j)"
  shows "wpg d (for_each [0..<MAX_SIMULTANEOUS_CONNECTIONS]
      (\<lambda>i. modify (set_conn i (\<lambda>c. c\<lparr>socket_fd := -1\<rparr>))))
    (\<lambda>_ w'. table_sized (hnd w') \<and> args_same (hnd w) (hnd w') \<and>
       (\<forall>j < MAX_SIMULTANEOUS_CONNECTIONS. fresh rs (conn (hnd w') j) \<and> socket_fd (conn (hnd w') j) = -1))
    (\<lambda>e _. orderly e) w"
  by (rule wpg_for_each_upt [where I = "\<lambda>k w'. table_sized (hnd w') \<and> args_same (hnd w) (hnd w') \<and>
       (\<forall>j < MAX_SIMULTANEOUS_CONNECTIONS. fresh rs (conn (hnd w') j)) \<and>
       (\<forall>j < k. socket_fd (conn (hnd w') j) = -1)"])
    (use sized all in \<open>auto simp: wp args_same_def table_sized_def conn_set_conn fresh_def less_Suc_eq\<close>)

definition empty_table :: "server \<Rightarrow> bool" where
  "empty_table h \<longleftrightarrow> table_sized h \<and> num_clients h = 0 \<and>
     (\<forall>j < MAX_SIMULTANEOUS_CONNECTIONS.
        fresh (unat (ret_size h)) (conn h j) \<and> socket_fd (conn h j) = -1)"

lemma unat_max_connections [simp]:
  "unat (of_nat MAX_SIMULTANEOUS_CONNECTIONS :: size_t) = MAX_SIMULTANEOUS_CONNECTIONS"
  by (simp add: MAX_SIMULTANEOUS_CONNECTIONS_def)

lemma table_sized_indices: "table_sized h \<Longrightarrow> conn_indices h = [0..<MAX_SIMULTANEOUS_CONNECTIONS]"
  by (simp add: table_sized_def conn_indices_def)

text \<open>An update of the fields that the table does not mention.\<close>

lemma empty_table_frame:
  "empty_table h \<Longrightarrow> client_conns h' = client_conns h \<Longrightarrow> max_clients h' = max_clients h \<Longrightarrow>
   num_clients h' = num_clients h \<Longrightarrow> ret_size h' = ret_size h \<Longrightarrow> empty_table h'"
  by (simp add: empty_table_def table_sized_def conn_def)

lemma wpg_init_connection_management:
  assumes sized: "sizeof_header + unat (ret_size (hnd w)) < 2 ^ 31"
  shows "wpg d (init_connection_management_routine E raw)
    (\<lambda>_ w'. empty_table (hnd w') \<and> args_same (hnd w) (hnd w')) (\<lambda>e _. orderly e) w"
proof -
  let ?ok = "\<lambda>w'. empty_table (hnd w') \<and> args_same (hnd w) (hnd w')"
  let ?alive = "\<lambda>w'. table_sized (hnd w') \<and> args_same (hnd w) (hnd w') \<and>
    (\<forall>j < MAX_SIMULTANEOUS_CONNECTIONS. fresh (unat (ret_size (hnd w))) (conn (hnd w') j))"
  have first: "wpg d (for_each [0..<MAX_SIMULTANEOUS_CONNECTIONS] (init_connection E)) Q (\<lambda>e _. orderly e) w'"
    if "table_sized (hnd w')" "args_same (hnd w) (hnd w')" "\<And>w'. ?alive w' \<Longrightarrow> Q () w'"
    for Q and w' :: "server world"
    by (rule wpg_mono [OF wpg_init_connections [OF that(1)]])
      (use that in \<open>auto simp: args_same_def\<close>)
  have second: "wpg d (for_each [0..<MAX_SIMULTANEOUS_CONNECTIONS]
      (\<lambda>i. modify (set_conn i (\<lambda>c. c\<lparr>socket_fd := -1\<rparr>)))) Q (\<lambda>e _. orderly e) w'"
    if a: "?alive w'" and Q: "\<And>w'. ?alive w' \<Longrightarrow>
      (\<forall>j < MAX_SIMULTANEOUS_CONNECTIONS. socket_fd (conn (hnd w') j) = -1) \<Longrightarrow> Q () w'"
    for Q and w' :: "server world"
    by (rule wpg_mono [OF wpg_free_sockets [where rs = "unat (ret_size (hnd w))"]])
      (use a Q in \<open>auto simp: args_same_def\<close>)
  have at: "table_sized (hnd w') \<Longrightarrow> conn_indices (hnd w') = [0..<MAX_SIMULTANEOUS_CONNECTIONS]"
    for w' :: "server world"
    by (rule table_sized_indices)
  have idx: "conn_indices (h\<lparr>max_clients := of_nat MAX_SIMULTANEOUS_CONNECTIONS\<rparr>) =
        [0..<MAX_SIMULTANEOUS_CONNECTIONS]"
      "conn_indices (h\<lparr>max_clients := of_nat MAX_SIMULTANEOUS_CONNECTIONS, client_conns := cs\<rparr>) =
        [0..<MAX_SIMULTANEOUS_CONNECTIONS]" for h cs
    by (simp_all add: conn_indices_def)
  have start: "table_sized (hnd w\<lparr>max_clients := of_nat MAX_SIMULTANEOUS_CONNECTIONS,
      client_conns := map raw [0..<MAX_SIMULTANEOUS_CONNECTIONS]\<rparr>)"
    using sized by (simp add: table_sized_def)
  have last: "empty_table (h\<lparr>num_clients := 0, accept_socket_fd := fd\<rparr>)"
    if "table_sized h" "args_same (hnd w) h"
      "\<forall>j < MAX_SIMULTANEOUS_CONNECTIONS. fresh (unat (ret_size (hnd w))) (conn h j)"
      "\<forall>j < MAX_SIMULTANEOUS_CONNECTIONS. socket_fd (conn h j) = -1" for h fd
    using that by (simp add: empty_table_def table_sized_def args_same_def conn_def)
  show ?thesis
    unfolding init_connection_management_routine_def
    by (auto simp: wp args_same_def at idx start intro!: first second last)
qed

section \<open>The task table\<close>

definition new_tasks :: "server \<Rightarrow> bool" where
  "new_tasks h \<longleftrightarrow> length (task_manager h) = unat (num_tasks h) \<and>
     (\<forall>t < unat (num_tasks h). status (task_manager h ! t) = NOT_RESOLVED \<and>
        ret (task_manager h ! t) = t * unat (ret_size h)) \<and>
     num_not_resolved h = num_tasks h \<and> num_completed h = 0 \<and> min_not_resolved_task h = 0"

lemma unat_offset:
  assumes "unat n \<le> 2 ^ 31" and "sizeof_header + unat rsize < 2 ^ 31" and "t < unat (n :: size_t)"
  shows "unat (of_nat t * rsize :: size_t) = t * unat rsize"
proof -
  have "t * unat rsize \<le> 2 ^ 31 * 2 ^ 31" by (rule mult_le_mono) (use assms in simp_all)
  moreover have "unat (of_nat t :: size_t) = t" using assms by (intro unat_of_nat_64) simp
  ultimately show ?thesis by (simp add: unat_word_ariths)
qed

lemma wpg_init_task_management:
  assumes args: "args_ok (num_tasks (hnd w)) tasks tsize rets (ret_size (hnd w))"
    and empty: "empty_table (hnd w)"
  shows "wpg d (init_task_management_routine E)
    (\<lambda>_ w'. new_tasks (hnd w') \<and> empty_table (hnd w') \<and> args_same (hnd w) (hnd w'))
    (\<lambda>e _. orderly e) w"
  using unat_offset [of "num_tasks (hnd w)" "ret_size (hnd w)"] args empty
  by (auto simp: init_task_management_routine_def wp new_tasks_def args_same_def args_ok_def
      intro: empty_table_frame)

section \<open>The invariant holds at the start\<close>

lemma server_inv_initial:
  assumes args: "args_ok (num_tasks h) (user_tasks h) (task_size h) (user_rets h) (ret_size h)"
    and empty: "empty_table h" and new: "new_tasks h"
  shows "server_inv h" and "length (client_conns h) = MAX_SIMULTANEOUS_CONNECTIONS"
    and "pool h = replicate (unat (num_tasks h)) Todo"
proof -
  have max: "0 < MAX_SIMULTANEOUS_CONNECTIONS" by (simp add: MAX_SIMULTANEOUS_CONNECTIONS_def)
  show len: "length (client_conns h) = MAX_SIMULTANEOUS_CONNECTIONS"
    using empty by (simp add: empty_table_def table_sized_def)
  have st: "statuses h = replicate (unat (num_tasks h)) NOT_RESOLVED"
    using new by (intro nth_equalityI) (simp_all add: new_tasks_def statuses_def)
  have c: "fresh (unat (ret_size h)) (conn h j)" "socket_fd (conn h j) = -1"
    if "j < length (client_conns h)" for j
    using empty that len by (simp_all add: empty_table_def)
  have no: "\<not> holds (cells h) i j t" for i j t
    using c(1) [of i] by (auto simp: holds_def fresh_def)
  have "cells_ok (statuses h) (cells h)"
    unfolding cells_ok_def using no by (simp add: st)
  moreover have "counters_ok h"
    using new by (simp add: counters_ok_def st new_tasks_def)
  moreover have "conn_table.used (client_conns h) = 0"
    unfolding conn_table.used_def countp_zero_iff using c by (simp add: conn_def)
  moreover have "config_ok h"
    using args new empty max
    by (auto simp: config_ok_def args_ok_def new_tasks_def empty_table_def table_sized_def)
  ultimately have "core_inv h"
    using c empty by (auto simp: core_inv_def conn_ok_def fresh_def empty_table_def sizeof_header_def)
  then show "server_inv h" using c by (simp add: server_inv_def quiet_def)
  show "pool h = replicate (unat (num_tasks h)) Todo"
    by (rule nth_equalityI) (simp_all add: phase_def st)
qed

definition ready :: "server \<Rightarrow> bool" where
  "ready h \<longleftrightarrow> table_inv MAX_SIMULTANEOUS_CONNECTIONS h h \<and>
     pool h = replicate (unat (num_tasks h)) Todo"

lemma ready_initial:
  "args_ok (num_tasks h) (user_tasks h) (task_size h) (user_rets h) (ret_size h) \<Longrightarrow>
   empty_table h \<Longrightarrow> new_tasks h \<Longrightarrow> ready h"
  using server_inv_initial [of h] by (simp add: ready_def table_inv_def)

lemma silent_start_discovery: "silent (start_discovery_routine E)"
  by (rule silentI) (simp add: wp start_discovery_routine_def)

lemma wpg_init_cluster_server:
  assumes args: "args_ok n tasks tsize rets rsize" and set: "args_set n tasks tsize rets rsize (hnd w)"
  shows "wpg d (init_cluster_server E raw)
    (\<lambda>_ w'. ready (hnd w') \<and> args_set n tasks tsize rets rsize (hnd w')) (\<lambda>e _. orderly e) w"
proof -
  have conns: "wpg d (init_connection_management_routine E raw) Q (\<lambda>e _. orderly e) w'"
    if "args_set n tasks tsize rets rsize (hnd w')"
      "\<And>w'. empty_table (hnd w') \<Longrightarrow> args_set n tasks tsize rets rsize (hnd w') \<Longrightarrow> Q () w'"
    for Q and w' :: "server world"
    by (rule wpg_mono [OF wpg_init_connection_management])
      (use that args in \<open>auto simp: args_same_def args_set_def args_ok_def\<close>)
  have tasks: "wpg d (init_task_management_routine E) Q (\<lambda>e _. orderly e) w'"
    if "args_set n tasks tsize rets rsize (hnd w')" "empty_table (hnd w')"
      "\<And>w'. empty_table (hnd w') \<Longrightarrow> new_tasks (hnd w') \<Longrightarrow>
         args_set n tasks tsize rets rsize (hnd w') \<Longrightarrow> Q () w'"
    for Q and w' :: "server world"
    by (rule wpg_mono [OF wpg_init_task_management])
      (use that args in \<open>auto simp: args_same_def args_set_def\<close>)
  have set': "args_set n tasks tsize rets rsize (hnd w\<lparr>broadcast_addr := a, discovery_socket_fd := fd\<rparr>)" for a fd
    using set by (simp add: args_set_def)
  have fin: "ready (h\<lparr>epoll_fd := fd\<rparr>) \<and> args_set n tasks tsize rets rsize (h\<lparr>epoll_fd := fd\<rparr>)"
    if "empty_table h" "new_tasks h" "args_set n tasks tsize rets rsize h" for h fd
    using that args
    by (intro conjI ready_initial) (auto simp: args_set_def new_tasks_def intro: empty_table_frame)
  show ?thesis
    unfolding init_cluster_server_def init_discovery_routine_def
    by (auto simp: wp set' fin intro!: conns tasks wpg_silent [OF silent_start_connection_management]
        wpg_silent [OF silent_start_discovery])
qed

section \<open>The whole run\<close>

lemma wpg_eventloop_ready:
  assumes sound: "kernel_sound E" and ready: "ready (hnd w)"
  shows "wpg True (server_eventloop E)
    (\<lambda>_ w'. table_inv MAX_SIMULTANEOUS_CONNECTIONS (hnd w) (hnd w') \<and>
       (\<forall>t < unat (num_tasks (hnd w')). task_status_of (hnd w') t = COMPLETED))
    (\<lambda>e _. known_stop e) w"
  by (rule wpg_eventloop [OF sound]) (use ready in \<open>simp add: ready_def\<close>)

text \<open>The results the caller finds in its buffer, one after the other.\<close>

lemma results_concat:
  assumes inv: "core_inv h"
  shows "user_rets h = concat (map (result_bytes h) [0..<unat (num_tasks h)])"
proof -
  let ?n = "unat (ret_size h)"
  have "concat (map (\<lambda>t. slice (t * ?n) ?n xs) [0..<m]) = take (m * ?n) xs" for m and xs :: "u8 list"
  proof (induction m)
    case (Suc m)
    have "take (m * ?n + ?n) xs = take (m * ?n) xs @ take ?n (drop (m * ?n) xs)" by (rule take_add)
    with Suc show ?case by (simp add: slice_def add.commute)
  qed simp
  from this [of "user_rets h" "unat (num_tasks h)"] show ?thesis
    using core_inv_config [OF inv] by (simp add: result_bytes_def [abs_def] config_ok_def)
qed

lemma pool_all_done:
  assumes inv: "core_inv h" and all: "\<forall>t < unat (num_tasks h). task_status_of h t = COMPLETED"
  shows "pool h = map (\<lambda>t. Done (result_bytes h t)) [0..<unat (num_tasks h)]"
  using all core_inv_tasks [OF inv] by (simp add: pool_def phase_def task_status_of_statuses)

text \<open>The de-initialisation leaves the tasks and the caller's memory alone.\<close>

lemma silent_free_connection_management: "silent (free_connection_management_routine E)"
proof (rule silentI)
  fix w :: "server world"
  have "wpg False (for_each is (free_connection E)) Q (\<lambda>e _. orderly e) w'"
    if "hnd w' = hnd w" "\<And>w'. hnd w' = hnd w \<Longrightarrow> Q () w'" for "is" Q and w' :: "server world"
    by (rule wpg_for_each [where I = "\<lambda>w'. hnd w' = hnd w"])
      (use that in \<open>auto simp: free_connection_def wp\<close>)
  then show "wpg False (free_connection_management_routine E) (\<lambda>_ w'. hnd w' = hnd w)
      (\<lambda>e _. orderly e) w"
    by (auto simp: free_connection_management_routine_def wp)
qed

lemma wpg_stop_cluster_server:
  "wpg d (stop_cluster_server E) (\<lambda>_ w'. hnd w' = (hnd w)\<lparr>epoll_fd := -1\<rparr>) (\<lambda>e _. orderly e) w"
  unfolding stop_cluster_server_def free_discovery_routine_def free_task_management_routine_def
  by (auto simp: wp intro!: wpg_silent [OF silent_free_connection_management])

definition results_of :: "size_t \<Rightarrow> size_t \<Rightarrow> server \<Rightarrow> u8 list list \<Rightarrow> bool" where
  "results_of n rsize h res \<longleftrightarrow> user_rets h = concat res \<and> length res = unat n \<and>
     (\<forall>bs \<in> set res. length bs = unat rsize) \<and>
     pool_steps (replicate (unat n) Todo) (map Done res)"

lemma results_of_final:
  assumes ready: "ready h0" and inv: "table_inv MAX_SIMULTANEOUS_CONNECTIONS h0 h"
    and all: "\<forall>t < unat (num_tasks h). task_status_of h t = COMPLETED"
  shows "results_of (num_tasks h0) (ret_size h0) h (map (result_bytes h) [0..<unat (num_tasks h)])"
proof -
  have core: "core_inv h" by (rule table_inv_core [OF inv])
  have same: "num_tasks h = num_tasks h0" "ret_size h = ret_size h0"
    using table_inv_pool [OF inv] by (simp_all add: evolved_def caller_def)
  have "pool_steps (pool h0) (pool h)" using table_inv_pool [OF inv] by (simp add: evolved_def)
  then have "pool_steps (replicate (unat (num_tasks h0)) Todo)
      (map Done (map (result_bytes h) [0..<unat (num_tasks h)]))"
    using ready pool_all_done [OF core all] by (simp add: ready_def comp_def)
  then show ?thesis
    using results_concat [OF core] same ret_range [OF core] by (auto simp: results_of_def result_bytes_def)
qed

lemma wpg_compute_task:
  assumes sound: "kernel_sound E" and args: "args_ok n tasks tsize rets rsize"
  shows "wpg True (compute_task E raw n (Some tasks) tsize (Some rets) rsize)
    (\<lambda>r w'. r = 0 \<and> (\<exists>res. results_of n rsize (hnd w') res) \<and> user_tasks (hnd w') = tasks)
    (\<lambda>e _. known_stop e) w"
proof -
  let ?Q = "\<lambda>r w'. r = (0::int) \<and> (\<exists>res. results_of n rsize (hnd w') res) \<and> user_tasks (hnd w') = tasks"
  have stop: "wpg True (stop_cluster_server E) (\<lambda>_ w'. ?Q 0 w') (\<lambda>e _. known_stop e) w'"
    if "results_of n rsize (hnd w') res" "user_tasks (hnd w') = tasks" for w' :: "server world" and res
    by (rule wpg_mono [OF wpg_stop_cluster_server]) (use that in \<open>auto simp: results_of_def\<close>)
  have run: "wpg True (server_eventloop E) (\<lambda>_ w'. wpg True (stop_cluster_server E)
      (\<lambda>_ w'. ?Q 0 w') (\<lambda>e _. known_stop e) w') (\<lambda>e _. known_stop e) w'"
    if ready: "ready (hnd w')" and set: "args_set n tasks tsize rets rsize (hnd w')" for w'
  proof (rule wpg_mono [OF wpg_eventloop_ready [OF sound ready]])
    fix x and w'' :: "server world"
    assume a: "table_inv MAX_SIMULTANEOUS_CONNECTIONS (hnd w') (hnd w'') \<and>
       (\<forall>t < unat (num_tasks (hnd w'')). task_status_of (hnd w'') t = COMPLETED)"
    have "results_of n rsize (hnd w'') (map (result_bytes (hnd w'')) [0..<unat (num_tasks (hnd w''))])"
      using results_of_final [OF ready] a set by (auto simp: args_set_def)
    moreover have "user_tasks (hnd w'') = tasks"
      using a set table_inv_pool [of _ "hnd w'" "hnd w''"] by (auto simp: evolved_def caller_def args_set_def)
    ultimately show "wpg True (stop_cluster_server E) (\<lambda>_ w'. ?Q 0 w') (\<lambda>e _. known_stop e) w''"
      by (rule stop)
  qed
  have init: "wpg True (init_cluster_server E raw) (\<lambda>_ w'. wpg True (server_eventloop E)
      (\<lambda>_ w'. wpg True (stop_cluster_server E) (\<lambda>_ w'. ?Q 0 w') (\<lambda>e _. known_stop e) w')
      (\<lambda>e _. known_stop e) w') (\<lambda>e _. known_stop e) w'"
    if "args_set n tasks tsize rets rsize (hnd w')" for w' :: "server world"
    by (rule wpg_mono [OF wpg_init_cluster_server [OF args that]]) (use run in auto)
  have set: "args_set n tasks tsize rets rsize (hnd w\<lparr>num_tasks := n, user_tasks := tasks,
      task_size := tsize, user_rets := rets, ret_size := rsize\<rparr>)"
    by (simp add: args_set_def)
  have "n \<noteq> 0" "tsize \<noteq> 0" "rsize \<noteq> 0" using args by (simp_all add: args_ok_def)
  then show ?thesis
    using init set by (simp add: compute_task_def wp)
qed

end
