(* ===== verification/Kernels.thy ===== *)
theory Kernels
  imports Machine
begin

text \<open>
  Concrete kernels, on which the properties of both programs are evaluated: each gives every
  call a fixed answer, whatever happened before.
\<close>

section \<open>Simple kernels\<close>

definition answer :: "int \<Rightarrow> sysret" where
  "answer n = \<lparr>r_ret = n, r_errno = EAGAIN, r_data = [], r_events = [],
     r_addr = \<lparr>sin_family = AF_INET, s_addr = 0, sin_port = 0\<rparr>, r_addrs = [], r_value = 0\<rparr>"

lemma answer_simps [simp]:
  "r_ret (answer n) = n" "r_errno (answer n) = EAGAIN" "r_data (answer n) = []"
  "r_events (answer n) = []"
  by (simp_all add: answer_def)

definition scripted :: "(syscall \<Rightarrow> sysret) \<Rightarrow> env" where
  "scripted f = \<lparr>sys = (\<lambda>_. f), junk = (\<lambda>_ _. []), host = LittleEndian\<rparr>"

lemma scripted_simps [simp]: "sys (scripted f) tr = f" "host (scripted f) = LittleEndian"
  by (simp_all add: scripted_def)

text \<open>Every call succeeds, a send takes all it is given; \<open>recv\<close> has nothing.\<close>

fun obliging :: "syscall \<Rightarrow> sysret" where
  "obliging (Send fd bs fl) = answer (int (length bs))"
| "obliging (Recv fd n fl) = answer (-1)"
| "obliging (Malloc b n) = answer 1"
| "obliging (Calloc b n k) = answer 1"
| "obliging _ = answer 0"

text \<open>As before, but the peer of every socket is gone, or never takes anything.\<close>

fun hung_up :: "syscall \<Rightarrow> sysret" where
  "hung_up (Send fd bs fl) = (answer (-1))\<lparr>r_errno := EPIPE\<rparr>"
| "hung_up c = obliging c"

fun stuffed :: "syscall \<Rightarrow> sysret" where
  "stuffed (Send fd bs fl) = answer (-1)"
| "stuffed c = obliging c"

lemma kernel_sound_scripted:
  "(\<And>fd n fl. -1 \<le> r_ret (f (Recv fd n fl)) \<and> r_ret (f (Recv fd n fl)) \<le> int (unat n)) \<Longrightarrow>
   (\<And>ep m ev. ev \<in> set (r_events (f (EpollWait ep m))) \<Longrightarrow> fst ev \<noteq> -1) \<Longrightarrow>
   kernel_sound (scripted f)"
  by (simp add: kernel_sound_def)

lemma uint_bounds: "-1 \<le> uint (n :: size_t)" "\<not> unat n < 6 \<Longrightarrow> 6 \<le> uint n"
proof -
  show "-1 \<le> uint n" by (rule order_trans [of _ 0]) simp_all
  assume "\<not> unat n < 6"
  then have "int 6 \<le> int (unat n)" by (simp only: of_nat_le_iff not_less)
  then show "6 \<le> uint n" by (simp only: uint_nat of_nat_numeral)
qed

lemma kernel_sound_obliging: "kernel_sound (scripted obliging)"
  by (rule kernel_sound_scripted) (auto simp: uint_bounds)

definition boot :: "'h \<Rightarrow> 'h world" where
  "boot h = \<lparr>hnd = h, trace = []\<rparr>"

lemma boot_simps [simp]: "hnd (boot h) = h" "trace (boot h) = []"
  by (simp_all add: boot_def)

section \<open>A kernel that takes every message\<close>

definition takes_all :: "env \<Rightarrow> bool" where
  "takes_all E \<longleftrightarrow>
     (\<forall>tr fd bs fl. r_ret (sys E tr (Send fd bs fl)) = int (length bs)) \<and>
     (\<forall>tr ep op fd. r_ret (sys E tr (EpollCtl ep op fd)) \<noteq> -1)"

text \<open>The messages sent on a socket in a history.\<close>

definition sent_on :: "int \<Rightarrow> trace \<Rightarrow> u8 list list" where
  "sent_on fd tr = concat (map (\<lambda>(c, r). case c of
      Send fd' bs fl \<Rightarrow> if fd' = fd then [bs] else [] | _ \<Rightarrow> []) tr)"

lemma sent_on_append [simp]: "sent_on fd (tr @ tr') = sent_on fd tr @ sent_on fd tr'"
  by (simp add: sent_on_def)

lemma sent_on_single:
  "sent_on fd [(Send fd bs fl, r)] = [bs]"
  "sent_on fd [(EpollCtl e op f, r)] = []"
  by (simp_all add: sent_on_def)

section \<open>A kernel that delivers a message in pieces\<close>

text \<open>An answer that delivers the bytes \<open>bs\<close>.\<close>

definition delivers :: "sysret \<Rightarrow> u8 list \<Rightarrow> bool" where
  "delivers r bs \<longleftrightarrow> r_ret r = int (length bs) \<and> r_data r = bs"

text \<open>A kernel that, from the history \<open>tr\<close> on, hands the pieces to one \<open>recv\<close> after the other.\<close>

fun hands_out :: "env \<Rightarrow> int \<Rightarrow> trace \<Rightarrow> int \<Rightarrow> u8 list list \<Rightarrow> bool" where
  "hands_out E fl tr fd [] = True"
| "hands_out E fl tr fd (bs # bss) =
     (\<forall>n. delivers (sys E tr (Recv fd n fl)) bs \<and>
        hands_out E fl (tr @ [(Recv fd n fl, sys E tr (Recv fd n fl))]) fd bss)"

text \<open>A kernel that hands out the bytes \<open>bs\<close>.\<close>

definition handing :: "u8 list \<Rightarrow> env" where
  "handing bs = scripted (\<lambda>c. case c of Recv fd n fl \<Rightarrow> (answer (int (length bs)))\<lparr>r_data := bs\<rparr> | _ \<Rightarrow> obliging c)"

text \<open>A run of a program that ends well, with its value and the handle afterwards.\<close>

definition ends_in :: "('h, 'a) prog \<Rightarrow> 'h \<Rightarrow> 'a \<Rightarrow> 'h \<Rightarrow> bool" where
  "ends_in m h x h' \<longleftrightarrow> (\<exists>w'. m (boot h) = Some (Inr x, w') \<and> hnd w' = h')"

lemma ends_in_eval: "map_option (\<lambda>(r, w). (r, hnd w)) (m (boot h)) = Some (Inr x, h') \<Longrightarrow> ends_in m h x h'"
  by (auto simp: ends_in_def)

end
