(* ===== verification/Scenarios.thy ===== *)
theory Scenarios
  imports ServerInit Kernels
begin

text \<open>
  Concrete kernels and server states, on which the properties of the server are evaluated: a
  kernel that gives each call a fixed answer, a kernel that plays one client through a whole
  computation, and a server with one connection cell and one task.
\<close>

section \<open>A kernel with one client\<close>

text \<open>
  One client connects, asks for a task, gets it, and answers with the byte 42; \<open>waits\<close> counts
  the rounds of the event loop so far.
\<close>

definition waits :: "trace \<Rightarrow> nat" where
  "waits tr = length (filter (\<lambda>(c, r). case c of EpollWait e m \<Rightarrow> True | _ \<Rightarrow> False) tr)"

definition accepts :: "trace \<Rightarrow> nat" where
  "accepts tr = length (filter (\<lambda>(c, r). case c of Accept4 e m \<Rightarrow> True | _ \<Rightarrow> False) tr)"

definition client_message :: "nat \<Rightarrow> u8 list" where
  "client_message k = (if k = 2 then [CMD_REQUEST_FOR_DATA, 0, 0, 0, 0, 0]
     else if k = 4 then [CMD_RESULT, 0, 0, 0, 0, 42] else [])"

fun one_client :: "trace \<Rightarrow> syscall \<Rightarrow> sysret" where
  "one_client tr (Socket d t p) = answer (if t = SOCK_DGRAM OR SOCK_NONBLOCK then 3 else 5)"
| "one_client tr (EpollCreate1 f) = answer 6"
| "one_client tr (Accept4 fd f) = answer (if accepts tr = 0 then 7 else -1)"
| "one_client tr (EpollWait e m) = (answer 1)\<lparr>r_events :=
     (if waits tr = 0 then [(5, EPOLLIN)] else if waits tr = 2 then [(7, EPOLLOUT)]
      else [(7, EPOLLIN)])\<rparr>"
| "one_client tr (Recv fd n f) =
     (if client_message (waits tr) = [] \<or> unat n < 6 then answer (-1)
      else (answer 6)\<lparr>r_data := client_message (waits tr)\<rparr>)"
| "one_client tr c = obliging c"

definition one_client_env :: env where
  "one_client_env = \<lparr>sys = one_client, junk = (\<lambda>_ _. []), host = LittleEndian\<rparr>"

lemma kernel_sound_one_client: "kernel_sound one_client_env"
  by (auto simp: kernel_sound_def one_client_env_def uint_bounds)

section \<open>Server states\<close>

definition solo_conn :: "int \<Rightarrow> size_t \<Rightarrow> connection" where
  "solo_conn fd req = \<lparr>socket_fd = fd, recv_buffer = [0, 0, 0, 0, 0, 0], bytes_recieved = 0,
     now_sending_task_i = -1, requested_tasks = req,
     task_list = replicate MAX_TASKS_PER_CLIENT (-1)\<rparr>"

text \<open>One connection cell, one task of one byte with a result of one byte.\<close>

definition solo :: "int \<Rightarrow> size_t \<Rightarrow> task_status \<Rightarrow> server" where
  "solo fd req st = \<lparr>epoll_fd = 6, discovery_socket_fd = 3,
     broadcast_addr = \<lparr>sin_family = AF_INET, s_addr = 0, sin_port = 0\<rparr>, accept_socket_fd = 5,
     client_conns = [solo_conn fd req], num_clients = (if fd = -1 then 0 else 1), max_clients = 1,
     task_manager = [\<lparr>task = 0, ret = 0, status = st\<rparr>],
     num_not_resolved = (if st = NOT_RESOLVED then 1 else 0),
     num_completed = (if st = COMPLETED then 1 else 0),
     min_not_resolved_task = (if st = NOT_RESOLVED then 0 else 1),
     user_tasks = [9], user_rets = [0], num_tasks = 1, task_size = 1, ret_size = 1\<rparr>"

lemma solo_simps [simp]:
  "client_conns (solo fd req st) = [solo_conn fd req]"
  "conn (solo fd req st) 0 = solo_conn fd req"
  "socket_fd (solo_conn fd req) = fd" "requested_tasks (solo_conn fd req) = req"
  "now_sending_task_i (solo_conn fd req) = -1"
  "task_list (solo_conn fd req) = replicate MAX_TASKS_PER_CLIENT (-1)"
  "num_tasks (solo fd req st) = 1" "task_size (solo fd req st) = 1"
  "statuses (solo fd req st) = [st]"
  by (simp_all add: solo_def conn_def solo_conn_def statuses_def)

lemma solo_inv:
  assumes "st \<noteq> RESOLVING"
  shows "server_inv (solo fd req st)"
proof -
  have "\<not> holds (cells (solo fd req st)) i j t" for i j t
    by (cases i) (auto simp: holds_def cells_def)
  then have "cells_ok (statuses (solo fd req st)) (cells (solo fd req st))"
    using assms by (auto simp: cells_ok_def)
  moreover have "counters_ok (solo fd req st)"
    by (simp add: counters_ok_def) (simp add: solo_def)
  moreover have "config_ok (solo fd req st)"
    by (simp add: config_ok_def solo_def sizeof_header_def)
  moreover have "conn_ok (unat (ret_size (solo fd req st))) (solo_conn fd req)"
    by (simp add: conn_ok_def solo_def solo_conn_def sizeof_header_def)
  moreover have "unat (num_clients (solo fd req st)) = conn_table.used [solo_conn fd req]"
    by (simp add: conn_table.used_def) (simp add: solo_def)
  ultimately show ?thesis
    by (simp add: server_inv_def core_inv_def quiet_def)
qed

lemma solo_table_inv: "st \<noteq> RESOLVING \<Longrightarrow> table_inv 1 (solo fd req st) (solo fd req st)"
  using solo_inv by (simp add: table_inv_def)

text \<open>The same server after it gave its task to the connection.\<close>

definition busy :: server where
  "busy = assign_task 0 0 0 (solo 7 1 NOT_RESOLVED)"

lemma busy_inv: "core_inv busy" "pool busy = [Held 0]"
proof -
  let ?h = "solo 7 1 NOT_RESOLVED"
  have inv: "core_inv ?h" using solo_inv [of NOT_RESOLVED 7 1] by (simp add: server_inv_def)
  have next0: "next_task ?h = 0" by code_simp
  have p: "pool ?h = [Todo]" by code_simp
  have more: "num_not_resolved ?h \<noteq> 0" by (simp add: solo_def)
  have live: "socket_fd (conn ?h 0) \<noteq> -1" by simp
  have j: "0 < MAX_TASKS_PER_CLIENT" "task_list (conn ?h 0) ! 0 = -1"
    by (simp_all add: MAX_TASKS_PER_CLIENT_def)
  show "core_inv busy"
    unfolding busy_def by (rule core_inv_assign_task [OF inv _ live more j, unfolded next0]) simp
  show "pool busy = [Held 0]"
    unfolding busy_def using pool_assign_task(1) [OF inv _ live more j, unfolded next0] p by simp
qed

lemma busy_simps [simp]: "length (client_conns busy) = 1" "num_tasks busy = 1"
  by (simp_all add: busy_def)

end
