(* ===== verification/ServerStream.thy ===== *)
theory ServerStream
  imports ServerPool ServerConn Kernels
begin

text \<open>
  The receive buffer as a stream: what a connection has buffered is a prefix of the message the
  client is sending, however TCP cuts it. Each read appends what arrived; the read that completes
  the message parses it.
\<close>

definition buffered :: "server \<Rightarrow> nat \<Rightarrow> u8 list" where
  "buffered h i = take (unat (bytes_recieved (conn h i))) (recv_buffer (conn h i))"

definition message_size :: "server \<Rightarrow> nat" where
  "message_size h = sizeof_header + unat (ret_size h)"

text \<open>The call by which the connection reads.\<close>

definition recv_call :: "server \<Rightarrow> nat \<Rightarrow> syscall" where
  "recv_call h i = Recv (socket_fd (conn h i))
     (recv_buffer_size h - bytes_recieved (conn h i)) MSG_WAITALL"

lemma conn_refill:
  "i < length (client_conns h) \<Longrightarrow>
   conn (refill i buf n h) i = (conn h i)\<lparr>recv_buffer := buf, bytes_recieved := n\<rparr>"
  by (simp add: refill_def conn_set_conn)

lemma core_inv_refill:
  assumes inv: "core_inv h" and i: "i < length (client_conns h)"
    and b: "length buf = message_size h" "unat n < message_size h"
  shows "core_inv (refill i buf n h)"
proof -
  have "conn_ok (unat (ret_size h)) (conn (refill i buf n h) k)" if "k < length (client_conns h)" for k
    using core_inv_conn [OF inv that] core_inv_conn [OF inv i] b i
    by (auto simp: refill_def conn_set_conn conn_ok_def message_size_def)
  then show ?thesis
    using inv i by (simp add: core_inv_def refill_def cells_set_conn_same used_set_conn_same)
qed

lemma refill_caller [simp]:
  "ret_size (refill i buf n h) = ret_size h"
  "message_size (refill i buf n h) = message_size h"
  "length (client_conns (refill i buf n h)) = length (client_conns h)"
  by (simp_all add: refill_def message_size_def)

lemma pool_refill [simp]: "i < length (client_conns h) \<Longrightarrow> pool (refill i buf n h) = pool h"
  by (simp add: refill_def pool_set_conn)

lemma read_data_appends:
  assumes inv: "core_inv (hnd w)" and i: "i < length (client_conns (hnd w))"
    and r: "delivers (sys E (trace w) (recv_call (hnd w) i)) bs" and bs: "bs \<noteq> []"
    and fits: "length (buffered (hnd w) i @ bs) \<le> message_size (hnd w)"
  shows "\<exists>hdr w'. read_data_on_connection E i header w = Some (Inr hdr, w') \<and>
    trace w' = trace w @ [(recv_call (hnd w) i, sys E (trace w) (recv_call (hnd w) i))] \<and>
    core_inv (hnd w') \<and> length (client_conns (hnd w')) = length (client_conns (hnd w)) \<and>
    socket_fd (conn (hnd w') i) = socket_fd (conn (hnd w) i) \<and>
    ret_size (hnd w') = ret_size (hnd w) \<and> pool (hnd w') = pool (hnd w) \<and>
    (\<exists>buf m. hnd w' = refill i buf m (hnd w) \<and> length buf = message_size (hnd w) \<and> unat m < message_size (hnd w)) \<and>
    (if length (buffered (hnd w) i @ bs) < message_size (hnd w)
     then hdr = header\<lparr>cmd := ERR_NOT_READY\<rparr> \<and> buffered (hnd w') i = buffered (hnd w) i @ bs
     else hdr = parse_header (host E) (buffered (hnd w) i @ bs) \<and> buffered (hnd w') i = [] \<and>
       payload (hnd w') i = drop sizeof_header (buffered (hnd w) i @ bs))"
proof -
  let ?h = "hnd w" let ?c = "conn ?h i" let ?call = "recv_call ?h i"
  let ?r = "sys E (trace w) ?call" let ?pos = "unat (bytes_recieved ?c)"
  let ?w = "log ?call ?r w"
  note b = core_inv_buffer [OF inv i]
  have blen: "length (buffered ?h i) = ?pos" using b by (simp add: buffered_def)
  have ret: "r_ret ?r = int (length bs)" "r_data ?r = bs" using r by (simp_all add: delivers_def)
  then have pos: "0 < r_ret ?r" using bs by simp
  have le: "?pos + length bs \<le> message_size ?h" using fits blen by simp
  define buf where "buf = blit (recv_buffer ?c) ?pos bs"
  have buf: "length buf = message_size ?h" "take (?pos + length bs) buf = buffered ?h i @ bs"
    using le b by (simp_all add: buf_def message_size_def take_blit buffered_def)
  have lim: "message_size ?h < 2 ^ 31"
    using core_inv_config [OF inv] by (simp add: config_ok_def message_size_def)
  have "nat (r_ret ?r) \<le> unat (recv_buffer_size ?h - bytes_recieved ?c)"
    using le b ret by (simp add: message_size_def)
  note keep = wpg_keep_data [of ?w i ?r, unfolded log_simps, OF inv i pos this, of False E header,
      unfolded Let_def ret nat_int fit_id [OF refl] buf_def [symmetric]]
  have read: "wpg False (read_data_on_connection E i header) Q S w = wpg False (keep_data E i header ?r) Q S ?w"
    for Q S
    using pos by (simp add: read_data_on_connection_def wp answers_def recv_call_def)
  show ?thesis
  proof (cases "?pos + length bs = message_size ?h")
    case True
    then have all: "buf = buffered ?h i @ bs" using buf by simp
    have "read_data_on_connection E i header w =
        Some (Inr (parse_header (host E) buf), upd (refill i buf 0) ?w)"
      by (rule wpg_exact) (use True in \<open>simp add: read keep message_size_def\<close>)
    moreover have room: "unat (0 :: size_t) < message_size ?h" by (simp add: message_size_def sizeof_header_def)
    moreover have "core_inv (refill i buf 0 ?h)" by (rule core_inv_refill [OF inv i buf(1) room])
    moreover have "slice sizeof_header (unat (ret_size ?h)) buf = drop sizeof_header buf"
      using buf(1) by (simp add: slice_def message_size_def)
    moreover have "\<exists>b m. refill i buf 0 ?h = refill i b m ?h \<and> length b = message_size ?h \<and> unat m < message_size ?h"
      using buf(1) room by blast
    ultimately show ?thesis
      using True all blen i by (auto simp: conn_refill buffered_def payload_def)
  next
    case False
    let ?m = "bytes_recieved ?c + of_nat (length bs)"
    have u: "unat ?m = ?pos + length bs"
      using le lim unat_plus_word_of_int [of "int (length bs)" "bytes_recieved ?c"] by simp
    have "read_data_on_connection E i header w =
        Some (Inr (header\<lparr>cmd := ERR_NOT_READY\<rparr>), upd (refill i buf ?m) ?w)"
      by (rule wpg_exact) (use False in \<open>simp add: read keep message_size_def\<close>)
    moreover have room: "unat ?m < message_size ?h" using u le False by linarith
    moreover have "core_inv (refill i buf ?m ?h)" by (rule core_inv_refill [OF inv i buf(1) room])
    moreover have "buffered (refill i buf ?m ?h) i = buffered ?h i @ bs"
      using i u buf(2) by (simp add: buffered_def [of "refill _ _ _ _"] conn_refill)
    ultimately show ?thesis using False le blen i buf(1) by (auto simp: conn_refill)
  qed
qed

section \<open>A message in pieces\<close>

text \<open>Reading a number of times; the headers that come out.\<close>

fun reads :: "env \<Rightarrow> nat \<Rightarrow> request_header \<Rightarrow> nat \<Rightarrow> (server, request_header list) prog" where
  "reads E i header 0 = return []"
| "reads E i header (Suc k) =
     bind (read_data_on_connection E i header) (\<lambda>hdr.
     bind (reads E i header k) (\<lambda>hdrs. return (hdr # hdrs)))"

lemma reads_pieces:
  assumes "core_inv (hnd w)" and "i < length (client_conns (hnd w))"
    and "hands_out E MSG_WAITALL (trace w) (socket_fd (conn (hnd w) i)) bss"
    and "[] \<notin> set bss" and "bss \<noteq> []"
    and "length (buffered (hnd w) i @ concat bss) = message_size (hnd w)"
  shows "\<exists>w'. reads E i header (length bss) w = Some (Inr
      (replicate (length bss - 1) (header\<lparr>cmd := ERR_NOT_READY\<rparr>) @
       [parse_header (host E) (buffered (hnd w) i @ concat bss)]), w') \<and>
    core_inv (hnd w') \<and> buffered (hnd w') i = [] \<and> pool (hnd w') = pool (hnd w) \<and>
    payload (hnd w') i = drop sizeof_header (buffered (hnd w) i @ concat bss)"
  using assms
proof (induction bss arbitrary: w)
  case Nil
  then show ?case by simp
next
  case (Cons bs bss)
  let ?h = "hnd w"
  have r: "delivers (sys E (trace w) (recv_call ?h i)) bs"
    and next_out: "hands_out E MSG_WAITALL (trace w @ [(recv_call ?h i, sys E (trace w) (recv_call ?h i))])
      (socket_fd (conn ?h i)) bss"
    using Cons.prems(3) by (simp_all add: recv_call_def)
  have bs: "bs \<noteq> []" and fits: "length (buffered ?h i @ bs) \<le> message_size ?h"
    using Cons.prems(4,6) by auto
  obtain hdr w1 where w1: "read_data_on_connection E i header w = Some (Inr hdr, w1)"
    "trace w1 = trace w @ [(recv_call ?h i, sys E (trace w) (recv_call ?h i))]"
    "core_inv (hnd w1)" "length (client_conns (hnd w1)) = length (client_conns ?h)"
    "socket_fd (conn (hnd w1) i) = socket_fd (conn ?h i)" "ret_size (hnd w1) = ret_size ?h"
    "pool (hnd w1) = pool ?h"
    and res: "if length (buffered ?h i @ bs) < message_size ?h
     then hdr = header\<lparr>cmd := ERR_NOT_READY\<rparr> \<and> buffered (hnd w1) i = buffered ?h i @ bs
     else hdr = parse_header (host E) (buffered ?h i @ bs) \<and> buffered (hnd w1) i = [] \<and>
       payload (hnd w1) i = drop sizeof_header (buffered ?h i @ bs)"
    using read_data_appends [OF Cons.prems(1,2) r bs fits, of header] by blast
  show ?case
  proof (cases bss)
    case Nil
    then show ?thesis
      using w1 res Cons.prems(6) by (simp add: bind_def return_def)
  next
    case (Cons b' bss')
    then have "0 < length (concat bss)" using Cons.prems(4) by (cases b') auto
    moreover have "length (buffered ?h i) + (length bs + length (concat bss)) = message_size ?h"
      using Cons.prems(6) by simp
    ultimately have lt: "length (buffered ?h i @ bs) < message_size ?h" unfolding length_append by linarith
    then have hdr: "hdr = header\<lparr>cmd := ERR_NOT_READY\<rparr>" "buffered (hnd w1) i = buffered ?h i @ bs"
      using res by simp_all
    have "\<exists>w'. reads E i header (length bss) w1 = Some (Inr
        (replicate (length bss - 1) (header\<lparr>cmd := ERR_NOT_READY\<rparr>) @
         [parse_header (host E) (buffered (hnd w1) i @ concat bss)]), w') \<and>
      core_inv (hnd w') \<and> buffered (hnd w') i = [] \<and> pool (hnd w') = pool (hnd w1) \<and>
      payload (hnd w') i = drop sizeof_header (buffered (hnd w1) i @ concat bss)"
      by (rule Cons.IH) (use Cons.prems w1 next_out hdr Cons in \<open>simp_all add: message_size_def\<close>)
    then show ?thesis
      using w1 hdr Cons by (auto simp: bind_def return_def)
  qed
qed

end
