(* ===== verification/ServerSend.thy ===== *)
theory ServerSend
  imports ServerSafety Kernels
begin

text \<open>
  The send loop under a kernel that takes what it is given, under one that never does, and
  under one that reports a broken connection.
\<close>

section \<open>A kernel that takes every message\<close>

text \<open>The message that carries the task \<open>t\<close>.\<close>

definition task_message :: "server \<Rightarrow> nat \<Rightarrow> u8 list" where
  "task_message h t = CMD_TASK # be_bytes (of_nat t) @ task_bytes h t"

lemma finish_sent_obliged:
  assumes k: "takes_all E" and c: "cmd header = CMD_TASK"
  shows "\<exists>w'. finish_send E i header w = Some (Inr (), w') \<and> hnd w' = task_sent i (hnd w) \<and>
    (\<forall>fd. sent_on fd (trace w') = sent_on fd (trace w))"
proof -
  have eq: "set_conn i (\<lambda>c. c\<lparr>requested_tasks := requested_tasks c - 1\<rparr>)
      (set_conn i (\<lambda>c. c\<lparr>now_sending_task_i := -1\<rparr>) h) = task_sent i h" for h
    by (simp add: task_sent_def set_conn_set_conn)
  have "wpg False (finish_send E i header) (\<lambda>_ w'. hnd w' = task_sent i (hnd w) \<and>
      (\<forall>fd. sent_on fd (trace w') = sent_on fd (trace w))) (\<lambda>_ _. False) w"
    using k c eq
    by (simp add: finish_send_def wp update_connection_management_def takes_all_def answers_def
        sent_on_single)
  then show ?thesis by (auto dest: wpg_outcome)
qed

text \<open>A free cell of the connection's task list, and how many there are.\<close>

definition room :: "server \<Rightarrow> nat \<Rightarrow> nat" where
  "room h i = countp (\<lambda>t. t = -1) (task_list (conn h i))"

lemma room_cell:
  assumes "core_inv h" and "i < length (client_conns h)" and "0 < room h i"
  shows "\<exists>j. find_index (\<lambda>t. t = -1) (take MAX_TASKS_PER_CLIENT (task_list (conn h i))) = Some j"
proof (cases "find_index (\<lambda>t. t = -1) (take MAX_TASKS_PER_CLIENT (task_list (conn h i)))")
  case None
  then have "countp (\<lambda>t. t = -1) (task_list (conn h i)) = 0"
    using core_inv_length_task_list [OF assms(1,2)] by (simp add: find_index_None countp_zero_iff)
  with assms(3) show ?thesis by (simp add: room_def)
qed simp

text \<open>The handle while the task is sent, and after it.\<close>

lemma send_handles:
  assumes inv: "table_inv n q h" and i: "i < n" and live: "socket_fd (conn h i) \<noteq> -1"
    and req: "requested_tasks (conn h i) \<noteq> 0" and more: "num_not_resolved h \<noteq> 0"
    and cell: "find_index (\<lambda>t. t = -1) (take MAX_TASKS_PER_CLIENT (task_list (conn h i))) = Some j"
  shows "core_inv (start_sending i j h)" and "table_inv n q (task_sent i (start_sending i j h))"
    and "conn (start_sending i j h) i = (conn h i)\<lparr>task_list := (task_list (conn h i))[j := of_nat (next_task h)],
      now_sending_task_i := ucast (of_nat j :: size_t)\<rparr>"
    and "conn (task_sent i (start_sending i j h)) i = (conn h i)\<lparr>task_list := (task_list (conn h i))[j := of_nat (next_task h)],
      now_sending_task_i := -1, requested_tasks := requested_tasks (conn h i) - 1\<rparr>"
    and "pool (task_sent i (start_sending i j h)) = (pool h)[next_task h := Held i]"
    and "0 < room h i \<Longrightarrow> Suc (room (task_sent i (start_sending i j h)) i) = room h i"
proof -
  let ?c = "conn h i" let ?t = "next_task h" let ?tl = "task_list ?c" let ?h1 = "start_sending i j h" let ?h2 = "task_sent i ?h1"
  have core: "core_inv h" and i': "i < length (client_conns h)" using inv i by (auto simp: table_inv_iff)
  have idle: "idle ?c" using table_inv_quiet [OF inv i] live by (simp add: idle_def quiet_def)
  have len: "length ?tl = MAX_TASKS_PER_CLIENT" by (rule core_inv_length_task_list [OF core i'])
  then have j: "j < MAX_TASKS_PER_CLIENT" "?tl ! j = -1" using cell by (auto simp: find_index_Some)
  have "?t < unat (num_tasks h)" using next_task_cases [OF core] next_task_runs_out [OF core] more by auto
  note cell_t = assign_task_cell [OF core this]
  have s0: "send_inv n q i h" by (rule send_inv_enter [OF inv i live])
  note s1 = send_inv_start [OF s0 i idle req more cell]
  have s2: "send_inv n q i ?h2" by (rule send_inv_sent [OF s1(1) i s1(2)])
  show "core_inv ?h1" using s1(1) by (simp add: send_inv_def)
  show c1: "conn ?h1 i = ?c\<lparr>task_list := ?tl[j := of_nat ?t], now_sending_task_i := ucast (of_nat j :: size_t)\<rparr>"
    using i' by (simp add: start_sending_def conn_set_conn conn_assign_task)
  have len1: "length (client_conns ?h1) = length (client_conns h)" by (simp add: start_sending_def)
  show c2: "conn ?h2 i = ?c\<lparr>task_list := ?tl[j := of_nat ?t], now_sending_task_i := -1,
      requested_tasks := requested_tasks ?c - 1\<rparr>"
    using i' len1 by (simp add: task_sent_def conn_set_conn c1)
  show "table_inv n q ?h2" using s2 by (auto simp: send_inv_def table_inv_iff quiet_def c2)
  show "pool ?h2 = (pool h)[?t := Held i]"
    using pool_assign_task(1) [OF core i' live more j] i' len1
    by (simp add: task_sent_def start_sending_def pool_set_conn)
  have "countp (\<lambda>t. t = -1) (?tl[j := of_nat ?t]) = countp (\<lambda>t. t = -1) ?tl - 1"
    by (rule countp_update_off) (use len j cell_t in simp_all)
  then show "0 < room h i \<Longrightarrow> Suc (room ?h2 i) = room h i" by (simp add: room_def c2)
qed

lemma send_current_obliged:
  assumes k: "takes_all E" and inv: "table_inv n q (hnd w)" and i: "i < n"
    and live: "socket_fd (conn (hnd w) i) = fd" "fd \<noteq> -1"
    and req: "requested_tasks (conn (hnd w) i) \<noteq> 0" and more: "num_not_resolved (hnd w) \<noteq> 0"
    and cell: "find_index (\<lambda>t. t = -1) (take MAX_TASKS_PER_CLIENT (task_list (conn (hnd w) i))) = Some j"
    and size: "unat (task_size (hnd w)) < 251"
  shows "wpg False (send_current E i) (\<lambda>r w'. r = None \<and> hnd w' = task_sent i (start_sending i j (hnd w)) \<and>
      sent_on fd (trace w') = sent_on fd (trace w) @ [task_message (hnd w) (next_task (hnd w))])
    (\<lambda>_ _. False) (upd (start_sending i j) w)"
    (is "wpg False _ ?Q _ _")
proof -
  let ?h = "hnd w" let ?c = "conn ?h i" let ?t = "next_task ?h" let ?tl = "task_list ?c" let ?h1 = "start_sending i j ?h"
  note st = send_handles [OF inv i live(2) [folded live(1)] req more cell]
  have core: "core_inv ?h" and i': "i < length (client_conns ?h)" using inv i by (auto simp: table_inv_iff)
  have len: "length ?tl = MAX_TASKS_PER_CLIENT" by (rule core_inv_length_task_list [OF core i'])
  then have j: "j < MAX_TASKS_PER_CLIENT" using cell by (auto simp: find_index_Some)
  have t: "?t < unat (num_tasks ?h)" using next_task_cases [OF core] next_task_runs_out [OF core] more by auto
  have bytes: "task_bytes ?h1 ?t = task_bytes ?h ?t" "task_size ?h1 = task_size ?h" "num_tasks ?h1 = num_tasks ?h"
    by (simp_all add: task_bytes_def start_sending_def assign_task_def take_task_def)
  have now: "unat (now_sending_task_i (conn ?h1 i)) = j" using unat_ucast_small [OF j] by (simp add: st(3))
  let ?msg = "task_message ?h ?t" and ?hdr = "\<lparr>cmd = CMD_TASK, task_id = htobe32 (host E) (of_nat ?t)\<rparr>"
  have msg: "header_bytes (host E) ?hdr @ task_bytes ?h ?t = ?msg" by (simp add: header_bytes_be task_message_def)
  have "length ?msg = sizeof_header + unat (task_size ?h)"
    using length_task_bytes [OF core t] by (simp add: task_message_def sizeof_header_def)
  then have ok: "send_result ?h1 ?hdr r = Some ?hdr" if "r_ret r = int (length ?msg)" for r
    using that by (simp add: send_result_def bytes)
  have fin: "wpg False (finish_send E i ?hdr) (\<lambda>_. ?Q None) (\<lambda>_ _. False)
      (log (Send fd ?msg MSG_NOSIGNAL) r (upd (start_sending i j) w))" for r
    using finish_sent_obliged [OF k, of ?hdr i "log (Send fd ?msg MSG_NOSIGNAL) r (upd (start_sending i j) w)"]
    by (auto simp: wpg_def sent_on_single)
  have at1: "socket_fd (conn ?h1 i) = fd" "task_list (conn ?h1 i) ! j = of_nat ?t"
    "\<not> unat (num_tasks ?h1) \<le> ?t" "\<not> 251 \<le> unat (task_size ?h1)"
    using live j len t size by (simp_all add: st(3) bytes)
  moreover have "answers E w' (Send fd ?msg MSG_NOSIGNAL) r \<Longrightarrow> r_ret r = int (length ?msg)" for w' :: "server world" and r
    using k by (simp add: answers_def takes_all_def)
  ultimately show ?thesis
    using j fin ok unfolding send_current_def
    by (simp add: wpg_bind wpg_andthen wpg_get wpg_undef_if wpg_return now wpg_put_data st(1) Let_def
        assign_task_cell(2) [OF core t] bytes msg)
qed

lemma send_round_obliged:
  assumes k: "takes_all E" and inv: "table_inv n q (hnd w)" and i: "i < n"
    and live: "socket_fd (conn (hnd w) i) = fd" "fd \<noteq> -1"
    and req: "requested_tasks (conn (hnd w) i) \<noteq> 0" and more: "num_not_resolved (hnd w) \<noteq> 0"
    and room: "0 < room (hnd w) i" and size: "unat (task_size (hnd w)) < 251"
  shows "\<exists>w'. send_round E i w = Some (Inr None, w') \<and> table_inv n q (hnd w') \<and>
    socket_fd (conn (hnd w') i) = fd \<and>
    requested_tasks (conn (hnd w') i) = requested_tasks (conn (hnd w) i) - 1 \<and>
    pool (hnd w') = (pool (hnd w))[next_task (hnd w) := Held i] \<and>
    Suc (room (hnd w') i) = room (hnd w) i \<and>
    (\<exists>j. hnd w' = task_sent i (start_sending i j (hnd w))) \<and>
    sent_on fd (trace w') = sent_on fd (trace w) @ [task_message (hnd w) (next_task (hnd w))]"
proof -
  let ?h = "hnd w"
  have core: "core_inv ?h" and i': "i < length (client_conns ?h)" using inv i by (auto simp: table_inv_iff)
  have idle: "idle (conn ?h i)" using table_inv_quiet [OF inv i] live by (simp add: idle_def quiet_def)
  obtain j where cell: "find_index (\<lambda>t. t = -1) (take MAX_TASKS_PER_CLIENT (task_list (conn ?h i))) = Some j"
    using room_cell [OF core i' room] by blast
  note st = send_handles [OF inv i live(2) [folded live(1)] req more cell]
  have "wpg False (send_round E i) (\<lambda>r w'. r = None \<and> hnd w' = task_sent i (start_sending i j ?h) \<and>
      sent_on fd (trace w') = sent_on fd (trace w) @ [task_message ?h (next_task ?h)]) (\<lambda>_ _. False) w"
    using req idle more cell send_current_obliged [OF k inv i live req more cell size]
    by (simp add: send_round_def wpg_bind wpg_get wpg_andthen wpg_pick_task [OF core] Let_def idle_def)
  then obtain w' where w': "send_round E i w = Some (Inr None, w')" "hnd w' = task_sent i (start_sending i j ?h)"
    "sent_on fd (trace w') = sent_on fd (trace w) @ [task_message ?h (next_task ?h)]" by (auto dest!: wpg_outcome)
  then show ?thesis using live room st(2,4-6) by auto
qed

text \<open>The tasks that are to do, in order; the send loop takes them from the front.\<close>

definition todo :: "phase list \<Rightarrow> nat list" where
  "todo p = filter (\<lambda>t. p ! t = Todo) [0..<length p]"

lemma todo_next:
  assumes "t < length p" and "p ! t = Todo" and "\<forall>k < t. p ! k \<noteq> Todo" and "x \<noteq> Todo"
  shows "todo p = t # todo (p[t := x])"
proof -
  have "[0..<length p] = [0..<t] @ t # [Suc t..<length p]"
    using assms(1) by (metis le0 less_or_eq_imp_le upt_add_eq_append upt_conv_Cons le_add_diff_inverse)
  then show ?thesis
    using assms by (auto simp: todo_def filter_empty_conv nth_list_update intro!: filter_cong)
qed

lemma length_todo: "length (todo p) = countp (\<lambda>x. x = Todo) p"
proof -
  have "countp (\<lambda>x. x = Todo) (map ((!) p) [0..<length p]) = length (todo p)"
    unfolding countp_map by (simp add: countp_def todo_def)
  then show ?thesis by (simp add: map_nth)
qed

lemma task_message_cong: "caller h' = caller h \<Longrightarrow> task_message h' t = task_message h t"
  by (simp add: caller_def task_message_def task_bytes_def)

lemma send_loop_obliged:
  assumes k: "takes_all E" and i: "i < n" and fd: "fd \<noteq> -1"
  shows "table_inv n q (hnd w) \<Longrightarrow> socket_fd (conn (hnd w) i) = fd \<Longrightarrow>
    unat (requested_tasks (conn (hnd w) i)) = r \<Longrightarrow> r \<le> unat (num_not_resolved (hnd w)) \<Longrightarrow>
    r \<le> room (hnd w) i \<Longrightarrow> unat (task_size (hnd w)) < 251 \<Longrightarrow>
    \<exists>w'. loop (send_round E i) w = Some (Inr (), w') \<and> table_inv n q (hnd w') \<and>
      socket_fd (conn (hnd w') i) = fd \<and> requested_tasks (conn (hnd w') i) = 0 \<and>
      (\<exists>ts. ts = take r (todo (pool (hnd w))) \<and>
        pool (hnd w') = fold (\<lambda>t p. p[t := Held i]) ts (pool (hnd w)) \<and>
        sent_on fd (trace w') = sent_on fd (trace w) @ map (task_message (hnd w)) ts)"
proof (induction r arbitrary: w)
  case 0
  then have "requested_tasks (conn (hnd w) i) = 0" by (simp add: unat_eq_0)
  then have "loop (send_round E i) w = Some (Inr (), w)"
    by (subst loop_unfold) (simp add: bind_def return_def send_round_def get_def)
  then show ?case using 0 \<open>requested_tasks (conn (hnd w) i) = 0\<close> by simp
next
  case (Suc r)
  let ?h = "hnd w" let ?t = "next_task ?h"
  have core: "core_inv ?h" using Suc.prems(1) by (rule table_inv_core)
  have req: "requested_tasks (conn ?h i) \<noteq> 0" using Suc.prems(3) by auto
  have more: "num_not_resolved ?h \<noteq> 0" using Suc.prems(4) by auto
  have t: "?t < unat (num_tasks ?h)" "statuses ?h ! ?t = NOT_RESOLVED"
    "\<forall>k < ?t. statuses ?h ! k \<noteq> NOT_RESOLVED"
    using next_task_cases [OF core] next_task_runs_out [OF core] more by auto
  obtain w1 where w1: "send_round E i w = Some (Inr None, w1)" "table_inv n q (hnd w1)"
    "socket_fd (conn (hnd w1) i) = fd"
    "requested_tasks (conn (hnd w1) i) = requested_tasks (conn ?h i) - 1"
    "pool (hnd w1) = (pool ?h)[?t := Held i]" "Suc (room (hnd w1) i) = room ?h i"
    "sent_on fd (trace w1) = sent_on fd (trace w) @ [task_message ?h ?t]"
    using send_round_obliged [OF k Suc.prems(1) i Suc.prems(2) fd req more _ Suc.prems(6)] Suc.prems(5)
    by auto
  have same: "caller (hnd w1) = caller ?h"
    using table_inv_pool [OF w1(2)] table_inv_pool [OF Suc.prems(1)] by (simp add: evolved_def)
  have todo: "todo (pool ?h) = ?t # todo (pool (hnd w1))"
    unfolding w1(5) by (rule todo_next) (use t in \<open>auto simp: phase_def split: task_status.splits\<close>)
  have cnt: "unat (num_not_resolved (hnd w1)) = length (todo (pool (hnd w1)))"
    "unat (num_not_resolved ?h) = length (todo (pool ?h))"
    by (simp_all add: length_todo count_not_resolved table_inv_core [OF w1(2)] core)
  have "\<exists>w'. loop (send_round E i) w1 = Some (Inr (), w') \<and> table_inv n q (hnd w') \<and>
      socket_fd (conn (hnd w') i) = fd \<and> requested_tasks (conn (hnd w') i) = 0 \<and>
      (\<exists>ts. ts = take r (todo (pool (hnd w1))) \<and>
        pool (hnd w') = fold (\<lambda>t p. p[t := Held i]) ts (pool (hnd w1)) \<and>
        sent_on fd (trace w') = sent_on fd (trace w1) @ map (task_message (hnd w1)) ts)"
  proof (rule Suc.IH [OF w1(2,3)])
    show "unat (requested_tasks (conn (hnd w1) i)) = r"
      using Suc.prems(3) req by (simp add: w1(4) unat_minus_1)
    show "unat (task_size (hnd w1)) < 251" using Suc.prems(6) same by (simp add: caller_def)
  qed (use Suc.prems(4,5) w1(6) cnt todo in auto)
  then obtain w' where w': "loop (send_round E i) w1 = Some (Inr (), w')" "table_inv n q (hnd w')"
    "socket_fd (conn (hnd w') i) = fd" "requested_tasks (conn (hnd w') i) = 0"
    "pool (hnd w') = fold (\<lambda>t p. p[t := Held i]) (take r (todo (pool (hnd w1)))) (pool (hnd w1))"
    "sent_on fd (trace w') = sent_on fd (trace w1) @ map (task_message (hnd w1)) (take r (todo (pool (hnd w1))))"
    by auto
  have "loop (send_round E i) w = Some (Inr (), w')"
    by (subst loop_unfold) (simp add: bind_def w1(1) w'(1))
  moreover have "task_message (hnd w1) = task_message ?h"
    using task_message_cong [OF same] by auto
  ultimately show ?case
    using w' w1(7) by (auto simp: todo w1(5) [symmetric])
qed

section \<open>A connection that never takes anything, or is broken\<close>

definition refuses :: "env \<Rightarrow> bool" where
  "refuses E \<longleftrightarrow> (\<forall>tr fd bs fl. r_ret (sys E tr (Send fd bs fl)) = -1 \<and>
     r_errno (sys E tr (Send fd bs fl)) = EAGAIN)"

definition broken :: "env \<Rightarrow> bool" where
  "broken E \<longleftrightarrow>
     (\<forall>tr fd bs fl. r_ret (sys E tr (Send fd bs fl)) = -1 \<and> r_errno (sys E tr (Send fd bs fl)) = EPIPE) \<and>
     (\<forall>tr ep op fd. r_ret (sys E tr (EpollCtl ep op fd)) \<noteq> -1) \<and>
     (\<forall>tr fd. r_ret (sys E tr (Close fd)) \<noteq> -1)"

lemma send_result_errors:
  assumes "core_inv h" and "r_ret r = -1" and "unat (task_size h) < 251"
  shows "r_errno r = EAGAIN \<Longrightarrow> send_result h header r = Some (header\<lparr>cmd := ERR_NOT_READY\<rparr>)"
    and "r_errno r = EPIPE \<Longrightarrow> send_result h header r = Some (header\<lparr>cmd := ERR_CONN_BROKEN\<rparr>)"
proof -
  have "(-1 :: size_t) \<noteq> of_nat sizeof_header + task_size h"
  proof
    assume "(-1 :: size_t) = of_nat sizeof_header + task_size h"
    then have "unat (-1 :: size_t) = sizeof_header + unat (task_size h)"
      by (simp only: core_inv_task_size(1) [OF assms(1)])
    then show False using assms(3) by (simp only: unat_minus_1_64 sizeof_header_def)
  qed
  then show "r_errno r = EAGAIN \<Longrightarrow> send_result h header r = Some (header\<lparr>cmd := ERR_NOT_READY\<rparr>)"
    and "r_errno r = EPIPE \<Longrightarrow> send_result h header r = Some (header\<lparr>cmd := ERR_CONN_BROKEN\<rparr>)"
    using assms(2) by (simp_all add: send_result_def)
qed

lemma wpg_send_current_eq:
  assumes inv: "send_inv n q i (hnd w)" and i: "i < n" and s: "sending (conn (hnd w) i)"
    and size: "unat (task_size (hnd w)) < 251"
  shows "\<exists>hdr c. cmd hdr = CMD_TASK \<and> c = Send (socket_fd (conn (hnd w) i))
      (header_bytes (host E) hdr @ task_bytes (hnd w)
        (unat (task_list (conn (hnd w) i) ! unat (now_sending_task_i (conn (hnd w) i))))) MSG_NOSIGNAL \<and>
    (\<forall>Q S. wpg d (send_current E i) Q S w = (\<forall>r. answers E w c r \<longrightarrow>
      (case send_result (hnd w) hdr r of
         Some hdr' \<Rightarrow> wpg d (finish_send E i hdr') (\<lambda>_. Q None) S (log c r w)
       | None \<Rightarrow> S (Bug ''Unhandled error in send()'') (log c r w))))"
proof -
  let ?h = "hnd w" let ?c = "conn ?h i"
  have core: "core_inv ?h" and i': "i < length (client_conns ?h)" using inv i by (auto simp: send_inv_def)
  obtain j where j: "unat (now_sending_task_i ?c) = j" by simp
  then have j16: "j < MAX_TASKS_PER_CLIENT" and x: "task_list ?c ! j \<noteq> -1"
    using s by (auto simp: sending_def)
  have "holds (cells ?h) i j (task_list ?c ! j)" using holds_cell [OF core i' j16] x by simp
  then have t: "\<not> unat (num_tasks ?h) \<le> unat (task_list ?c ! j)"
    using held_resolving [OF core] by (meson not_le)
  have "\<not> 251 \<le> unat (task_size ?h)" using size by simp
  then show ?thesis
    using j16 t unfolding send_current_def
    by (intro exI [of _ "\<lparr>cmd = CMD_TASK, task_id = htobe32 (host E) (task_list ?c ! j)\<rparr>"])
      (simp add: wpg_bind wpg_andthen wpg_get wpg_undef_if wpg_return j wpg_put_data [OF core] Let_def)
qed

lemma send_round_refused:
  assumes k: "refuses E" and inv: "send_inv n q i (hnd w)" and i: "i < n"
    and s: "sending (conn (hnd w) i)" and size: "unat (task_size (hnd w)) < 251"
  shows "\<exists>w'. send_round E i w = Some (Inr None, w') \<and> hnd w' = hnd w"
proof -
  have core: "core_inv (hnd w)" using inv by (simp add: send_inv_def)
  have now: "now_sending_task_i (conn (hnd w) i) \<noteq> -1" "requested_tasks (conn (hnd w) i) \<noteq> 0"
    using s by (auto simp: sending_def unat_minus_1_32 MAX_TASKS_PER_CLIENT_def)
  obtain hdr c where c: "cmd hdr = CMD_TASK" "c = Send (socket_fd (conn (hnd w) i))
      (header_bytes (host E) hdr @ task_bytes (hnd w)
        (unat (task_list (conn (hnd w) i) ! unat (now_sending_task_i (conn (hnd w) i))))) MSG_NOSIGNAL"
    and eq: "\<And>Q S. wpg False (send_current E i) Q S w = (\<forall>r. answers E w c r \<longrightarrow>
      (case send_result (hnd w) hdr r of
         Some hdr' \<Rightarrow> wpg False (finish_send E i hdr') (\<lambda>_. Q None) S (log c r w)
       | None \<Rightarrow> S (Bug ''Unhandled error in send()'') (log c r w)))"
    using wpg_send_current_eq [OF inv i s size, of E False] by blast
  have "send_result (hnd w) hdr r = Some (hdr\<lparr>cmd := ERR_NOT_READY\<rparr>)" if "answers E w c r" for r
    using that k c(2) by (intro send_result_errors [OF core _ size]) (auto simp: answers_def refuses_def)
  then have "wpg False (send_current E i) (\<lambda>x w'. x = None \<and> hnd w' = hnd w) (\<lambda>_ _. False) w"
    unfolding eq by (auto simp: finish_send_def wp cmd_defs)
  then have "wpg False (send_round E i) (\<lambda>x w'. x = None \<and> hnd w' = hnd w) (\<lambda>_ _. False) w"
    using now by (simp add: send_round_def wpg_bind wpg_get wpg_andthen wpg_pick_task [OF core] Let_def)
  then show ?thesis by (auto dest: wpg_outcome)
qed

lemma send_loop_refused:
  assumes "refuses E" and "send_inv n q i (hnd w)" and "i < n"
    and "sending (conn (hnd w) i)" and "unat (task_size (hnd w)) < 251"
  shows "loop (send_round E i) w = None"
proof (rule loop_diverges [where I = "\<lambda>w'. hnd w' = hnd w"])
  fix w' :: "server world"
  assume "hnd w' = hnd w"
  then show "\<exists>w''. send_round E i w' = Some (Inr None, w'') \<and> hnd w'' = hnd w"
    using send_round_refused [OF assms(1), of n q i w'] assms by auto
qed simp

lemma task_size_lose [simp]:
  "task_size (remove_connection i (drop_tasks i h)) = task_size h"
  using caller_drop_tasks [of i h] by (simp add: remove_connection_def caller_def)

lemma send_round_broken:
  assumes k: "broken E" and inv: "send_inv n q i (hnd w)" and i: "i < n"
    and s: "sending (conn (hnd w) i)" and size: "unat (task_size (hnd w)) < 251"
  shows "\<exists>w'. send_round E i w = Some (Inr None, w') \<and>
    hnd w' = remove_connection i (drop_tasks i (hnd w))"
proof -
  have core: "core_inv (hnd w)" and i': "i < length (client_conns (hnd w))"
    using inv i by (auto simp: send_inv_def)
  have now: "now_sending_task_i (conn (hnd w) i) \<noteq> -1" "requested_tasks (conn (hnd w) i) \<noteq> 0"
    using s by (auto simp: sending_def unat_minus_1_32 MAX_TASKS_PER_CLIENT_def)
  obtain hdr c where c: "cmd hdr = CMD_TASK" "c = Send (socket_fd (conn (hnd w) i))
      (header_bytes (host E) hdr @ task_bytes (hnd w)
        (unat (task_list (conn (hnd w) i) ! unat (now_sending_task_i (conn (hnd w) i))))) MSG_NOSIGNAL"
    and eq: "\<And>Q S. wpg False (send_current E i) Q S w = (\<forall>r. answers E w c r \<longrightarrow>
      (case send_result (hnd w) hdr r of
         Some hdr' \<Rightarrow> wpg False (finish_send E i hdr') (\<lambda>_. Q None) S (log c r w)
       | None \<Rightarrow> S (Bug ''Unhandled error in send()'') (log c r w)))"
    using wpg_send_current_eq [OF inv i s size, of E False] by blast
  have res: "send_result (hnd w) hdr r = Some (hdr\<lparr>cmd := ERR_CONN_BROKEN\<rparr>)" if "answers E w c r" for r
    using that k c(2) by (intro send_result_errors [OF core _ size]) (auto simp: answers_def broken_def)
  have gone: "wpg False (delete_connection E i) (\<lambda>_ w'. hnd w' = remove_connection i (hnd w1))
      (\<lambda>_ _. False) w1" for w1 :: "server world"
    using k by (auto simp: delete_connection_def wp start_connection_management_routine_def
        broken_def answers_def remove_connection_def set_conn_def conn_def)
  have "wpg False (finish_send E i (hdr\<lparr>cmd := ERR_CONN_BROKEN\<rparr>))
      (\<lambda>_ w'. hnd w' = remove_connection i (drop_tasks i (hnd w))) (\<lambda>_ _. False) (log c r w)" for r
    using gone [of "upd (drop_tasks i) (log c r w)"]
    by (simp add: finish_send_def wp cmd_defs wpg_drop_resolving_tasks core i')
  then have "wpg False (send_current E i)
      (\<lambda>x w'. x = None \<and> hnd w' = remove_connection i (drop_tasks i (hnd w))) (\<lambda>_ _. False) w"
    unfolding eq by (auto simp: res)
  then have "wpg False (send_round E i)
      (\<lambda>x w'. x = None \<and> hnd w' = remove_connection i (drop_tasks i (hnd w))) (\<lambda>_ _. False) w"
    using now by (simp add: send_round_def wpg_bind wpg_get wpg_andthen wpg_pick_task [OF core] Let_def)
  then show ?thesis by (auto dest: wpg_outcome)
qed

lemma send_loop_broken:
  assumes k: "broken E" and inv: "send_inv n q i (hnd w)" and i: "i < n"
    and s: "sending (conn (hnd w) i)" and size: "unat (task_size (hnd w)) < 251"
  shows "\<exists>w'. loop (send_round E i) w = Some (Inl (Undef ''user_tasks out of bounds''), w')"
proof -
  obtain w1 where w1: "send_round E i w = Some (Inr None, w1)"
    "hnd w1 = remove_connection i (drop_tasks i (hnd w))"
    using send_round_broken [OF assms] by blast
  have d: "dropped (conn (hnd w1) i)" and inv1: "send_inv n q i (hnd w1)"
    using send_inv_lose [OF inv i s] by (simp_all add: w1)
  have core: "core_inv (hnd w1)" using inv1 by (simp add: send_inv_def)
  have now: "now_sending_task_i (conn (hnd w1) i) \<noteq> -1" "requested_tasks (conn (hnd w1) i) \<noteq> 0"
    using d by (auto simp: dropped_def unat_minus_1_32 MAX_TASKS_PER_CLIENT_def)
  have "wpg False (send_round E i) (\<lambda>_ _. False) (\<lambda>e _. e = Undef ''user_tasks out of bounds'') w1"
    using now wpg_send_dropped [OF inv1 i d, of False E "\<lambda>_ _. False"] size
    by (simp add: send_round_def wpg_bind wpg_get wpg_andthen wpg_pick_task [OF core] Let_def w1(2))
  then obtain w2 where "send_round E i w1 = Some (Inl (Undef ''user_tasks out of bounds''), w2)"
    by (auto dest: wpg_stopped)
  then show ?thesis
    by (subst loop_unfold, simp add: bind_def w1(1), subst loop_unfold, simp add: bind_def)
qed

section \<open>Entering the loop\<close>

text \<open>Choosing the task first makes no difference to the loop.\<close>

lemma send_loop_start:
  assumes inv: "table_inv n q (hnd w)" and i: "i < n" and live: "socket_fd (conn (hnd w) i) \<noteq> -1"
    and req: "requested_tasks (conn (hnd w) i) \<noteq> 0" and more: "num_not_resolved (hnd w) \<noteq> 0"
    and room: "0 < room (hnd w) i"
  shows "\<exists>w1. loop (send_round E i) w = loop (send_round E i) w1 \<and> send_inv n q i (hnd w1) \<and>
    sending (conn (hnd w1) i) \<and> task_size (hnd w1) = task_size (hnd w) \<and> trace w1 = trace w"
proof -
  have core: "core_inv (hnd w)" and i': "i < length (client_conns (hnd w))"
    using inv i by (auto simp: table_inv_iff)
  have idle: "idle (conn (hnd w) i)" using table_inv_quiet [OF inv i] live by (simp add: idle_def quiet_def)
  obtain j where cell: "find_index (\<lambda>t. t = -1) (take MAX_TASKS_PER_CLIENT (task_list (conn (hnd w) i))) = Some j"
    using room_cell [OF core i' room] by blast
  let ?w1 = "upd (start_sending i j) w"
  have pick: "pick_task E i w = Some (Inr (), ?w1)"
    by (rule wpg_exact) (use idle more cell in \<open>simp add: wpg_pick_task [OF core] Let_def idle_def\<close>)
  note start = send_inv_start [OF send_inv_enter [OF inv i live] i idle req more cell]
  then have busy: "now_sending_task_i (conn (hnd ?w1) i) \<noteq> -1" "requested_tasks (conn (hnd ?w1) i) \<noteq> 0"
    by (auto simp: sending_def unat_minus_1_32 MAX_TASKS_PER_CLIENT_def)
  have pick1: "pick_task E i ?w1 = Some (Inr (), ?w1)"
    using busy by (simp add: pick_task_def bind_def get_def return_def)
  have "send_round E i w = send_round E i ?w1"
    using req busy by (simp add: send_round_def bind_def get_def andthen_def pick pick1)
  then have "loop (send_round E i) w = loop (send_round E i) ?w1"
    by (subst (1 2) loop_unfold) (simp add: bind_def)
  moreover have "task_size (start_sending i j (hnd w)) = task_size (hnd w)"
    by (simp add: start_sending_def assign_task_def take_task_def)
  ultimately show ?thesis using start by (intro exI [of _ ?w1]) simp
qed

lemma send_on_connection_loop:
  "socket_fd (conn (hnd w) i) = fd \<Longrightarrow> send_on_connection E fd i w = loop (send_round E i) w"
  by (simp add: send_on_connection_def bind_def get_def)

end
