(* ===== verification/ServerSpec.thy ===== *)
theory ServerSpec
  imports Scenarios ServerStream ServerSend
begin

text \<open>
  The properties of the server, each with a concrete case. The proofs apply the lemmas of the
  component theories; the claims are numbered across the development.
\<close>

section \<open>The computation as a whole\<close>



text \<open>
  C7: the event loop ends only when every task is done: if it returns from a state that
  satisfies the invariant, the invariant still holds, every task is \<open>COMPLETED\<close>, the pool made
  only its own steps, and the result buffer holds one result after the other.
\<close>

theorem eventloop_completes:
  assumes "kernel_sound E" and "server_inv (hnd w)" and "server_eventloop E w = Some (Inr (), w')"
  shows "server_inv (hnd w') \<and>
    (\<forall>t < unat (num_tasks (hnd w')). task_status_of (hnd w') t = COMPLETED) \<and>
    pool_steps (pool (hnd w)) (pool (hnd w')) \<and>
    user_rets (hnd w') = concat (map (result_bytes (hnd w')) [0..<unat (num_tasks (hnd w'))])"
proof -
  let ?n = "length (client_conns (hnd w))"
  have "table_inv ?n (hnd w) (hnd w)" using assms(2) by (simp add: table_inv_def)
  from wpg_returns [OF wpg_eventloop [OF assms(1) this] assms(3)]
  show ?thesis by (auto simp: table_inv_def evolved_def server_inv_def intro: results_concat)
qed

theorem eventloop_completes_witness:
  "\<exists>w'. server_eventloop one_client_env (boot (solo (-1) 0 NOT_RESOLVED)) = Some (Inr (), w') \<and>
     server_inv (hnd w') \<and> task_status_of (hnd w') 0 = COMPLETED \<and> user_rets (hnd w') = [42]"
proof -
  have run: "map_option (\<lambda>(r, w). (r, user_rets (hnd w), num_tasks (hnd w)))
      (server_eventloop one_client_env (boot (solo (-1) 0 NOT_RESOLVED))) = Some (Inr (), [42], 1)"
    by code_simp
  then obtain w' where w': "server_eventloop one_client_env (boot (solo (-1) 0 NOT_RESOLVED)) =
      Some (Inr (), w')" "user_rets (hnd w') = [42]" "num_tasks (hnd w') = 1"
    by auto
  have "server_inv (hnd (boot (solo (-1) 0 NOT_RESOLVED)))" by (simp add: solo_inv)
  from eventloop_completes [OF kernel_sound_one_client this w'(1)] w' show ?thesis by auto
qed

text \<open>
  C8: one event, whatever it is, refines the task pool: afterwards the invariant holds, the pool
  has made only steps of its specification (a task is given to at most one connection at a time,
  only a task that is to do is given out, the least first, and a result is stored only for a
  task that is held), and the caller's parameters are the same.
\<close>

theorem process_event_refines:
  assumes "kernel_sound E" and "fst ev \<noteq> -1" and "server_inv (hnd w)"
  shows "case process_event E ev w of
      None \<Rightarrow> True
    | Some (Inl e, w') \<Rightarrow> known_stop e
    | Some (Inr _, w') \<Rightarrow> server_inv (hnd w') \<and> pool_steps (pool (hnd w)) (pool (hnd w')) \<and>
        caller (hnd w') = caller (hnd w)"
proof -
  have "table_inv (length (client_conns (hnd w))) (hnd w) (hnd w)"
    using assms(3) by (simp add: table_inv_def)
  from srv.keepsD [OF keeps_process_event [OF assms(1,2)] this] show ?thesis
    by (auto simp: wpg_def table_inv_def evolved_def split: option.splits sum.splits)
qed

theorem process_event_refines_witness:
  "\<exists>w'. process_event (scripted obliging) (7, EPOLLOUT) (boot (solo 7 1 NOT_RESOLVED)) = Some (Inr (), w') \<and>
     server_inv (hnd w') \<and> pool (solo 7 1 NOT_RESOLVED) = [Todo] \<and> pool (hnd w') = [Held 0] \<and>
     pool_steps [Todo] [Held 0]"
proof -
  have "map_option (\<lambda>(r, w). (r, pool (hnd w)))
      (process_event (scripted obliging) (7, EPOLLOUT) (boot (solo 7 1 NOT_RESOLVED))) =
      Some (Inr (), [Held 0])" by code_simp
  then obtain w' where w': "process_event (scripted obliging) (7, EPOLLOUT)
      (boot (solo 7 1 NOT_RESOLVED)) = Some (Inr (), w')" "pool (hnd w') = [Held 0]" by auto
  have "pool (solo 7 1 NOT_RESOLVED) = [Todo]" by code_simp
  with process_event_refines [OF kernel_sound_obliging, of "(7, EPOLLOUT)" "boot (solo 7 1 NOT_RESOLVED)"] w'
  show ?thesis by (auto simp: solo_inv)
qed

text \<open>
  C9: a result, once collected, is final: no later event changes the task's status or the bytes
  in the caller's buffer.
\<close>

theorem completed_result_is_final:
  assumes "kernel_sound E" and "fst ev \<noteq> -1" and "server_inv (hnd w)"
    and "process_event E ev w = Some (Inr (), w')"
    and "t < unat (num_tasks (hnd w))" and "task_status_of (hnd w) t = COMPLETED"
  shows "task_status_of (hnd w') t = COMPLETED \<and> result_bytes (hnd w') t = result_bytes (hnd w) t"
proof -
  have "table_inv (length (client_conns (hnd w))) (hnd w) (hnd w)"
    using assms(3) by (simp add: table_inv_def)
  from wpg_returns [OF srv.keepsD [OF keeps_process_event [OF assms(1,2)] this] assms(4)]
  have inv: "core_inv (hnd w')" and steps: "pool_steps (pool (hnd w)) (pool (hnd w'))"
    and n: "num_tasks (hnd w') = num_tasks (hnd w)"
    by (auto simp: table_inv_def server_inv_def evolved_def caller_def)
  have "core_inv (hnd w)" using assms(3) by (simp add: server_inv_def)
  then have "pool (hnd w) ! t = Done (result_bytes (hnd w) t)"
    using assms(5,6) core_inv_tasks [of "hnd w"] by (simp add: phase_def task_status_of_statuses)
  from pool_steps_done [OF steps _ this] show ?thesis
    using assms(5) n core_inv_tasks [OF inv]
    by (auto simp: phase_def task_status_of_statuses split: task_status.splits)
qed

theorem completed_result_is_final_witness:
  "\<exists>w'. process_event (scripted obliging) (7, EPOLLIN) (boot (solo 7 0 COMPLETED)) = Some (Inr (), w') \<and>
     task_status_of (hnd w') 0 = COMPLETED \<and> result_bytes (hnd w') 0 = [0]"
proof -
  have "map_option fst (process_event (scripted obliging) (7, EPOLLIN) (boot (solo 7 0 COMPLETED))) =
      Some (Inr ())" by code_simp
  then obtain w' where w': "process_event (scripted obliging) (7, EPOLLIN)
      (boot (solo 7 0 COMPLETED)) = Some (Inr (), w')" by auto
  have "result_bytes (solo 7 0 COMPLETED) 0 = [0]" "task_status_of (solo 7 0 COMPLETED) 0 = COMPLETED"
    by code_simp+
  with completed_result_is_final [OF kernel_sound_obliging _ _ w', of 0] w' show ?thesis
    by (auto simp: solo_inv)
qed

section \<open>The task table\<close>

text \<open>
  C10: \<open>get_task_to_send\<close> gives out the least task that is to do, puts it in the first free cell
  of the connection's task list and returns that cell; without a task to do, or without a free
  cell, it stops the process.
\<close>

theorem get_task_to_send_spec:
  assumes inv: "core_inv (hnd w)" and i: "i < length (client_conns (hnd w))"
    and live: "socket_fd (conn (hnd w) i) \<noteq> -1"
  shows "(if num_not_resolved (hnd w) = 0
    then get_task_to_send E i w = Some (Inl (Bug ''Greedy client detected''), w)
    else case find_index (\<lambda>t. t = -1) (task_list (conn (hnd w) i)) of
      None \<Rightarrow> \<exists>w'. get_task_to_send E i w =
        Some (Inl (Bug ''Asking for a task while there is no room for it''), w')
    | Some j \<Rightarrow> \<exists>t w'. get_task_to_send E i w = Some (Inr (of_nat j), w') \<and>
        t < length (pool (hnd w)) \<and> pool (hnd w) ! t = Todo \<and>
        (\<forall>k < t. pool (hnd w) ! k \<noteq> Todo) \<and>
        core_inv (hnd w') \<and> pool (hnd w') = (pool (hnd w))[t := Held i] \<and>
        task_list (conn (hnd w') i) = (task_list (conn (hnd w) i))[j := of_nat t])"
proof -
  let ?h = "hnd w"
  have len: "length (task_list (conn ?h i)) = MAX_TASKS_PER_CLIENT"
    by (rule core_inv_length_task_list [OF inv i])
  have run: "get_task_to_send E i w = Some (Inr (of_nat j), upd (assign_task i j (next_task ?h)) w)"
    if "num_not_resolved ?h \<noteq> 0" "find_index (\<lambda>t. t = -1) (task_list (conn ?h i)) = Some j" for j
    using wpg_get_task_to_send [OF inv, of False E i "\<lambda>x w'. x = of_nat j \<and>
        w' = upd (assign_task i j (next_task ?h)) w" "\<lambda>_ _. False"] that len
    by (auto simp: Let_def dest: wpg_outcome)
  have spec: "\<exists>t w'. get_task_to_send E i w = Some (Inr (of_nat j), w') \<and>
        t < length (pool ?h) \<and> pool ?h ! t = Todo \<and> (\<forall>k < t. pool ?h ! k \<noteq> Todo) \<and>
        core_inv (hnd w') \<and> pool (hnd w') = (pool ?h)[t := Held i] \<and>
        task_list (conn (hnd w') i) = (task_list (conn ?h i))[j := of_nat t]"
    if more: "num_not_resolved ?h \<noteq> 0"
      and cell: "find_index (\<lambda>t. t = -1) (task_list (conn ?h i)) = Some j" for j
  proof (intro exI conjI)
    have j: "j < MAX_TASKS_PER_CLIENT" "task_list (conn ?h i) ! j = -1"
      using cell len by (auto simp: find_index_Some)
    have t: "next_task ?h < unat (num_tasks ?h)" "statuses ?h ! next_task ?h = NOT_RESOLVED"
      "\<forall>k < next_task ?h. statuses ?h ! k \<noteq> NOT_RESOLVED"
      using next_task_cases [OF inv] next_task_runs_out [OF inv] more by auto
    show "get_task_to_send E i w = Some (Inr (of_nat j), upd (assign_task i j (next_task ?h)) w)"
      by (rule run [OF more cell])
    show "next_task ?h < length (pool ?h)" "pool ?h ! next_task ?h = Todo"
      "\<forall>k < next_task ?h. pool ?h ! k \<noteq> Todo"
      using t by (auto simp: phase_def split: task_status.splits)
    show "core_inv (hnd (upd (assign_task i j (next_task ?h)) w))"
      "pool (hnd (upd (assign_task i j (next_task ?h)) w)) = (pool ?h)[next_task ?h := Held i]"
      using core_inv_assign_task [OF inv i live more j] pool_assign_task(1) [OF inv i live more j] by simp_all
    show "task_list (conn (hnd (upd (assign_task i j (next_task ?h)) w)) i) =
        (task_list (conn ?h i))[j := of_nat (next_task ?h)]"
      using i by (simp add: conn_assign_task)
  qed
  have greedy: "get_task_to_send E i w = Some (Inl (Bug ''Greedy client detected''), w)"
    if "num_not_resolved ?h = 0"
    using wpg_get_task_to_send [OF inv, of False E i "\<lambda>_ _. False"
        "\<lambda>e w'. e = Bug ''Greedy client detected'' \<and> w' = w"] that
    by (auto simp: Let_def dest: wpg_stopped)
  have room: "\<exists>w'. get_task_to_send E i w =
      Some (Inl (Bug ''Asking for a task while there is no room for it''), w')"
    if "num_not_resolved ?h \<noteq> 0" "find_index (\<lambda>t. t = -1) (task_list (conn ?h i)) = None"
    using wpg_get_task_to_send [OF inv, of False E i "\<lambda>_ _. False"
        "\<lambda>e w'. e = Bug ''Asking for a task while there is no room for it''"] that len
    by (auto simp: Let_def dest: wpg_stopped)
  show ?thesis using spec greedy room by (auto split: option.splits)
qed

theorem get_task_to_send_spec_witness:
  "\<exists>w'. get_task_to_send (scripted obliging) 0 (boot (solo 7 1 NOT_RESOLVED)) = Some (Inr 0, w') \<and>
     core_inv (hnd w') \<and> pool (hnd w') = [Held 0]"
proof -
  have f: "find_index (\<lambda>t. t = -1) (replicate MAX_TASKS_PER_CLIENT (-1 :: u32)) = Some 0"
    by (simp add: MAX_TASKS_PER_CLIENT_def numeral_eq_Suc)
  have n: "num_not_resolved (solo 7 1 NOT_RESOLVED) = 1" by (simp add: solo_def)
  have p: "pool (solo 7 1 NOT_RESOLVED) = [Todo]" by code_simp
  show ?thesis
    using get_task_to_send_spec [of "boot (solo 7 1 NOT_RESOLVED)" 0 "scripted obliging"]
      solo_inv [of NOT_RESOLVED 7 1]
    by (auto simp: server_inv_def f n p)
qed

text \<open>
  C11: \<open>push_return_value\<close> with the id of a task the connection holds stores the payload of the
  message as the task's result and makes it done, and touches no other result. With an id the
  connection does not hold it stops the process; an id beyond the task table is an access out
  of bounds, before any test.
\<close>

theorem push_return_value_spec:
  assumes inv: "core_inv (hnd w)" and i: "i < length (client_conns (hnd w))"
  shows "(let h = hnd w; t = unat (task_id header) in
    if unat (num_tasks h) \<le> t
    then push_return_value E i header w = Some (Inl (Undef ''task_manager out of bounds''), w)
    else if pool h ! t = Held i
    then \<exists>w'. push_return_value E i header w = Some (Inr (), w') \<and> core_inv (hnd w') \<and>
       pool (hnd w') = (pool h)[t := Done (payload h i)] \<and>
       (\<forall>k < unat (num_tasks h). k \<noteq> t \<longrightarrow> result_bytes (hnd w') k = result_bytes h k)
    else \<exists>w'. push_return_value E i header w =
       Some (Inl (Bug ''Cannot find number of task in the task list''), w'))"
proof -
  let ?h = "hnd w" let ?x = "task_id header" let ?t = "unat ?x"
  let ?f = "find_index (\<lambda>x. x = ?x) (take MAX_TASKS_PER_CLIENT (task_list (conn ?h i)))"
  have len: "length (task_list (conn ?h i)) = MAX_TASKS_PER_CLIENT"
    by (rule core_inv_length_task_list [OF inv i])
  note eq = wpg_push_return_value [OF inv i, of False E header, unfolded Let_def]
  show ?thesis
  proof (cases "unat (num_tasks ?h) \<le> ?t")
    case True
    then show ?thesis
      using eq [of "\<lambda>_ _. False" "\<lambda>e w'. e = Undef ''task_manager out of bounds'' \<and> w' = w"]
      by (auto dest: wpg_stopped)
  next
    case False
    then have t: "?t < unat (num_tasks ?h)" by simp
    have "?x \<noteq> -1" using t core_inv_small [OF inv] by (auto simp: unat_minus_1_32)
    then have held: "pool ?h ! ?t = Held i \<longleftrightarrow> (\<exists>j < MAX_TASKS_PER_CLIENT. task_list (conn ?h i) ! j = ?x)"
      using t phase_held_iff [OF inv t] i len by (auto simp: holds_def)
    show ?thesis
    proof (cases ?f)
      case None
      then have "\<not> (\<exists>j < MAX_TASKS_PER_CLIENT. task_list (conn ?h i) ! j = ?x)"
        using len by (simp add: find_index_None)
      then show ?thesis
        using held False None eq [of "\<lambda>_ _. False" "\<lambda>e w'. e = Bug ''Cannot find number of task in the task list''"]
        by (auto dest: wpg_stopped)
    next
      case (Some j)
      then have j: "j < MAX_TASKS_PER_CLIENT" "task_list (conn ?h i) ! j = ?x"
        using len by (auto simp: find_index_Some)
      have run: "push_return_value E i header w = Some (Inr (), upd (complete_task i j ?t) w)"
        using False Some eq [of "\<lambda>_ w'. w' = upd (complete_task i j ?t) w" "\<lambda>_ _. False"]
        by (auto dest: wpg_outcome)
      show ?thesis
        using run t held j core_inv_complete_task [OF inv i t j] pool_complete_task(1) [OF inv i t j]
          result_complete_task [OF inv i t]
        by auto
    qed
  qed
qed

theorem push_return_value_spec_witness:
  "(\<exists>w'. push_return_value (scripted obliging) 0 \<lparr>cmd = CMD_RESULT, task_id = 0\<rparr> (boot busy) =
      Some (Inr (), w') \<and> pool (hnd w') = [Done [0]]) \<and>
   push_return_value (scripted obliging) 0 \<lparr>cmd = CMD_RESULT, task_id = 5\<rparr> (boot busy) =
      Some (Inl (Undef ''task_manager out of bounds''), boot busy)"
proof -
  have "payload busy 0 = [0]" by code_simp
  then show ?thesis
    using push_return_value_spec [of "boot busy" 0 "\<lparr>cmd = CMD_RESULT, task_id = 0\<rparr>" "scripted obliging"]
      push_return_value_spec [of "boot busy" 0 "\<lparr>cmd = CMD_RESULT, task_id = 5\<rparr>" "scripted obliging"]
      busy_inv pool_nth [of 0 busy]
    by (auto simp: Let_def)
qed

text \<open>
  C12: \<open>drop_resolving_tasks\<close> gives back exactly the tasks that the lost connection held: they are
  to do again, the counter grows by their number, every other task and the results stay, the
  task list is empty, and no system call is made.
\<close>

theorem drop_resolving_tasks_spec:
  assumes inv: "core_inv (hnd w)" and i: "i < length (client_conns (hnd w))"
  shows "\<exists>w'. drop_resolving_tasks E i w = Some (Inr (), w') \<and> core_inv (hnd w') \<and>
    pool (hnd w') = map (\<lambda>p. if p = Held i then Todo else p) (pool (hnd w)) \<and>
    unat (num_not_resolved (hnd w')) =
      unat (num_not_resolved (hnd w)) + countp (\<lambda>p. p = Held i) (pool (hnd w)) \<and>
    task_list (conn (hnd w') i) = replicate MAX_TASKS_PER_CLIENT (-1) \<and>
    user_rets (hnd w') = user_rets (hnd w) \<and> trace w' = trace w"
proof -
  let ?w = "upd (drop_tasks i) w"
  have "drop_resolving_tasks E i w = Some (Inr (), ?w)"
    using wpg_drop_resolving_tasks [OF assms, of False E "\<lambda>_ w'. w' = ?w" "\<lambda>_ _. False"]
    by (auto dest: wpg_outcome)
  then show ?thesis
    using drop_tasks_effect [OF assms] pool_drop_tasks(1) [OF assms]
      count_not_resolved [OF inv] count_not_resolved [of "drop_tasks i (hnd w)"]
    by (auto simp: countp_lose)
qed

theorem drop_resolving_tasks_spec_witness:
  "\<exists>w'. drop_resolving_tasks (scripted obliging) 0 (boot busy) = Some (Inr (), w') \<and>
     pool (hnd w') = [Todo] \<and> unat (num_not_resolved (hnd w')) = 1"
proof -
  have "num_not_resolved busy = 0" by code_simp
  then show ?thesis
    using drop_resolving_tasks_spec [of "boot busy" 0 "scripted obliging"] busy_inv by auto
qed

section \<open>Messages\<close>


text \<open>The kernel of the witness: three pieces, told apart by the length of the history.\<close>

definition pieces :: "nat \<Rightarrow> u8 list" where
  "pieces k = (if k = 0 then [CMD_RESULT, 0] else if k = 1 then [0, 0] else [0, 77])"

definition cutting :: env where
  "cutting = (scripted obliging)\<lparr>sys := \<lambda>tr c. (answer 2)\<lparr>r_data := pieces (length tr)\<rparr>,
     host := BigEndian\<rparr>"


section \<open>The send loop\<close>

text \<open>
  C14: when the kernel takes every message, the send loop ends, and a connection that asked for
  \<open>r\<close> tasks is sent exactly the first \<open>r\<close> tasks that are to do, in order, each as a header in
  network byte order followed by the task's bytes; afterwards it holds them and nothing is
  requested any more. The tasks must exist and the task list must have room for them.
\<close>

theorem send_loop_delivers:
  assumes "takes_all E" and "server_inv (hnd w)" and "i < length (client_conns (hnd w))"
    and "socket_fd (conn (hnd w) i) = fd" and "fd \<noteq> -1"
    and "r = unat (requested_tasks (conn (hnd w) i))"
    and "r \<le> unat (num_not_resolved (hnd w))" and "r \<le> room (hnd w) i"
    and "sizeof_header + unat (task_size (hnd w)) < 256"
  shows "\<exists>w' ts. send_on_connection E fd i w = Some (Inr (), w') \<and> server_inv (hnd w') \<and>
    ts = take r (todo (pool (hnd w))) \<and>
    sent_on fd (trace w') = sent_on fd (trace w) @ map (task_message (hnd w)) ts \<and>
    pool (hnd w') = fold (\<lambda>t p. p[t := Held i]) ts (pool (hnd w)) \<and>
    requested_tasks (conn (hnd w') i) = 0"
proof -
  have inv: "table_inv (length (client_conns (hnd w))) (hnd w) (hnd w)"
    using assms(2) by (simp add: table_inv_def)
  have size: "unat (task_size (hnd w)) < 251" using assms(9) by (simp add: sizeof_header_def)
  show ?thesis
    using send_loop_obliged [OF assms(1,3,5) inv assms(4) assms(6) [symmetric] assms(7,8) size]
    by (auto simp: send_on_connection_loop [OF assms(4)] table_inv_def)
qed

lemma takes_all_obliging: "takes_all (scripted obliging)"
  by (simp add: takes_all_def)

theorem send_loop_delivers_witness:
  "\<exists>w'. send_on_connection (scripted obliging) 7 0 (boot (solo 7 1 NOT_RESOLVED)) = Some (Inr (), w') \<and>
     sent_on 7 (trace w') = [[4, 0, 0, 0, 0, 9]] \<and> pool (hnd w') = [Held 0]"
proof -
  let ?w = "boot (solo 7 1 NOT_RESOLVED)"
  have r: "1 = unat (requested_tasks (conn (hnd ?w) 0))" "1 \<le> unat (num_not_resolved (hnd ?w))"
    "1 \<le> room (hnd ?w) 0" "sizeof_header + unat (task_size (hnd ?w)) < 256"
    and m: "map (task_message (hnd ?w)) (take 1 (todo (pool (hnd ?w)))) = [[4, 0, 0, 0, 0, 9]]"
    and p: "fold (\<lambda>t p. p[t := Held 0]) (take 1 (todo (pool (hnd ?w)))) (pool (hnd ?w)) = [Held 0]"
    by code_simp+
  have "server_inv (hnd ?w)" by (simp add: solo_inv)
  from send_loop_delivers [OF takes_all_obliging this _ _ _ r, of 7] m p show ?thesis
    by (auto simp: sent_on_def)
qed

text \<open>
  C15: an \<open>EPOLLOUT\<close> event for a connection with an open request, when no task is to do, stops
  the whole server with "Greedy client detected", although tasks that other connections hold may
  still come back.
\<close>

theorem open_request_without_task_is_fatal:
  assumes "server_inv (hnd w)" and "i < length (client_conns (hnd w))"
    and "socket_fd (conn (hnd w) i) = fd" and "fd \<noteq> -1"
    and "requested_tasks (conn (hnd w) i) \<noteq> 0" and "num_not_resolved (hnd w) = 0"
  shows "send_on_connection E fd i w = Some (Inl (Bug ''Greedy client detected''), w)"
proof -
  have core: "core_inv (hnd w)" and q: "quiet (conn (hnd w) i)"
    using assms(1,2) by (simp_all add: server_inv_def)
  have now: "now_sending_task_i (conn (hnd w) i) = -1" using q assms(3,4) by (simp add: quiet_def)
  have "wpg False (send_round E i) (\<lambda>_ _. False) (\<lambda>e w'. e = Bug ''Greedy client detected'' \<and> w' = w) w"
    using assms(5,6) now
    by (simp add: send_round_def wpg_bind wpg_get wpg_andthen wpg_pick_task [OF core] Let_def)
  then have "send_round E i w = Some (Inl (Bug ''Greedy client detected''), w)"
    by (auto dest: wpg_stopped)
  then show ?thesis
    by (simp add: send_on_connection_loop [OF assms(3)], subst loop_unfold, simp add: bind_def)
qed

theorem open_request_without_task_is_fatal_witness:
  "send_on_connection (scripted obliging) 7 0 (boot (solo 7 1 COMPLETED)) =
     Some (Inl (Bug ''Greedy client detected''), boot (solo 7 1 COMPLETED))"
proof -
  have "num_not_resolved (solo 7 1 COMPLETED) = 0" by code_simp
  then show ?thesis by (intro open_request_without_task_is_fatal) (simp_all add: solo_inv)
qed

text \<open>
  C16: when the peer's receive window stays full, so that every \<open>send\<close> reports \<open>EAGAIN\<close>, the send
  loop never returns to the event loop: \<open>ERR_NOT_READY\<close> continues the inner loop, and the server
  spins on this one connection.
\<close>

theorem full_window_blocks_server:
  assumes "refuses E" and "server_inv (hnd w)" and "i < length (client_conns (hnd w))"
    and "socket_fd (conn (hnd w) i) = fd" and "fd \<noteq> -1"
    and "requested_tasks (conn (hnd w) i) \<noteq> 0" and "num_not_resolved (hnd w) \<noteq> 0"
    and "0 < room (hnd w) i" and "sizeof_header + unat (task_size (hnd w)) < 256"
  shows "send_on_connection E fd i w = None"
proof -
  have inv: "table_inv (length (client_conns (hnd w))) (hnd w) (hnd w)"
    using assms(2) by (simp add: table_inv_def)
  obtain w1 where w1: "loop (send_round E i) w = loop (send_round E i) w1"
    "send_inv (length (client_conns (hnd w))) (hnd w) i (hnd w1)" "sending (conn (hnd w1) i)"
    "task_size (hnd w1) = task_size (hnd w)"
    using send_loop_start [OF inv assms(3) _ assms(6-8), of E] assms(4,5) by blast
  have "unat (task_size (hnd w1)) < 251" using assms(9) by (simp add: w1(4) sizeof_header_def)
  from send_loop_refused [OF assms(1) w1(2) assms(3) w1(3) this]
  show ?thesis by (simp add: send_on_connection_loop [OF assms(4)] w1(1))
qed

theorem full_window_blocks_server_witness:
  "send_on_connection (scripted stuffed) 7 0 (boot (solo 7 1 NOT_RESOLVED)) = None"
proof -
  have "num_not_resolved (solo 7 1 NOT_RESOLVED) \<noteq> 0" "0 < room (solo 7 1 NOT_RESOLVED) 0" by code_simp+
  then show ?thesis
    by (intro full_window_blocks_server) (simp_all add: solo_inv refuses_def sizeof_header_def)
qed

text \<open>
  C17: when the peer is gone (\<open>send\<close> reports \<open>EPIPE\<close>), the connection is dropped, but the send loop
  goes on with the dropped connection's stale state and then reads the caller's task buffer
  far out of its bounds, at the task id -1 that marks an empty cell.
\<close>

theorem broken_pipe_reads_out_of_bounds:
  assumes "broken E" and "server_inv (hnd w)" and "i < length (client_conns (hnd w))"
    and "socket_fd (conn (hnd w) i) = fd" and "fd \<noteq> -1"
    and "requested_tasks (conn (hnd w) i) \<noteq> 0" and "num_not_resolved (hnd w) \<noteq> 0"
    and "0 < room (hnd w) i" and "sizeof_header + unat (task_size (hnd w)) < 256"
  shows "\<exists>w'. send_on_connection E fd i w = Some (Inl (Undef ''user_tasks out of bounds''), w')"
proof -
  have inv: "table_inv (length (client_conns (hnd w))) (hnd w) (hnd w)"
    using assms(2) by (simp add: table_inv_def)
  obtain w1 where w1: "loop (send_round E i) w = loop (send_round E i) w1"
    "send_inv (length (client_conns (hnd w))) (hnd w) i (hnd w1)" "sending (conn (hnd w1) i)"
    "task_size (hnd w1) = task_size (hnd w)"
    using send_loop_start [OF inv assms(3) _ assms(6-8), of E] assms(4,5) by blast
  have "unat (task_size (hnd w1)) < 251" using assms(9) by (simp add: w1(4) sizeof_header_def)
  from send_loop_broken [OF assms(1) w1(2) assms(3) w1(3) this]
  show ?thesis by (simp add: send_on_connection_loop [OF assms(4)] w1(1))
qed

theorem broken_pipe_reads_out_of_bounds_witness:
  "\<exists>w'. send_on_connection (scripted hung_up) 7 0 (boot (solo 7 1 NOT_RESOLVED)) =
     Some (Inl (Undef ''user_tasks out of bounds''), w')"
proof -
  have "num_not_resolved (solo 7 1 NOT_RESOLVED) \<noteq> 0" "0 < room (solo 7 1 NOT_RESOLVED) 0" by code_simp+
  then show ?thesis
    by (intro broken_pipe_reads_out_of_bounds) (simp_all add: solo_inv broken_def sizeof_header_def)
qed

section \<open>Connections\<close>

text \<open>
  C18: accepting keeps count: when a request is accepted, the socket takes the first free cell,
  \<open>num_clients\<close> is the number of open connections before and after, and the invariant holds.
  When there is no request, nothing changes. When every cell is taken, accepting one more
  connection never returns: the process stops.
\<close>

theorem accept_spec:
  assumes "server_inv (hnd w)"
  shows "case accept_incoming_connection_request E w of
      None \<Rightarrow> False
    | Some (Inl e, w') \<Rightarrow> orderly e
    | Some (Inr r, w') \<Rightarrow> server_inv (hnd w') \<and>
        unat (num_clients (hnd w')) = conn_table.used (client_conns (hnd w')) \<and>
        (if r = 0 then conn_table.used (client_conns (hnd w)) < length (client_conns (hnd w)) \<and>
             conn_table.used (client_conns (hnd w')) = Suc (conn_table.used (client_conns (hnd w)))
         else hnd w' = hnd w)"
proof -
  have core: "core_inv (hnd w)" using assms by (simp add: server_inv_def)
  have inv: "table_inv (length (client_conns (hnd w))) (hnd w) (hnd w)"
    using assms by (simp add: table_inv_def)
  have post: "server_inv h' \<and> unat (num_clients h') = conn_table.used (client_conns h') \<and>
      (if r = 0 then conn_table.used (client_conns (hnd w)) < length (client_conns (hnd w)) \<and>
           conn_table.used (client_conns h') = Suc (conn_table.used (client_conns (hnd w)))
       else h' = hnd w)" if a: "accepted (hnd w) r h'" for r h'
  proof -
    have i': "table_inv (length (client_conns (hnd w))) (hnd w) h'" by (rule table_inv_accepted [OF inv a])
    have more: "conn_table.used (client_conns (hnd w)) < length (client_conns (hnd w)) \<and>
        conn_table.used (client_conns h') = Suc (conn_table.used (client_conns (hnd w)))" if zero: "r = 0"
    proof -
      obtain fd i where f: "fd \<noteq> -1" "find_index (\<lambda>c. socket_fd c = -1) (client_conns (hnd w)) = Some i"
        and h': "h' = add_connection fd i (hnd w)"
        using a zero by (auto simp: accepted_def)
      have "conn_table.used (client_conns h') = Suc (conn_table.used (client_conns (hnd w)))"
        using conn_table.used_acquire [OF f(2,1)]
        by (simp add: h' add_connection_def set_conn_def open_connection_def conn_def)
      with conn_table.used_acquire_less [OF f(2)] show ?thesis by simp
    qed
    have "h' = hnd w" if "r \<noteq> 0" using a that by (auto simp: accepted_def)
    with i' more core_inv_clients [OF table_inv_core [OF i']] show ?thesis
      by (auto simp: table_inv_def)
  qed
  show ?thesis
    using wpg_accept [OF core, of False E] post
    by (auto simp: wpg_def split: option.splits sum.splits)
qed

theorem accept_spec_witness:
  "\<exists>w'. accept_incoming_connection_request (scripted obliging) (boot (solo (-1) 0 NOT_RESOLVED)) =
       Some (Inr 0, w') \<and> server_inv (hnd w') \<and> unat (num_clients (hnd w')) = 1"
proof -
  let ?w = "boot (solo (-1) 0 NOT_RESOLVED)"
  have "map_option fst (accept_incoming_connection_request (scripted obliging) ?w) = Some (Inr 0)"
    by code_simp
  then obtain w' where w': "accept_incoming_connection_request (scripted obliging) ?w = Some (Inr 0, w')"
    by auto
  have u: "conn_table.used (client_conns (hnd ?w)) = 0" by (simp add: conn_table.used_def)
  have "server_inv (hnd ?w)" by (simp add: solo_inv)
  from accept_spec [OF this, of "scripted obliging"] show ?thesis unfolding w' u by simp
qed

text \<open>
  C19: a connection request that arrives while the table is full (it can: the listening socket
  is drained in a loop, and \<open>accept4\<close> is only stopped for the next round of \<open>epoll_wait\<close>) stops
  the server: no cell is free, and pausing the accept socket a second time fails first or
  \<open>BUG_ON\<close> strikes.
\<close>

theorem accept_on_full_table_is_fatal:
  assumes "server_inv (hnd w)" and "num_clients (hnd w) = max_clients (hnd w)"
    and "r_ret (sys E (trace w) (Accept4 (accept_socket_fd (hnd w)) SOCK_NONBLOCK)) \<noteq> -1"
  shows "\<exists>e w'. accept_incoming_connection_request E w = Some (Inl e, w') \<and>
    (e = Bug ''No free cell in the connection array'' \<or> (\<exists>msg. e = Fatal msg))"
proof -
  let ?S = "\<lambda>e w'. e = Bug ''No free cell in the connection array'' \<or> (\<exists>msg. e = Fatal msg)"
  have core: "core_inv (hnd w)" using assms(1) by (simp add: server_inv_def)
  have "conn_table.used (client_conns (hnd w)) = length (client_conns (hnd w))"
    using core_inv_clients [OF core] core_inv_table [OF core] assms(2) by simp
  then have full: "find_index (\<lambda>c. socket_fd c = -1) (client_conns (hnd w)) = None"
    by (simp add: conn_table.search_fails_iff_full)
  have reg: "wpg False (register_connection E fd) (\<lambda>_ _. False) ?S w'" if "hnd w' = hnd w" for w' :: "server world" and fd
    using that full core_inv_table [OF core] assms(2)
    by (simp add: register_connection_def wp pause_connection_management_routine_def)
  have conf: "wpg False (configure_connection E fd) (\<lambda>_ w'. wpg False (register_connection E fd) (\<lambda>_ _. False) ?S w') ?S w'"
    if "hnd w' = hnd w" for w' :: "server world" and fd
    using that by (simp add: configure_connection_def wp reg)
  have "wpg False (accept_incoming_connection_request E) (\<lambda>_ _. False) ?S w"
    using assms(3) conf
    by (simp add: accept_incoming_connection_request_def wpg_bind wpg_get wpg_call wpg_andthen answers_def)
  then show ?thesis by (auto dest: wpg_stopped)
qed

theorem accept_on_full_table_is_fatal_witness:
  "\<exists>e w'. accept_incoming_connection_request (scripted obliging) (boot (solo 7 0 NOT_RESOLVED)) = Some (Inl e, w') \<and>
    (e = Bug ''No free cell in the connection array'' \<or> (\<exists>msg. e = Fatal msg))"
  by (rule accept_on_full_table_is_fatal) (simp_all add: solo_inv, simp add: solo_def)

text \<open>
  C20: a hang-up of a connection gives its tasks back and closes it; the other connections are
  untouched. But if it was the last one, the process exits with success, whether or not every
  task is done.
\<close>

theorem hangup_spec:
  assumes "server_inv (hnd w)" and "i < length (client_conns (hnd w))"
    and "socket_fd (conn (hnd w) i) = fd" and "fd \<noteq> -1"
    and "\<forall>tr ep op f. r_ret (sys E tr (EpollCtl ep op f)) \<noteq> -1"
    and "\<forall>tr f. r_ret (sys E tr (Close f)) \<noteq> -1"
  shows "\<exists>w'. hangup_connection E fd i w =
      Some (if num_clients (hnd w) = 1 then Inl Quit else Inr (), w') \<and> server_inv (hnd w') \<and>
    pool (hnd w') = map (\<lambda>p. if p = Held i then Todo else p) (pool (hnd w)) \<and>
    socket_fd (conn (hnd w') i) = -1 \<and>
    (\<forall>k < length (client_conns (hnd w)). k \<noteq> i \<longrightarrow> conn (hnd w') k = conn (hnd w) k)"
proof -
  let ?h = "remove_connection i (drop_tasks i (hnd w))"
  have inv: "table_inv (length (client_conns (hnd w))) (hnd w) (hnd w)" and core: "core_inv (hnd w)"
    using assms(1) by (simp_all add: table_inv_def server_inv_def)
  have live: "socket_fd (conn (hnd w) i) \<noteq> -1" using assms(3,4) by simp
  have frame: "pool (h\<lparr>num_clients := x\<rparr>) = pool h" for h x
    by (rule pool_frame) (simp_all add: statuses_def cells_def)
  have fields: "num_clients ?h = num_clients (hnd w) - 1" "pool ?h = pool (drop_tasks i (hnd w))"
    using assms(2) drop_tasks_effect [OF core assms(2)]
    by (simp_all add: remove_connection_def pool_set_conn frame)
  have gone: "wpg False (delete_connection E i) (\<lambda>_ w'. hnd w' = remove_connection i (hnd w1))
      (\<lambda>_ _. False) w1" for w1 :: "server world"
    using assms(5,6) by (auto simp: delete_connection_def wp start_connection_management_routine_def
        answers_def remove_connection_def set_conn_def conn_def)
  have run: "wpg False (hangup_connection E fd i)
      (\<lambda>_ w'. num_clients (hnd w) \<noteq> 1 \<and> hnd w' = ?h)
      (\<lambda>e w'. num_clients (hnd w) = 1 \<and> e = Quit \<and> hnd w' = ?h) w"
    using assms(3)
    by (simp add: hangup_connection_def wpg_bind wpg_get wpg_block wpg_andthen wpg_return wpg_drop_resolving_tasks [OF core assms(2)])
      (rule wpg_mono [OF gone], auto simp: wp fields)
  have "\<exists>w'. hangup_connection E fd i w = Some (if num_clients (hnd w) = 1 then Inl Quit else Inr (), w') \<and> hnd w' = ?h"
    using run
    by (cases "hangup_connection E fd i w"; cases "fst (the (hangup_connection E fd i w))")
      (auto simp: wpg_def)
  moreover have "server_inv ?h" using table_inv_lose [OF inv assms(2) live] by (simp add: table_inv_def)
  ultimately show ?thesis
    using fields pool_drop_tasks(1) [OF core assms(2)] drop_and_delete [OF core assms(2) live] by auto
qed

theorem hangup_spec_witness:
  "\<exists>w'. hangup_connection (scripted obliging) 7 0 (boot (solo 7 0 NOT_RESOLVED)) = Some (Inl Quit, w') \<and>
     pool (hnd w') = [Todo]"
proof -
  have "pool (solo 7 0 NOT_RESOLVED) = [Todo]" "num_clients (solo 7 0 NOT_RESOLVED) = 1" by code_simp+
  then show ?thesis
    using hangup_spec [of "boot (solo 7 0 NOT_RESOLVED)" 0 7 "scripted obliging"] by (auto simp: solo_inv)
qed



section \<open>Discovery\<close>

text \<open>
  C22: on a readable discovery socket the server takes the queued datagrams one after the other,
  and answers with one "I am here" broadcast exactly when one of them is the clients' discovery
  datagram; then it stops reading. The reading always ends on a finite queue.
\<close>

theorem discovery_answers_once:
  assumes "queued E (trace w) (discovery_socket_fd (hnd w)) (of_nat CLIENTS_DISCOVERY_DATAGRAM_SIZE) rs"
  shows "\<exists>w'. answer_clients_discovery_datagram E w = Some (Inr (), w') \<and> hnd w' = hnd w \<and>
    sentto (trace w') = sentto (trace w) @
      (if \<exists>r \<in> set rs. is_datagram CLIENTS_DISCOVERY_DATAGRAM r
       then [Sendto (discovery_socket_fd (hnd w)) SERVERS_DISCOVERY_DATAGRAM MSG_NOSIGNAL
               (broadcast_addr (hnd w))] else [])"
  unfolding answer_clients_discovery_datagram_def by (rule answer_loop_queued [OF assms])

text \<open>The kernel of the witness: a short datagram, then the right one.\<close>

definition two_datagrams :: env where
  "two_datagrams = (scripted obliging)\<lparr>sys := \<lambda>tr c. (case c of
     Sendto fd bs fl a \<Rightarrow> answer (int (length bs))
   | _ \<Rightarrow> if length tr = 0 then (answer 2)\<lparr>r_data := [1, 2]\<rparr>
     else if length tr = 1 then (answer 31)\<lparr>r_data := CLIENTS_DISCOVERY_DATAGRAM\<rparr>
     else answer (-1))\<rparr>"

theorem discovery_answers_once_witness:
  "\<exists>w'. answer_clients_discovery_datagram two_datagrams (boot (solo 7 0 NOT_RESOLVED)) = Some (Inr (), w') \<and>
     sentto (trace w') = [Sendto 3 SERVERS_DISCOVERY_DATAGRAM MSG_NOSIGNAL
       \<lparr>sin_family = AF_INET, s_addr = 0, sin_port = 0\<rparr>]"
proof -
  let ?w = "boot (solo 7 0 NOT_RESOLVED)"
  let ?rs = "[(answer 2)\<lparr>r_data := [1, 2]\<rparr>, (answer 31)\<lparr>r_data := CLIENTS_DISCOVERY_DATAGRAM\<rparr>]"
  have d: "discovery_socket_fd (hnd ?w) = 3"
    "broadcast_addr (hnd ?w) = \<lparr>sin_family = AF_INET, s_addr = 0, sin_port = 0\<rparr>"
    by (simp_all add: solo_def)
  have q: "queued two_datagrams (trace ?w) (discovery_socket_fd (hnd ?w))
      (of_nat CLIENTS_DISCOVERY_DATAGRAM_SIZE) ?rs"
    by (simp add: two_datagrams_def)
  have m: "\<exists>r \<in> set ?rs. is_datagram CLIENTS_DISCOVERY_DATAGRAM r"
    by code_simp
  show ?thesis using discovery_answers_once [OF q] unfolding if_P [OF m] d by (auto simp: sentto_def)
qed

section \<open>De-initialisation and encoding\<close>

text \<open>
  C23: \<open>free_connection_management_routine\<close> frees the receive buffer and the task list of a cell
  only while its connection is open: the blocks of a cell whose connection was closed, or that
  never was used, are not among the calls it makes.
\<close>

theorem closed_connections_leak:
  assumes "i < unat (max_clients (hnd w))" and "socket_fd (conn (hnd w) i) = -1"
    and "free_connection_management_routine E w = Some (r, w')"
    and "Free (RecvBuffer i) \<notin> fst ` set (trace w)" and "Free (TaskList i) \<notin> fst ` set (trace w)"
  shows "Free (RecvBuffer i) \<notin> fst ` set (trace w') \<and> Free (TaskList i) \<notin> fst ` set (trace w')"
proof -
  let ?I = "\<lambda>w'. hnd w' = hnd w \<and> Free (RecvBuffer i) \<notin> fst ` set (trace w') \<and>
    Free (TaskList i) \<notin> fst ` set (trace w')"
  have body: "wpg False (free_connection E k) (\<lambda>_. ?I) (\<lambda>_. ?I) w1" if "?I w1" for k and w1 :: "server world"
    using that assms(2) by (auto simp: free_connection_def wp)
  have each: "wpg False (for_each is (free_connection E)) Q (\<lambda>_. ?I) w1"
    if "?I w1" "\<And>w2. ?I w2 \<Longrightarrow> Q () w2" for "is" Q and w1 :: "server world"
    by (rule wpg_for_each [where I = ?I]) (use that body in auto)
  have "wpg False (free_connection_management_routine E) (\<lambda>_. ?I) (\<lambda>_. ?I) w"
    unfolding free_connection_management_routine_def
    using assms(4,5) by (auto simp: wp intro!: each)
  then show ?thesis using assms(3) by (auto simp: wpg_def split: sum.splits)
qed

theorem closed_connections_leak_witness:
  "\<exists>r w'. free_connection_management_routine (scripted obliging) (boot (solo (-1) 0 COMPLETED)) = Some (r, w') \<and>
     Free (RecvBuffer 0) \<notin> fst ` set (trace w') \<and> Free (TaskList 0) \<notin> fst ` set (trace w')"
proof -
  let ?w = "boot (solo (-1) 0 COMPLETED)"
  have "map_option fst (free_connection_management_routine (scripted obliging) ?w) = Some (Inr ())"
    by code_simp
  then obtain r w' where w': "free_connection_management_routine (scripted obliging) ?w = Some (r, w')"
    by (auto simp: map_option_case split: option.splits)
  have "0 < unat (max_clients (hnd ?w))" by (simp add: solo_def)
  from closed_connections_leak [OF this _ w'] w' show ?thesis by simp
qed

text \<open>
  C24: a header goes over the wire as the command and the task id in network byte order, and
  the receiver reads back what the sender put in, whatever the byte orders of the two hosts and
  whatever follows the header.
\<close>

theorem header_round_trip:
  "header_bytes e \<lparr>cmd = c, task_id = htobe32 e t\<rparr> = c # be_bytes t \<and>
   parse_header e' (header_bytes e \<lparr>cmd = c, task_id = htobe32 e t\<rparr> @ rest) =
     \<lparr>cmd = c, task_id = t\<rparr>"
  by (simp add: header_bytes_be parse_header_be)

end
