(* ===== verification/ClientState.thy ===== *)
theory ClientState
  imports Wire SlotTable Contract
begin

text \<open>
  cluster-api/ClusterClient.h: the client's state. A pointer into the task buffer or the result
  buffer is an offset into its contents; the computation function maps the bytes of a task to
  the bytes of its result, and stands for the function the user passes.
\<close>

record connection =
  socket_fd :: int
  recv_buffer :: "u8 list"
  bytes_recieved :: size_t

record compute_info =
  data_pack :: nat
  ret_pack :: nat

text \<open>The processor set of a thread has at most one element, the processor it runs on.\<close>

record thread_info =
  empty :: bool
  in_args :: compute_info
  thread_func :: "u8 list \<Rightarrow> u8 list"
  thread_id :: int
  cpu :: int
  thread_task :: u32
  event_fd :: int
  waiting_to_be_sent :: bool

record client =
  epoll_fd :: int
  server_hostname :: "string option"
  local_discovery :: bool
  discovery_socket_fd :: int
  discovery_timer_fd :: int
  broadcast_addr :: sockaddr_in
  server_conn :: connection
  server_addr :: sockaddr_in
  initial_requests :: size_t
  thread_manager :: "thread_info list"
  max_threads :: size_t
  task_buffer :: "u8 list"
  task_size :: size_t
  ret_buffer :: "u8 list"
  ret_size :: size_t
  max_cpu :: int
  cache_line_size :: int
  computation_func :: "u8 list \<Rightarrow> u8 list"

definition thread :: "client \<Rightarrow> nat \<Rightarrow> thread_info" where
  [handle_defs]: "thread h i = thread_manager h ! i"

definition set_thread :: "nat \<Rightarrow> (thread_info \<Rightarrow> thread_info) \<Rightarrow> client \<Rightarrow> client" where
  [handle_defs]: "set_thread i f h = h\<lparr>thread_manager := (thread_manager h)[i := f (thread h i)]\<rparr>"

definition thread_indices :: "client \<Rightarrow> nat list" where
  "thread_indices h = [0..<unat (max_threads h)]"

definition set_server_conn :: "(connection \<Rightarrow> connection) \<Rightarrow> client \<Rightarrow> client" where
  "set_server_conn f h = h\<lparr>server_conn := f (server_conn h)\<rparr>"

text \<open>The size of a message from the server: the header and one task.\<close>

definition client_recv_buffer_size :: "client \<Rightarrow> size_t" where
  "client_recv_buffer_size h = of_nat sizeof_header + task_size h"

text \<open>The distance between two threads' regions in a buffer.\<close>

definition task_stride :: "client \<Rightarrow> size_t" where
  "task_stride h = task_size h + word_of_int (cache_line_size h)"

definition ret_stride :: "client \<Rightarrow> size_t" where
  "ret_stride h = ret_size h + word_of_int (cache_line_size h)"

text \<open>The thread table as a table of cells: a cell is free while \<open>empty\<close> is set.\<close>

interpretation threads: slot_table
  empty "\<lambda>_ :: unit. True" "\<lambda>_ t. t\<lparr>empty := False\<rparr>" "\<lambda>t. t\<lparr>empty := True\<rparr>"
  by unfold_locales simp_all

end
