(* ===== verification/ClientDiscovery.thy ===== *)
theory ClientDiscovery
  imports ClientState Datagram
begin

text \<open>
  The connection set-up and the discovery process of cluster-api/cluster-client.c: the client
  broadcasts "where are you" datagrams by a timer until a server answers, then connects to the
  server that answered; with a host name it connects to the host at once, and waits while the
  connection is refused.
\<close>

section \<open>Discovery: set-up and tear-down\<close>

definition client_init_discovery :: "env \<Rightarrow> (client, unit) prog" where
  "client_init_discovery E =
     bind (get local_discovery) (\<lambda>loc.
     if \<not> loc then return ()
     else bind (must E (Socket AF_INET (SOCK_DGRAM OR SOCK_NONBLOCK) 0) ''socket() failed'') (\<lambda>sock_fd.
     block
      [must_ok E (Setsockopt sock_fd SOL_SOCKET SO_BROADCAST (IntVal 1)) ''setsockopt() failed'',
       must_ok E (Bind sock_fd \<lparr>sin_family = AF_INET,
           s_addr = htonl (host E) INADDR_BROADCAST,
           sin_port = htons (host E) DISCOVERY_CLIENT_PORT\<rparr>) ''Unable to bind()'',
       modify (\<lambda>h. h\<lparr>broadcast_addr := \<lparr>sin_family = AF_INET,
           s_addr = htonl (host E) INADDR_BROADCAST,
           sin_port = htons (host E) DISCOVERY_SERVER_PORT\<rparr>\<rparr>),
       modify (\<lambda>h. h\<lparr>discovery_socket_fd := sock_fd\<rparr>),
       bind (must E TimerfdCreate ''Unable to create timer file descriptor'') (\<lambda>timer_fd. block
        [must_ok E (TimerfdSettime timer_fd 0 0) ''Unable to configure a timer file descriptor'',
         modify (\<lambda>h. h\<lparr>discovery_timer_fd := timer_fd\<rparr>)])]))"

definition client_free_discovery :: "env \<Rightarrow> (client, unit) prog" where
  "client_free_discovery E =
     bind (get local_discovery) (\<lambda>loc.
     if \<not> loc then return ()
     else block
      [bind (get discovery_socket_fd) (\<lambda>fd. must_ok E (Close fd) ''Unable to close socket''),
       bind (get discovery_timer_fd) (\<lambda>fd. must_ok E (Close fd)
         ''Unable to close timer-assosiated file descriptor'')])"

text \<open>The two numbers of \<open>TimerfdSettime\<close> are the interval and the first expiration, in seconds.\<close>

definition client_start_discovery :: "env \<Rightarrow> (client, unit) prog" where
  "client_start_discovery E =
     bind (get local_discovery) (\<lambda>loc.
     if \<not> loc then return ()
     else bind (get epoll_fd) (\<lambda>epfd.
          bind (get discovery_socket_fd) (\<lambda>sock_fd.
          bind (get discovery_timer_fd) (\<lambda>timer_fd. block
      [must_ok E (EpollCtl epfd (CTL_ADD EPOLLIN sock_fd) sock_fd)
         ''Unable to register socket file descriptor for epoll'',
       must_ok E (EpollCtl epfd (CTL_ADD EPOLLIN timer_fd) timer_fd)
         ''Unable to register timer file descriptor for epoll'',
       must_ok E (TimerfdSettime timer_fd DISCOVERY_REPEAT_INTERVAL 1)
         ''Unable to configure a timer file descriptor'']))))"

definition client_pause_discovery :: "env \<Rightarrow> (client, unit) prog" where
  "client_pause_discovery E =
     bind (get local_discovery) (\<lambda>loc.
     andthen (bug_on (\<not> loc) ''Unneeded phase for distant discovery'')
     (bind (get epoll_fd) (\<lambda>epfd.
      bind (get discovery_socket_fd) (\<lambda>sock_fd.
      bind (get discovery_timer_fd) (\<lambda>timer_fd. block
      [must_ok E (EpollCtl epfd CTL_DEL sock_fd) ''Unable to delete socket file descriptor from epoll'',
       must_ok E (EpollCtl epfd CTL_DEL timer_fd) ''Unable to delete timer file descriptor from epoll'',
       must_ok E (TimerfdSettime timer_fd 0 0) ''Unable to configure a timer file descriptor''])))))"

definition perform_discovery_send :: "env \<Rightarrow> (client, unit) prog" where
  "perform_discovery_send E =
     bind (get local_discovery) (\<lambda>loc.
     andthen (bug_on (\<not> loc) ''Unneeded phase for distant discovery'')
     (bind (get discovery_socket_fd) (\<lambda>sock_fd.
      bind (get broadcast_addr) (\<lambda>addr.
      bind (call E (Sendto sock_fd CLIENTS_DISCOVERY_DATAGRAM MSG_NOSIGNAL addr)) (\<lambda>r.
      andthen (fail_if (r_ret r \<noteq> int CLIENTS_DISCOVERY_DATAGRAM_SIZE)
                 ''Unable to broadcast discovery datagram'')
      (bind (get discovery_timer_fd) (\<lambda>timer_fd.
       must_ok E (Read timer_fd 8) ''Unable to perform read on timer file descriptor'')))))))"

section \<open>Connecting to the server\<close>

text \<open>One round of the loop around \<open>connect\<close>: the socket, or \<open>-1\<close> when the address is given up.\<close>

definition connect_round :: "env \<Rightarrow> int \<Rightarrow> sockaddr_in \<Rightarrow> (client, int option) prog" where
  "connect_round E sock_fd addr =
     bind (call E (Connect sock_fd addr)) (\<lambda>r.
     if r_ret r = -1
     then (if r_errno r = ECONNREFUSED
           then andthen (call E (Nanosleep 1)) (return None)
           else andthen (call E (Close sock_fd)) (return (Some (-1))))
     else return (Some sock_fd))"

definition try_address :: "env \<Rightarrow> addrinfo \<Rightarrow> (client, int option) prog" where
  "try_address E ai =
     bind (call E (Socket (ai_family ai) (ai_socktype ai) (ai_protocol ai))) (\<lambda>r.
     if r_ret r = -1 then return None
     else bind (loop (connect_round E (r_ret r) (ai_addr ai)))
            (\<lambda>fd. return (if fd = -1 then None else Some fd)))"

definition connect_distant :: "env \<Rightarrow> (client, unit) prog" where
  "connect_distant E =
     bind (get server_hostname) (\<lambda>name.
     bind (call E (Getaddrinfo (case name of Some s \<Rightarrow> s | None \<Rightarrow> []))) (\<lambda>r.
     andthen (fail_if (r_ret r \<noteq> 0) ''Unable to call getaddrinfo()'')
     (bind (for_until (r_addrs r) (try_address E)) (\<lambda>found.
      case found of
        None \<Rightarrow> halt (Fatal ''Unable to aquire socket via getaddrinfo()'')
      | Some fd \<Rightarrow> modify (set_server_conn (\<lambda>c. c\<lparr>socket_fd := fd\<rparr>))))))"

definition connect_local :: "env \<Rightarrow> (client, unit) prog" where
  "connect_local E =
     bind (must E (Socket AF_INET SOCK_STREAM IPPROTO_TCP) ''Unable to create socket'') (\<lambda>sock_fd.
     bind (get server_addr) (\<lambda>addr. block
      [must_ok E (Connect sock_fd addr) ''Unable to connect to server'',
       modify (set_server_conn (\<lambda>c. c\<lparr>socket_fd := sock_fd\<rparr>))]))"

text \<open>The call of \<open>fcntl\<close> with the command \<open>F_SETFD\<close>, as the code has it.\<close>

definition configure_server_conn :: "env \<Rightarrow> int \<Rightarrow> (client, unit) prog" where
  "configure_server_conn E fd =
     block
      [must_ok E (Fcntl fd ''F_SETFD'' O_NONBLOCK) ''Unable to switch socket into non-blocking mode'',
       must_ok E (Setsockopt fd SOL_SOCKET SO_KEEPALIVE (IntVal 1))
         ''Unable to set SO_KEEPALIVE socket option'',
       must_ok E (Setsockopt fd IPPROTO_TCP_LEVEL TCP_KEEPIDLE (IntVal TCP_KEEPALIVE_IDLE_TIME))
         ''Unable to set TCP_KEEPIDLE socket option'',
       must_ok E (Setsockopt fd IPPROTO_TCP_LEVEL TCP_KEEPINTVL (IntVal TCP_KEEPALIVE_INTERVAL))
         ''Unable to set TCP_KEEPINTVL socket option'',
       must_ok E (Setsockopt fd IPPROTO_TCP_LEVEL TCP_KEEPCNT (IntVal TCP_KEEPALIVE_NUM_PROBES))
         ''Unable to set TCP_KEEPCNT socket option'',
       must_ok E (Setsockopt fd IPPROTO_TCP_LEVEL TCP_USER_TIMEOUT (IntVal TCP_NO_SEND_ACKS_TIMEOUT))
         ''Unable to set TCP_USER_TIMEOUT socket option'',
       must_ok E (Setsockopt fd SOL_SOCKET SO_LINGER (LingerVal 1 0))
         ''Unable to disable SO_LINGER socket option'',
       must_ok E (Setsockopt fd IPPROTO_TCP_LEVEL TCP_LINGER2 (IntVal 0))
         ''Unable to disable TCP_LINGER2 socket option'',
       must_ok E (Setsockopt fd IPPROTO_TCP_LEVEL TCP_NODELAY (IntVal 0))
         ''Unable to disable TCP_NODELAY socket option'',
       must_ok E (Setsockopt fd IPPROTO_TCP_LEVEL TCP_CORK (IntVal 0))
         ''Unable to disable TCP_CORK socket option'']"

definition client_start_connection :: "env \<Rightarrow> (client, unit) prog" where
  "client_start_connection E =
     bind (get local_discovery) (\<lambda>loc.
     andthen (if loc then connect_local E else connect_distant E)
     (bind (get (\<lambda>h. socket_fd (server_conn h))) (\<lambda>fd.
      bind (get epoll_fd) (\<lambda>epfd. block
       [configure_server_conn E fd,
        must_ok E (EpollCtl epfd (CTL_ADD (EPOLLIN OR EPOLLOUT OR EPOLLHUP) fd) fd)
          ''Unable to register connection socket for epoll'']))))"

section \<open>Catching the server's answer\<close>

definition catch_round :: "env \<Rightarrow> (client, unit option) prog" where
  "catch_round E =
     bind (get discovery_socket_fd) (\<lambda>fd.
     bind (call E (Recvfrom fd (of_nat SERVERS_DISCOVERY_DATAGRAM_SIZE) 0)) (\<lambda>r.
     andthen (fail_if (r_ret r = -1 \<and> r_errno r \<noteq> EAGAIN \<and> r_errno r \<noteq> EWOULDBLOCK)
                ''Unable to recieve discovery datagram'')
     (if is_datagram SERVERS_DISCOVERY_DATAGRAM r
      then andthen (block
       [modify (\<lambda>h. h\<lparr>server_addr := r_addr r\<rparr>),
        must_zero E (Getnameinfo (r_addr r)) ''Unable to call getnameinfo()'',
        client_start_connection E,
        client_pause_discovery E]) (return (Some ()))
      else return (if r_ret r \<noteq> -1 then None else Some ()))))"

definition catch_servers_discovery_datagram :: "env \<Rightarrow> (client, unit) prog" where
  "catch_servers_discovery_datagram E =
     bind (get local_discovery) (\<lambda>loc.
     andthen (bug_on (\<not> loc) ''Unneeded phase for distant discovery'')
     (loop (catch_round E)))"

end
