(* ===== verification/ClientConn.thy ===== *)
theory ClientConn
  imports ClientState
begin

text \<open>
  The messages of cluster-api/cluster-client.c: the receive buffer for one task, and the
  requests and results that go back.
\<close>

definition client_init_connection :: "env \<Rightarrow> (client, unit) prog" where
  "client_init_connection E =
     bind (get (\<lambda>h. task_size h + of_nat sizeof_header)) (\<lambda>n.
     andthen (alloc E (Malloc (RecvBuffer 0) n) ''Unable to allocate recv-buffer'')
     (bind (uninitialised E (unat n)) (\<lambda>mem. block
      [modify (set_server_conn (\<lambda>c. c\<lparr>recv_buffer := mem\<rparr>)),
       modify (set_server_conn (\<lambda>c. c\<lparr>bytes_recieved := 0\<rparr>))])))"

definition client_free_connection :: "env \<Rightarrow> (client, unit) prog" where
  "client_free_connection E =
     bind (get (\<lambda>h. socket_fd (server_conn h))) (\<lambda>fd. block
      [must_ok E (Close fd) ''Unable to free recv-buffer'',
       andthen (call E (Free (RecvBuffer 0))) (return ())])"

definition client_update_connection :: "env \<Rightarrow> bool \<Rightarrow> (client, unit) prog" where
  "client_update_connection E can_write =
     bind (get epoll_fd) (\<lambda>epfd.
     bind (get (\<lambda>h. socket_fd (server_conn h))) (\<lambda>fd.
     must_ok E (EpollCtl epfd
         (CTL_MOD (EPOLLHUP OR EPOLLIN OR (if can_write then EPOLLOUT else 0)) fd) fd)
       ''Unable to register connection socket for epoll''))"

text \<open>\<open>client_keep_data\<close> is the part of the read after \<open>recv\<close> delivered something.\<close>

definition client_keep_data :: "env \<Rightarrow> request_header \<Rightarrow> sysret \<Rightarrow> (client, request_header) prog" where
  "client_keep_data E header r =
     bind (get server_conn) (\<lambda>c.
     bind (get client_recv_buffer_size) (\<lambda>size.
     let n = nat (r_ret r); pos = unat (bytes_recieved c) in
     andthen (undef_if (length (recv_buffer c) < pos + n) ''recv past the end of recv_buffer'')
     (andthen (modify (set_server_conn (\<lambda>c. c\<lparr>
                 recv_buffer := blit (recv_buffer c) pos (fit n (r_data r)),
                 bytes_recieved := bytes_recieved c + word_of_int (r_ret r)\<rparr>)))
     (bind (get server_conn) (\<lambda>c'.
      if bytes_recieved c' = size
      then andthen (modify (set_server_conn (\<lambda>c. c\<lparr>bytes_recieved := 0\<rparr>)))
           (return (parse_header (host E) (recv_buffer c')))
      else return (header\<lparr>cmd := ERR_NOT_READY\<rparr>))))))"

definition client_read_data :: "env \<Rightarrow> request_header \<Rightarrow> (client, request_header) prog" where
  "client_read_data E header =
     bind (get server_conn) (\<lambda>c.
     bind (get client_recv_buffer_size) (\<lambda>size.
     bind (call E (Recv (socket_fd c) (size - bytes_recieved c) 0)) (\<lambda>r.
     if r_ret r = -1
     then (if r_errno r = EAGAIN \<or> r_errno r = EWOULDBLOCK
           then return (header\<lparr>cmd := ERR_NOT_READY\<rparr>)
           else halt (Fatal ''Unable to recv() command from server''))
     else if r_ret r = 0 then return (header\<lparr>cmd := ERR_CONN_BROKEN\<rparr>)
     else client_keep_data E header r)))"

text \<open>
  The payload that \<open>put_data_to_connection\<close> puts behind the header: the result of a computation,
  or whatever the uninitialised part of the send buffer holds (\<open>None\<close> stands for
  \<open>PUT_NO_DATA_TO_CONNECTION\<close>). Both need a send buffer that is large enough for a result,
  while the code's test is about the size of a task.
\<close>

definition put_payload :: "env \<Rightarrow> nat option \<Rightarrow> (client, u8 list) prog" where
  "put_payload E computation_i =
     bind (get ret_size) (\<lambda>n.
     andthen (undef_if (256 < sizeof_header + unat n) ''send_buffer overflow'')
     (case computation_i of
        None \<Rightarrow> uninitialised E (unat n)
      | Some i \<Rightarrow>
          bind (get (\<lambda>h. length (thread_manager h))) (\<lambda>len.
          andthen (undef_if (len \<le> i) ''thread_manager out of bounds'')
          (bind (get (\<lambda>h. ret_pack (in_args (thread h i)))) (\<lambda>off.
           bind (get ret_buffer) (\<lambda>buf.
           andthen (undef_if (length buf < off + unat n) ''ret_buffer out of bounds'')
           (return (slice off (unat n) buf))))))))"

definition client_put_data ::
    "env \<Rightarrow> nat option \<Rightarrow> request_header \<Rightarrow> (client, request_header) prog" where
  "client_put_data E computation_i header =
     bind (get task_size) (\<lambda>tsize.
     andthen (bug_on (cmd header \<noteq> CMD_REQUEST_FOR_DATA \<and> cmd header \<noteq> CMD_RESULT) ''Wrong command'')
     (andthen (bug_on (256 \<le> of_nat sizeof_header + tsize) ''Send buffer too small'')
     (bind (put_payload E computation_i) (\<lambda>payload.
      bind (get ret_size) (\<lambda>n.
      bind (get (\<lambda>h. socket_fd (server_conn h))) (\<lambda>fd.
      bind (call E (Send fd (header_bytes (host E) header @ payload) MSG_NOSIGNAL)) (\<lambda>r.
      if word_of_int (r_ret r) \<noteq> of_nat sizeof_header + n
      then (if r_ret r = -1 \<and> (r_errno r = EAGAIN \<or> r_errno r = EWOULDBLOCK)
            then return (header\<lparr>cmd := ERR_NOT_READY\<rparr>)
            else if r_ret r = -1 \<and> r_errno r = EPIPE
            then return (header\<lparr>cmd := ERR_CONN_BROKEN\<rparr>)
            else halt (Fatal ''Unable to send() data''))
      else return header)))))))"

end
