(* ===== verification/ClientTasks.thy ===== *)
theory ClientTasks
  imports ClientConn
begin

text \<open>
  Task management of cluster-api/cluster-client.c: the table of threads, the start of a
  computation on a free thread and its completion. A computation thread reads its own task
  region, writes its own result region and then signals its event descriptor; nobody looks at
  the region between the start and the signal, so the thread's run is placed at its start.
\<close>

section \<open>Set-up and tear-down\<close>

text \<open>\<open>cache_line_size()\<close>: two library calls that can fail, then the number read.\<close>

definition query_cache_line_size :: "env \<Rightarrow> (client, int) prog" where
  "query_cache_line_size E =
     bind (call E (Fopen ''/sys/bus/cpu/devices/cpu0/cache/index0/coherency_line_size'')) (\<lambda>f.
     andthen (fail_if (r_ret f = 0) ''Cannot open coherency_line_size'')
     (bind (call E FscanfInt) (\<lambda>r.
      andthen (fail_if (r_ret r \<noteq> 1) ''Cannot scan coherency_line_size'')
      (andthen (call E Fclose) (return (r_value r))))))"

definition init_thread :: "env \<Rightarrow> nat \<Rightarrow> (client, unit) prog" where
  "init_thread E i =
     bind (get max_cpu) (\<lambda>m.
     andthen (undef_if (m = 0) ''division by zero'')
     (bind (call E (Eventfd EFD_NONBLOCK)) (\<lambda>r.
      andthen (fail_if (r_ret r < 0) ''Unable to init eventfd'')
      (modify (\<lambda>h. set_thread i (\<lambda>_.
         \<lparr>empty = True,
          in_args = \<lparr>data_pack = unat (of_nat i * task_stride h),
                     ret_pack = unat (of_nat i * ret_stride h)\<rparr>,
          thread_func = computation_func h, thread_id = -1, cpu = int i mod \<bar>m\<bar>,
          thread_task = -1, event_fd = r_ret r, waiting_to_be_sent = False\<rparr>) h)))))"

text \<open>\<open>raw\<close> is a cell of zero bytes, as \<open>calloc\<close> leaves it.\<close>

definition client_init_task_management :: "env \<Rightarrow> thread_info \<Rightarrow> (client, unit) prog" where
  "client_init_task_management E raw = block
      [modify (\<lambda>h. h\<lparr>initial_requests := max_threads h\<rparr>),
       bind (get max_threads) (\<lambda>n. alloc E (Calloc ThreadManager n 184) ''alloc info mem''),
       modify (\<lambda>h. h\<lparr>thread_manager := replicate (unat (max_threads h)) raw\<rparr>),
       bind (get (\<lambda>h. max_threads h * task_stride h)) (\<lambda>n.
         andthen (alloc E (Malloc TaskBuffer n) ''alloc task buffer'')
         (bind (uninitialised E (unat n)) (\<lambda>mem. modify (\<lambda>h. h\<lparr>task_buffer := mem\<rparr>)))),
       bind (get (\<lambda>h. max_threads h * ret_stride h)) (\<lambda>n.
         andthen (alloc E (Malloc RetBuffer n) ''alloc ret buffer'')
         (bind (uninitialised E (unat n)) (\<lambda>mem. modify (\<lambda>h. h\<lparr>ret_buffer := mem\<rparr>)))),
       bind (get thread_indices) (\<lambda>is. for_each is (init_thread E)),
       bind (query_cache_line_size E) (\<lambda>n. modify (\<lambda>h. h\<lparr>cache_line_size := n\<rparr>)),
       bind (call E GetNprocs) (\<lambda>r. modify (\<lambda>h. h\<lparr>max_cpu := r_ret r\<rparr>))]"

definition client_free_task_management :: "env \<Rightarrow> (client, unit) prog" where
  "client_free_task_management E = block
      [bind (get thread_indices) (\<lambda>is. for_each is (\<lambda>i.
         bind (get (\<lambda>h. event_fd (thread h i))) (\<lambda>fd. must_ok E (Close fd) ''Unable to close eventfd''))),
       andthen (call E (Free ThreadManager)) (return ()),
       andthen (call E (Free TaskBuffer)) (return ()),
       andthen (call E (Free RetBuffer)) (return ())]"

definition client_start_task_management :: "env \<Rightarrow> (client, unit) prog" where
  "client_start_task_management E =
     bind (get epoll_fd) (\<lambda>epfd.
     bind (get thread_indices) (\<lambda>is. for_each is (\<lambda>i.
       bind (get (\<lambda>h. event_fd (thread h i))) (\<lambda>fd.
       must_ok E (EpollCtl epfd (CTL_ADD EPOLLIN fd) fd) ''Add event-fd to epoll''))))"

section \<open>Computations\<close>

text \<open>
  The body of a computation thread: the user's function on the bytes of the task region, the
  result into the result region, and a \<open>uint64_t\<close> one into the event descriptor.
\<close>

definition computation_wrapper :: "env \<Rightarrow> nat \<Rightarrow> (client, unit) prog" where
  "computation_wrapper E i =
     bind (get (\<lambda>h. thread h i)) (\<lambda>info.
     bind (get (\<lambda>h. slice (data_pack (in_args info)) (unat (task_size h)) (task_buffer h))) (\<lambda>data.
     bind (get (\<lambda>h. unat (ret_size h))) (\<lambda>n.
     bind (get (\<lambda>h. length (ret_buffer h))) (\<lambda>len.
     andthen (undef_if (len < ret_pack (in_args info) + n) ''ret_buffer out of bounds'')
     (andthen (modify (\<lambda>h. h\<lparr>ret_buffer := blit (ret_buffer h) (ret_pack (in_args info))
                (fit n (thread_func info data))\<rparr>))
     (must_ok E (Write (event_fd info) (mem_of_u64 (host E) 1))
       ''Unable to write to event-fd''))))))"

text \<open>The steps of \<open>start_computation\<close> after a free thread was found.\<close>

definition run_on_thread :: "env \<Rightarrow> u32 \<Rightarrow> nat \<Rightarrow> (client, unit) prog" where
  "run_on_thread E tid i =
     bind (get (\<lambda>h. unat (task_size h))) (\<lambda>n.
     bind (get (\<lambda>h. slice sizeof_header n (recv_buffer (server_conn h)))) (\<lambda>bytes.
     bind (get (\<lambda>h. data_pack (in_args (thread h i)))) (\<lambda>off.
     bind (get (\<lambda>h. length (task_buffer h))) (\<lambda>len. block
      [modify (set_thread i (\<lambda>t. t\<lparr>thread_task := tid\<rparr>)),
       undef_if (len < off + n) ''task_buffer out of bounds'',
       modify (\<lambda>h. h\<lparr>task_buffer := blit (task_buffer h) off bytes\<rparr>),
       must_zero E (PthreadAttr ''init'') ''Unable to call pthread_attr_init()'',
       must_zero E (PthreadAttr ''setdetachstate'') ''Unable to set detached thread attribute'',
       must_zero E (PthreadAttr ''setaffinity_np'') ''Unable to call pthread_attr_setaffinity_np()'',
       must_zero E (PthreadCreate (Suc i)) ''Unable to create thread'',
       computation_wrapper E i]))))"

definition start_computation :: "env \<Rightarrow> u32 \<Rightarrow> (client, unit) prog" where
  "start_computation E tid =
     bind (get (\<lambda>h. find_index empty (take (unat (max_threads h)) (thread_manager h)))) (\<lambda>cell.
     case cell of
       None \<Rightarrow> halt (Bug ''Recieved spare computation task'')
     | Some i \<Rightarrow> andthen (modify (set_thread i (\<lambda>t. t\<lparr>empty := False\<rparr>))) (run_on_thread E tid i))"

definition mark_computation_as_ready :: "env \<Rightarrow> nat \<Rightarrow> (client, unit) prog" where
  "mark_computation_as_ready E computation_i =
     andthen (modify (set_thread computation_i (\<lambda>t. t\<lparr>waiting_to_be_sent := True\<rparr>)))
     (bind (get (\<lambda>h. event_fd (thread h computation_i))) (\<lambda>fd.
      must_ok E (Read fd 8) ''Unable to read from event-fd''))"

end
