(* ===== verification/ClientLoop.thy ===== *)
theory ClientLoop
  imports ClientDiscovery ClientTasks
begin

text \<open>
  The event loop of cluster-api/cluster-client.c, with one definition per block of its body,
  and the initialisation and de-initialisation around it. A block that leaves the loop by
  \<open>return NULL\<close> has the value \<open>Some ()\<close>. The loop's thread is joined by \<open>stop_cluster_client\<close>;
  its run is placed at the join.
\<close>

section \<open>The event loop\<close>

definition has_event :: "u32 \<Rightarrow> u32 \<Rightarrow> bool" where
  "has_event evs flag \<longleftrightarrow> evs AND flag \<noteq> 0"

text \<open>A block that does not leave the loop.\<close>

definition goes_on :: "(client, unit) prog \<Rightarrow> (client, unit option) prog" where
  "goes_on m = andthen m (return None)"

text \<open>Handle request from server.\<close>

definition handle_command :: "env \<Rightarrow> request_header \<Rightarrow> (client, unit option) prog" where
  "handle_command E header =
     (if cmd header = CMD_TASK then goes_on (start_computation E (task_id header))
      else if cmd header = ERR_CONN_BROKEN then return (Some ())
      else goes_on (bug_on (cmd header \<noteq> ERR_NOT_READY) ''Unknown request arrived''))"

definition receive_from_server :: "env \<Rightarrow> (client, unit option) prog" where
  "receive_from_server E =
     bind (uninitialised_header E) (\<lambda>header0.
     bind (client_read_data E header0) (handle_command E))"

text \<open>Handle "computation finished" events; \<open>first_fd\<close> is \<open>pending_events->data.fd\<close>.\<close>

definition finish_computation :: "env \<Rightarrow> int \<Rightarrow> u32 \<Rightarrow> nat \<Rightarrow> (client, unit) prog" where
  "finish_computation E first_fd evs i =
     bind (get (\<lambda>h. event_fd (thread h i))) (\<lambda>efd.
     if first_fd = efd \<and> has_event evs EPOLLIN
     then block [mark_computation_as_ready E i, client_update_connection E True]
     else return ())"

text \<open>
  Handle event "can send request to server". The result of a send is: go on (\<open>None\<close>), leave the
  event (\<open>Some False\<close>, the label \<open>skip_connection_management\<close>) or leave the loop (\<open>Some True\<close>).
\<close>

definition send_result_of :: "env \<Rightarrow> nat \<Rightarrow> (client, bool option) prog" where
  "send_result_of E i =
     bind (get (\<lambda>h. thread h i)) (\<lambda>t.
     if \<not> waiting_to_be_sent t then return None
     else bind (client_put_data E (Some i)
                 \<lparr>cmd = CMD_RESULT, task_id = htobe32 (host E) (thread_task t)\<rparr>) (\<lambda>header.
          if cmd header = ERR_CONN_BROKEN then return (Some True)
          else if cmd header = ERR_NOT_READY then return (Some False)
          else andthen (block
            [modify (set_thread i (\<lambda>t. t\<lparr>waiting_to_be_sent := False\<rparr>)),
             modify (set_thread i (\<lambda>t. t\<lparr>empty := True\<rparr>))]) (return None)))"

definition request_round :: "env \<Rightarrow> (client, bool option option) prog" where
  "request_round E =
     bind (get initial_requests) (\<lambda>n.
     if n = 0 then return (Some None)
     else bind (client_put_data E None
                 \<lparr>cmd = CMD_REQUEST_FOR_DATA, task_id = htobe32 (host E) (-1)\<rparr>) (\<lambda>header.
          if cmd header = ERR_CONN_BROKEN then return (Some (Some True))
          else if cmd header = ERR_NOT_READY then return (Some (Some False))
          else andthen (modify (\<lambda>h. h\<lparr>initial_requests := initial_requests h - 1\<rparr>)) (return None)))"

definition send_to_server :: "env \<Rightarrow> (client, unit option) prog" where
  "send_to_server E =
     bind (get thread_indices) (\<lambda>is.
     bind (for_until is (send_result_of E)) (\<lambda>sent.
     case sent of
       Some lost \<Rightarrow> return (if lost then Some () else None)
     | None \<Rightarrow>
         bind (loop (request_round E)) (\<lambda>asked.
         case asked of
           Some lost \<Rightarrow> return (if lost then Some () else None)
         | None \<Rightarrow> goes_on (client_update_connection E False))))"

definition client_process_event :: "env \<Rightarrow> int \<Rightarrow> int \<times> u32 \<Rightarrow> (client, unit option) prog" where
  "client_process_event E first_fd ev =
     (let fd = fst ev; evs = snd ev in
      for_until
       [bind (get discovery_timer_fd) (\<lambda>tfd.
          if fd = tfd then goes_on (perform_discovery_send E) else return None),
        bind (get discovery_socket_fd) (\<lambda>dfd.
          if fd = dfd \<and> has_event evs EPOLLIN
          then goes_on (catch_servers_discovery_datagram E) else return None),
        bind (get (\<lambda>h. socket_fd (server_conn h))) (\<lambda>sfd.
          if fd = sfd \<and> (has_event evs EPOLLHUP \<or> has_event evs EPOLLERR)
          then return (Some ()) else return None),
        bind (get (\<lambda>h. socket_fd (server_conn h))) (\<lambda>sfd.
          if fd = sfd \<and> has_event evs EPOLLIN then receive_from_server E else return None),
        bind (get thread_indices) (\<lambda>is. goes_on (for_each is (finish_computation E first_fd evs))),
        bind (get (\<lambda>h. socket_fd (server_conn h))) (\<lambda>sfd.
          if fd = sfd \<and> has_event evs EPOLLOUT then send_to_server E else return None)]
       (\<lambda>stage. stage))"

definition CLIENT_MAX_EVENTS :: int where
  "CLIENT_MAX_EVENTS = 16"

text \<open>A round that ran through all its events (\<open>None\<close>) is followed by the next.\<close>

definition client_eventloop_round :: "env \<Rightarrow> (client, unit option) prog" where
  "client_eventloop_round E =
     bind (get epoll_fd) (\<lambda>epfd.
     bind (call E (EpollWait epfd CLIENT_MAX_EVENTS)) (\<lambda>r.
     andthen (fail_if (r_ret r = -1) ''Failure in epoll_wait()'')
     (let evs = take (nat (r_ret r)) (r_events r) in
      for_until evs (client_process_event E (fst (hd evs))))))"

definition client_eventloop :: "env \<Rightarrow> (client, unit) prog" where
  "client_eventloop E = loop (client_eventloop_round E)"

section \<open>Initialisation and de-initialisation\<close>

definition init_cluster_client :: "env \<Rightarrow> thread_info \<Rightarrow> (client, unit) prog" where
  "init_cluster_client E raw = block
      [client_init_discovery E,
       client_init_connection E,
       client_init_task_management E raw,
       bind (must E (EpollCreate1 EPOLL_CLOEXEC) ''epoll_create1() failed'')
         (\<lambda>fd. modify (\<lambda>h. h\<lparr>epoll_fd := fd\<rparr>)),
       must_zero E (PthreadCreate 0) ''pthread_create() failed'',
       client_start_task_management E,
       client_start_discovery E,
       bind (get local_discovery) (\<lambda>loc. if \<not> loc then client_start_connection E else return ())]"

definition stop_cluster_client :: "env \<Rightarrow> (client, unit) prog" where
  "stop_cluster_client E = block
      [must_zero E (PthreadJoin 0) ''pthread_join() failed'',
       bind (get epoll_fd) (\<lambda>fd. must_ok E (Close fd) ''Unable to close() epoll file descriptor''),
       client_free_discovery E,
       client_free_connection E,
       client_free_task_management E]"

text \<open>The handle is an uninitialised stack variable; \<open>None\<close> stands for a null pointer.\<close>

definition client_compute :: "env \<Rightarrow> thread_info \<Rightarrow> size_t \<Rightarrow> size_t \<Rightarrow> size_t \<Rightarrow>
    (u8 list \<Rightarrow> u8 list) option \<Rightarrow> string option \<Rightarrow> (client, unit) prog" where
  "client_compute E raw num_threads tsize rsize func master_host = block
      [bug_on (num_threads = 0) ''Number of threads is zero'',
       bug_on (tsize = 0) ''Task size is zero'',
       bug_on (rsize = 0) ''Ret size is zero'',
       bug_on (func = None) ''Nullptr computation'',
       modify (\<lambda>h. h\<lparr>local_discovery := (master_host = None), server_hostname := master_host,
         max_threads := num_threads, ret_size := rsize, task_size := tsize,
         computation_func := the func\<rparr>),
       init_cluster_client E raw,
       client_eventloop E,
       stop_cluster_client E]"

end
