(* ===== verification/ClientInv.thy ===== *)
theory ClientInv
  imports ClientLoop
begin

text \<open>
  The client's invariant and the abstract view of its threads. The regions of the threads in
  the task and the result buffer do not overlap, a thread that is busy has in its result region
  the value of the computation function on its task region, and only a busy thread has a result
  to be sent. The abstract view is a list of slots, each idle, running a task or ready with its
  result, and the number of initial requests that are still to be sent.
\<close>

section \<open>Regions\<close>

definition data_of :: "client \<Rightarrow> thread_info \<Rightarrow> u8 list" where
  "data_of h t = slice (data_pack (in_args t)) (unat (task_size h)) (task_buffer h)"

definition result_of :: "client \<Rightarrow> thread_info \<Rightarrow> u8 list" where
  "result_of h t = slice (ret_pack (in_args t)) (unat (ret_size h)) (ret_buffer h)"

text \<open>The bytes that the computation function gives for a task, \<open>ret_size\<close> of them.\<close>

definition computed :: "client \<Rightarrow> u8 list \<Rightarrow> u8 list" where
  "computed h data = fit (unat (ret_size h)) (computation_func h data)"

definition apart :: "nat \<Rightarrow> nat \<Rightarrow> nat \<Rightarrow> bool" where
  "apart n a b \<longleftrightarrow> a + n \<le> b \<or> b + n \<le> a"

text \<open>\<open>offs\<close> are the offsets of regions of \<open>n\<close> bytes in a buffer of \<open>len\<close> bytes.\<close>

definition regions_ok :: "nat \<Rightarrow> nat \<Rightarrow> nat list \<Rightarrow> bool" where
  "regions_ok n len offs \<longleftrightarrow>
     (\<forall>i < length offs. offs ! i + n \<le> len) \<and>
     (\<forall>i < length offs. \<forall>j < length offs. i \<noteq> j \<longrightarrow> apart n (offs ! i) (offs ! j))"

lemma regions_fit: "regions_ok n len offs \<Longrightarrow> i < length offs \<Longrightarrow> offs ! i + n \<le> len"
  by (simp add: regions_ok_def)

lemma regions_apart:
  "regions_ok n len offs \<Longrightarrow> i < length offs \<Longrightarrow> j < length offs \<Longrightarrow> i \<noteq> j \<Longrightarrow>
   apart n (offs ! i) (offs ! j)"
  by (simp add: regions_ok_def)

lemma slice_blit_region:
  assumes "regions_ok n (length buf) offs" and "i < length offs" and "j < length offs"
    and "length src = n"
  shows "slice (offs ! j) n (blit buf (offs ! i) src) = (if j = i then src else slice (offs ! j) n buf)"
proof (cases "j = i")
  case True
  with assms regions_fit [OF assms(1,2)] show ?thesis by (auto intro: slice_blit_same)
next
  case False
  with regions_apart [OF assms(1,2,3)] regions_fit [OF assms(1,2)] regions_fit [OF assms(1,3)] assms(4)
  show ?thesis by (auto simp: apart_def intro!: slice_blit_disjoint)
qed

text \<open>Regions at equal distances, when the distance is at least the size.\<close>

lemma regions_ok_stride:
  assumes "n \<le> s" and "k * s \<le> len"
  shows "regions_ok n len (map (\<lambda>i. i * s) [0..<k])"
  unfolding regions_ok_def
proof (intro conjI allI impI)
  have step: "i * s + n \<le> j * s" if "i < j" for i j
  proof -
    have "i * s + n \<le> Suc i * s" using assms(1) by simp
    also have "\<dots> \<le> j * s" using that by (intro mult_le_mono1) simp
    finally show ?thesis .
  qed
  fix i assume i: "i < length (map (\<lambda>i. i * s) [0..<k])"
  then have "i * s + n \<le> k * s" by (intro step) simp
  with i assms(2) show "map (\<lambda>i. i * s) [0..<k] ! i + n \<le> len" by simp
  fix j assume "j < length (map (\<lambda>i. i * s) [0..<k])" and "i \<noteq> j"
  then consider "i < j" "j < k" | "j < i" "j < k" by fastforce
  then show "apart n (map (\<lambda>i. i * s) [0..<k] ! i) (map (\<lambda>i. i * s) [0..<k] ! j)"
    using i by cases (simp_all add: apart_def step)
qed

section \<open>The invariant\<close>

definition thread_ok :: "client \<Rightarrow> thread_info \<Rightarrow> bool" where
  "thread_ok h t \<longleftrightarrow> (waiting_to_be_sent t \<longrightarrow> \<not> empty t) \<and> thread_func t = computation_func h \<and>
     (\<not> empty t \<longrightarrow> result_of h t = computed h (data_of h t))"

definition data_offsets :: "client \<Rightarrow> nat list" where
  "data_offsets h = map (\<lambda>t. data_pack (in_args t)) (thread_manager h)"

definition ret_offsets :: "client \<Rightarrow> nat list" where
  "ret_offsets h = map (\<lambda>t. ret_pack (in_args t)) (thread_manager h)"

definition buffers_ok :: "client \<Rightarrow> bool" where
  "buffers_ok h \<longleftrightarrow>
     regions_ok (unat (task_size h)) (length (task_buffer h)) (data_offsets h) \<and>
     regions_ok (unat (ret_size h)) (length (ret_buffer h)) (ret_offsets h)"

definition recv_ok :: "client \<Rightarrow> bool" where
  "recv_ok h \<longleftrightarrow> sizeof_header + unat (task_size h) < 2 ^ 64 \<and>
     length (recv_buffer (server_conn h)) = sizeof_header + unat (task_size h) \<and>
     unat (bytes_recieved (server_conn h)) < sizeof_header + unat (task_size h)"

definition client_inv :: "client \<Rightarrow> bool" where
  "client_inv h \<longleftrightarrow> length (thread_manager h) = unat (max_threads h) \<and>
     buffers_ok h \<and> recv_ok h \<and> (\<forall>i < unat (max_threads h). thread_ok h (thread h i))"

lemma unat_client_recv_buffer_size:
  "recv_ok h \<Longrightarrow> unat (client_recv_buffer_size h) = sizeof_header + unat (task_size h)"
  by (simp add: recv_ok_def client_recv_buffer_size_def sizeof_header_def unat_word_ariths)

section \<open>The abstract view\<close>

datatype slot = Idle | Running u32 "u8 list" | Ready u32 "u8 list"

definition slot :: "client \<Rightarrow> thread_info \<Rightarrow> slot" where
  "slot h t = (if empty t then Idle
     else if waiting_to_be_sent t then Ready (thread_task t) (data_of h t)
     else Running (thread_task t) (data_of h t))"

definition slots :: "client \<Rightarrow> slot list" where
  "slots h = map (slot h) (thread_manager h)"

definition view :: "client \<Rightarrow> nat \<times> slot list" where
  "view h = (unat (initial_requests h), slots h)"

text \<open>
  What the client does with its slots: it asks for a first task per slot, starts a task on the
  first idle slot, learns that a running computation has finished, sends a ready result.
\<close>

inductive slot_step :: "nat \<times> slot list \<Rightarrow> nat \<times> slot list \<Rightarrow> bool" where
  ask: "slot_step (Suc n, ss) (n, ss)"
| start: "find_index (\<lambda>s. s = Idle) ss = Some i \<Longrightarrow> slot_step (n, ss) (n, ss[i := Running t data])"
| finish: "i < length ss \<Longrightarrow> ss ! i = Running t data \<Longrightarrow> slot_step (n, ss) (n, ss[i := Ready t data])"
| send: "i < length ss \<Longrightarrow> ss ! i = Ready t data \<Longrightarrow> slot_step (n, ss) (n, ss[i := Idle])"

inductive_simps slot_step_iff: "slot_step (n, ss) (n', ss')"
inductive_cases slot_stepE: "slot_step v v'"

abbreviation slot_steps :: "nat \<times> slot list \<Rightarrow> nat \<times> slot list \<Rightarrow> bool" where
  "slot_steps \<equiv> slot_step\<^sup>*\<^sup>*"

lemma slot_steps_length: "slot_steps v v' \<Longrightarrow> length (snd v') = length (snd v) \<and> fst v' \<le> fst v"
  by (induction rule: rtranclp_induct) (auto elim!: slot_stepE)

text \<open>The number of busy slots, and the number of tasks the client has asked for and not got.\<close>

definition busy :: "slot list \<Rightarrow> nat" where
  "busy ss = countp (\<lambda>s. s \<noteq> Idle) ss"

definition credit :: "client \<Rightarrow> int" where
  "credit h = int (unat (max_threads h)) - int (unat (initial_requests h)) - int (busy (slots h))"

text \<open>What no operation of the running client changes.\<close>

definition settings where
  "settings h = (max_threads h, task_size h, ret_size h, computation_func h, local_discovery h,
     map in_args (thread_manager h), map event_fd (thread_manager h), epoll_fd h,
     discovery_socket_fd h, discovery_timer_fd h, broadcast_addr h)"

definition client_evolved :: "client \<Rightarrow> client \<Rightarrow> bool" where
  "client_evolved q h \<longleftrightarrow> slot_steps (view q) (view h) \<and> settings h = settings q"

lemma client_evolved_refl [simp]: "client_evolved h h"
  by (simp add: client_evolved_def)

lemma client_evolved_step:
  "client_evolved q h \<Longrightarrow> slot_step (view h) (view h') \<Longrightarrow> settings h' = settings h \<Longrightarrow> client_evolved q h'"
  by (auto simp: client_evolved_def)

lemma client_evolved_same:
  "client_evolved q h \<Longrightarrow> view h' = view h \<Longrightarrow> settings h' = settings h \<Longrightarrow> client_evolved q h'"
  by (simp add: client_evolved_def)

section \<open>Facts about the parts\<close>

lemma client_inv_parts:
  assumes "client_inv h"
  shows "length (thread_manager h) = unat (max_threads h)" and "buffers_ok h" and "recv_ok h"
    and "i < unat (max_threads h) \<Longrightarrow> thread_ok h (thread h i)"
  using assms by (simp_all add: client_inv_def)

lemma thread_set_thread:
  "i < length (thread_manager h) \<Longrightarrow>
   thread (set_thread i f h) j = (if j = i then f (thread h i) else thread h j)"
  by (simp add: thread_def set_thread_def nth_list_update)

lemma set_thread_simps [simp]:
  "max_threads (set_thread i f h) = max_threads h"
  "task_size (set_thread i f h) = task_size h"
  "ret_size (set_thread i f h) = ret_size h"
  "task_buffer (set_thread i f h) = task_buffer h"
  "ret_buffer (set_thread i f h) = ret_buffer h"
  "server_conn (set_thread i f h) = server_conn h"
  "initial_requests (set_thread i f h) = initial_requests h"
  "computation_func (set_thread i f h) = computation_func h"
  "length (thread_manager (set_thread i f h)) = length (thread_manager h)"
  by (simp_all add: set_thread_def)

lemma data_of_set_thread [simp]: "data_of (set_thread i f h) t = data_of h t"
  and result_of_set_thread [simp]: "result_of (set_thread i f h) t = result_of h t"
  and computed_set_thread [simp]: "computed (set_thread i f h) d = computed h d"
  and slot_set_thread [simp]: "slot (set_thread i f h) t = slot h t"
  and thread_ok_set_thread [simp]: "thread_ok (set_thread i f h) t = thread_ok h t"
  and recv_ok_set_thread [simp]: "recv_ok (set_thread i f h) = recv_ok h"
  by (simp_all add: data_of_def result_of_def computed_def slot_def thread_ok_def recv_ok_def)

text \<open>An update of one thread that leaves its regions alone.\<close>

lemma map_set_thread_same:
  "i < length (thread_manager h) \<Longrightarrow> g (f (thread h i)) = g (thread h i) \<Longrightarrow>
   map g (thread_manager (set_thread i f h)) = map g (thread_manager h)"
  by (rule nth_equalityI) (auto simp: set_thread_def thread_def nth_list_update)

lemma offsets_set_thread:
  assumes "i < length (thread_manager h)" and "in_args (f (thread h i)) = in_args (thread h i)"
  shows "data_offsets (set_thread i f h) = data_offsets h" and "ret_offsets (set_thread i f h) = ret_offsets h"
  using assms by (simp_all add: data_offsets_def ret_offsets_def map_set_thread_same)

lemma client_inv_set_thread:
  assumes inv: "client_inv h" and i: "i < unat (max_threads h)"
    and same: "in_args (f (thread h i)) = in_args (thread h i)" and ok: "thread_ok h (f (thread h i))"
  shows "client_inv (set_thread i f h)"
proof -
  have i': "i < length (thread_manager h)" using inv i by (simp add: client_inv_def)
  then show ?thesis
    using inv ok offsets_set_thread [OF i', of f] same
    by (auto simp: client_inv_def buffers_ok_def thread_set_thread)
qed

lemma settings_set_thread:
  assumes "i < length (thread_manager h)" and "in_args (f (thread h i)) = in_args (thread h i)"
    and "event_fd (f (thread h i)) = event_fd (thread h i)"
  shows "settings (set_thread i f h) = settings h"
  using map_set_thread_same [of i h in_args f] map_set_thread_same [of i h event_fd f] assms
  by (simp add: settings_def) (simp add: set_thread_def)

lemma slots_set_thread:
  "i < length (thread_manager h) \<Longrightarrow> slots (set_thread i f h) = (slots h)[i := slot h (f (thread h i))]"
  by (rule nth_equalityI) (auto simp: slots_def nth_list_update set_thread_def thread_def slot_def data_of_def)

lemma nth_slots: "i < length (thread_manager h) \<Longrightarrow> slots h ! i = slot h (thread h i)"
  by (simp add: slots_def thread_def)

lemma length_slots [simp]: "length (slots h) = length (thread_manager h)"
  by (simp add: slots_def)

lemma slot_idle [simp]: "slot h t = Idle \<longleftrightarrow> empty t"
  by (simp add: slot_def)

lemma find_idle: "find_index (\<lambda>s. s = Idle) (slots h) = find_index empty (thread_manager h)"
proof -
  have "find_index P (map f xs) = find_index (\<lambda>x. P (f x)) xs" for P :: "slot \<Rightarrow> bool" and f :: "thread_info \<Rightarrow> slot" and xs
    by (induction xs) auto
  then show ?thesis by (simp add: slots_def)
qed

lemma busy_slots: "busy (slots h) = threads.used (thread_manager h)"
  by (simp add: busy_def slots_def countp_map threads.used_def)

end
