(* ===== verification/ClientSteps.thy ===== *)
theory ClientSteps
  imports ClientInv
begin

text \<open>
  What the operations on the threads do to the client's handle, and that each is one step of the
  abstract slots: claiming a thread, storing its task, running it, collecting and sending its
  result.
\<close>

section \<open>The start of a computation\<close>

definition claim_thread :: "nat \<Rightarrow> u32 \<Rightarrow> client \<Rightarrow> client" where
  "claim_thread i tid = set_thread i (\<lambda>t. t\<lparr>empty := False, thread_task := tid\<rparr>)"

text \<open>The task behind the header in the receive buffer.\<close>

definition received_task :: "client \<Rightarrow> u8 list" where
  "received_task h = slice sizeof_header (unat (task_size h)) (recv_buffer (server_conn h))"

definition store_task :: "nat \<Rightarrow> client \<Rightarrow> client" where
  "store_task i h = h\<lparr>task_buffer := blit (task_buffer h) (data_pack (in_args (thread h i))) (received_task h)\<rparr>"

definition run_thread :: "nat \<Rightarrow> client \<Rightarrow> client" where
  "run_thread i h = h\<lparr>ret_buffer := blit (ret_buffer h) (ret_pack (in_args (thread h i)))
     (fit (unat (ret_size h)) (thread_func (thread h i) (data_of h (thread h i))))\<rparr>"

definition started :: "nat \<Rightarrow> u32 \<Rightarrow> client \<Rightarrow> client" where
  "started i tid h = run_thread i (store_task i (claim_thread i tid h))"

lemma store_task_simps [simp]:
  "thread_manager (store_task i h) = thread_manager h" "thread (store_task i h) j = thread h j"
  "max_threads (store_task i h) = max_threads h" "task_size (store_task i h) = task_size h"
  "ret_size (store_task i h) = ret_size h" "ret_buffer (store_task i h) = ret_buffer h"
  "server_conn (store_task i h) = server_conn h" "initial_requests (store_task i h) = initial_requests h"
  "computation_func (store_task i h) = computation_func h" "settings (store_task i h) = settings h"
  "task_buffer (store_task i h) =
     blit (task_buffer h) (data_pack (in_args (thread h i))) (received_task h)"
  by (simp_all add: store_task_def thread_def settings_def)

lemma run_thread_simps [simp]:
  "thread_manager (run_thread i h) = thread_manager h" "thread (run_thread i h) j = thread h j"
  "max_threads (run_thread i h) = max_threads h" "task_size (run_thread i h) = task_size h"
  "ret_size (run_thread i h) = ret_size h" "task_buffer (run_thread i h) = task_buffer h"
  "server_conn (run_thread i h) = server_conn h" "initial_requests (run_thread i h) = initial_requests h"
  "computation_func (run_thread i h) = computation_func h" "settings (run_thread i h) = settings h"
  "data_of (run_thread i h) t = data_of h t"
  "ret_buffer (run_thread i h) = blit (ret_buffer h) (ret_pack (in_args (thread h i)))
     (fit (unat (ret_size h)) (thread_func (thread h i) (data_of h (thread h i))))"
  by (simp_all add: run_thread_def thread_def settings_def data_of_def)

lemma claim_thread_simps [simp]:
  "task_buffer (claim_thread i tid h) = task_buffer h" "ret_buffer (claim_thread i tid h) = ret_buffer h"
  "max_threads (claim_thread i tid h) = max_threads h" "task_size (claim_thread i tid h) = task_size h"
  "ret_size (claim_thread i tid h) = ret_size h" "server_conn (claim_thread i tid h) = server_conn h"
  "initial_requests (claim_thread i tid h) = initial_requests h"
  "computation_func (claim_thread i tid h) = computation_func h"
  "length (thread_manager (claim_thread i tid h)) = length (thread_manager h)"
  "received_task (claim_thread i tid h) = received_task h"
  by (simp_all add: claim_thread_def received_task_def)

lemma thread_claim:
  "i < length (thread_manager h) \<Longrightarrow> thread (claim_thread i tid h) j =
     (if j = i then (thread h i)\<lparr>empty := False, thread_task := tid\<rparr> else thread h j)"
  by (simp add: claim_thread_def thread_set_thread)

lemma length_received_task: "recv_ok h \<Longrightarrow> length (received_task h) = unat (task_size h)"
  by (simp add: recv_ok_def received_task_def)

lemma nth_offsets:
  "i < length (thread_manager h) \<Longrightarrow> data_offsets h ! i = data_pack (in_args (thread h i))"
  "i < length (thread_manager h) \<Longrightarrow> ret_offsets h ! i = ret_pack (in_args (thread h i))"
  by (simp_all add: data_offsets_def ret_offsets_def thread_def)

lemma length_offsets [simp]:
  "length (data_offsets h) = length (thread_manager h)" "length (ret_offsets h) = length (thread_manager h)"
  by (simp_all add: data_offsets_def ret_offsets_def)

text \<open>The regions of the threads before and after a thread was started.\<close>

lemma data_of_store_task:
  assumes "buffers_ok h" and "i < length (thread_manager h)" and "j < length (thread_manager h)"
    and "length (received_task h) = unat (task_size h)"
  shows "data_of (store_task i h) (thread h j) = (if j = i then received_task h else data_of h (thread h j))"
  using assms slice_blit_region [of "unat (task_size h)" "task_buffer h" "data_offsets h" i j "received_task h"]
  by (simp add: data_of_def buffers_ok_def nth_offsets)

lemma result_of_run_thread:
  assumes "buffers_ok h" and "i < length (thread_manager h)" and "j < length (thread_manager h)"
  shows "result_of (run_thread i h) (thread h j) = (if j = i
     then fit (unat (ret_size h)) (thread_func (thread h i) (data_of h (thread h i)))
     else result_of h (thread h j))"
  using assms slice_blit_region [of "unat (ret_size h)" "ret_buffer h" "ret_offsets h" i j
      "fit (unat (ret_size h)) (thread_func (thread h i) (data_of h (thread h i)))"]
  by (simp add: result_of_def buffers_ok_def nth_offsets)

lemma length_store_run:
  assumes "buffers_ok h" and "i < length (thread_manager h)"
  shows "length (received_task h) = unat (task_size h) \<Longrightarrow>
      length (task_buffer (store_task i h)) = length (task_buffer h)"
    and "length (ret_buffer (run_thread i h)) = length (ret_buffer h)"
  using assms regions_fit [of "unat (task_size h)" _ "data_offsets h" i] regions_fit [of "unat (ret_size h)" _ "ret_offsets h" i]
  by (auto simp: buffers_ok_def nth_offsets intro!: length_blit)

lemma buffers_ok_store_task:
  "buffers_ok h \<Longrightarrow> i < length (thread_manager h) \<Longrightarrow> length (received_task h) = unat (task_size h) \<Longrightarrow>
   buffers_ok (store_task i h)"
  using length_store_run(1) [of h i] by (simp add: buffers_ok_def data_offsets_def ret_offsets_def)

lemma buffers_ok_run_thread:
  "buffers_ok h \<Longrightarrow> i < length (thread_manager h) \<Longrightarrow> buffers_ok (run_thread i h)"
  using length_store_run(2) [of h i] by (simp add: buffers_ok_def data_offsets_def ret_offsets_def)

lemma buffers_ok_claim:
  "buffers_ok h \<Longrightarrow> i < length (thread_manager h) \<Longrightarrow> buffers_ok (claim_thread i tid h)"
  using offsets_set_thread [of i h "\<lambda>t. t\<lparr>empty := False, thread_task := tid\<rparr>"]
  by (simp add: buffers_ok_def claim_thread_def)

lemma started_effect:
  assumes inv: "client_inv h" and i: "i < unat (max_threads h)"
  shows "length (thread_manager (started i tid h)) = length (thread_manager h)"
    and "j < unat (max_threads h) \<Longrightarrow> thread (started i tid h) j =
      (if j = i then (thread h i)\<lparr>empty := False, thread_task := tid\<rparr> else thread h j)"
    and "j < unat (max_threads h) \<Longrightarrow> data_of (started i tid h) (thread (started i tid h) j) =
      (if j = i then received_task h else data_of h (thread h j))"
    and "j < unat (max_threads h) \<Longrightarrow> result_of (started i tid h) (thread (started i tid h) j) =
      (if j = i then computed h (received_task h) else result_of h (thread h j))"
    and "buffers_ok (started i tid h)"
proof -
  note parts = client_inv_parts [OF inv]
  let ?c = "claim_thread i tid h" let ?s = "store_task i ?c"
  have i': "i < length (thread_manager h)" using parts(1) i by simp
  have len: "length (received_task ?c) = unat (task_size ?c)"
    using length_received_task [OF parts(3)] by simp
  have c: "buffers_ok ?c" by (rule buffers_ok_claim [OF parts(2) i'])
  have s: "buffers_ok ?s" using buffers_ok_store_task [OF c _ len] i' by simp
  show "length (thread_manager (started i tid h)) = length (thread_manager h)"
    by (simp add: started_def)
  show "buffers_ok (started i tid h)"
    unfolding started_def using buffers_ok_run_thread [OF s] i' by simp
  assume "j < unat (max_threads h)"
  then have j: "j < length (thread_manager h)" using parts(1) by simp
  show t: "thread (started i tid h) j =
      (if j = i then (thread h i)\<lparr>empty := False, thread_task := tid\<rparr> else thread h j)"
    using i' by (simp add: started_def thread_claim)
  have args: "in_args (thread ?c k) = in_args (thread h k)" for k
    using i' by (simp add: thread_claim)
  have data: "data_of ?s (thread ?c k) = (if k = i then received_task h else data_of h (thread h k))"
    if "k < length (thread_manager h)" for k
    using data_of_store_task [OF c _ _ len, of i k] i' that by (simp add: data_of_def args)
  have th: "thread (started i tid h) j = thread ?c j" by (simp add: started_def)
  show "data_of (started i tid h) (thread (started i tid h) j) =
      (if j = i then received_task h else data_of h (thread h j))"
    unfolding th using data [OF j] by (simp add: started_def)
  have "thread_func (thread ?c i) = computation_func h"
    using parts(4) [OF i] i' by (simp add: thread_claim thread_ok_def)
  then show "result_of (started i tid h) (thread (started i tid h) j) =
      (if j = i then computed h (received_task h) else result_of h (thread h j))"
    unfolding th using result_of_run_thread [OF s, of i j] i' j data [OF i']
    by (simp add: started_def computed_def result_of_def args)
qed

lemma started_simps [simp]:
  "max_threads (started i tid h) = max_threads h" "task_size (started i tid h) = task_size h"
  "ret_size (started i tid h) = ret_size h" "server_conn (started i tid h) = server_conn h"
  "initial_requests (started i tid h) = initial_requests h"
  "computation_func (started i tid h) = computation_func h"
  "recv_ok (started i tid h) = recv_ok h" "computed (started i tid h) d = computed h d"
  by (simp_all add: started_def recv_ok_def computed_def)

lemma client_inv_started:
  assumes inv: "client_inv h" and free: "find_index empty (thread_manager h) = Some i"
  shows "client_inv (started i tid h)"
proof -
  note parts = client_inv_parts [OF inv]
  have i: "i < unat (max_threads h)" "empty (thread h i)"
    using free parts(1) by (auto simp: find_index_Some thread_def)
  note eff = started_effect [OF inv i(1)]
  have "thread_ok (started i tid h) (thread (started i tid h) j)" if j: "j < unat (max_threads h)" for j
    using parts(4) [OF j] parts(4) [OF i(1)] eff(2-4) [OF j, where tid = tid] i(2)
    by (cases "j = i") (auto simp: thread_ok_def)
  then show ?thesis using eff(1,5) parts by (simp add: client_inv_def)
qed

lemma slots_started:
  assumes inv: "client_inv h" and free: "find_index empty (thread_manager h) = Some i"
  shows "slots (started i tid h) = (slots h)[i := Running tid (received_task h)]"
proof (rule nth_equalityI)
  note parts = client_inv_parts [OF inv]
  have i: "i < unat (max_threads h)" "empty (thread h i)"
    using free parts(1) by (auto simp: find_index_Some thread_def)
  note eff = started_effect [OF inv i(1)]
  show "length (slots (started i tid h)) = length ((slots h)[i := Running tid (received_task h)])"
    using eff(1) by simp
  fix j assume "j < length (slots (started i tid h))"
  then have j: "j < unat (max_threads h)" "j < length (thread_manager h)" using eff(1) parts(1) by simp_all
  show "slots (started i tid h) ! j = (slots h)[i := Running tid (received_task h)] ! j"
    using eff(2,3) [OF j(1), where tid = tid] parts(4) [OF i(1)] i j(2) eff(1)
    by (cases "j = i") (auto simp: nth_slots slot_def thread_ok_def)
qed

lemma settings_started:
  assumes "client_inv h" and "i < unat (max_threads h)"
  shows "settings (started i tid h) = settings h"
  using settings_set_thread [of i h "\<lambda>t. t\<lparr>empty := False, thread_task := tid\<rparr>"] client_inv_parts(1) [OF assms(1)] assms(2)
  by (simp add: started_def claim_thread_def)

lemma step_started:
  assumes inv: "client_inv h" and free: "find_index empty (thread_manager h) = Some i"
  shows "slot_step (view h) (view (started i tid h))"
  using slots_started [OF assms] free by (auto simp: view_def find_idle intro: slot_step.start)

text \<open>The programs.\<close>

lemma wpg_computation_wrapper:
  assumes inv: "buffers_ok (hnd w)" and i: "i < length (thread_manager (hnd w))"
  shows "wpg d (computation_wrapper E i) Q S w = (\<forall>r.
     answers E (upd (run_thread i) w) (Write (event_fd (thread (hnd w) i)) (mem_of_u64 (host E) 1)) r \<longrightarrow>
     (let w' = log (Write (event_fd (thread (hnd w) i)) (mem_of_u64 (host E) 1)) r (upd (run_thread i) w) in
      if r_ret r = -1 then S (Fatal ''Unable to write to event-fd'') w' else Q () w'))"
proof -
  let ?h = "hnd w" let ?t = "thread ?h i"
  have fits: "\<not> length (ret_buffer ?h) < ret_pack (in_args ?t) + unat (ret_size ?h)"
    using regions_fit [of "unat (ret_size ?h)" "length (ret_buffer ?h)" "ret_offsets ?h" i] inv i
    by (simp add: buffers_ok_def nth_offsets)
  have "upd (\<lambda>h. h\<lparr>ret_buffer := blit (ret_buffer h) (ret_pack (in_args ?t))
      (fit (unat (ret_size ?h)) (thread_func ?t
        (slice (data_pack (in_args ?t)) (unat (task_size ?h)) (task_buffer ?h))))\<rparr>) w = upd (run_thread i) w"
    by (simp add: upd_def run_thread_def data_of_def)
  then show ?thesis using fits by (simp add: computation_wrapper_def wp Let_def)
qed

lemma wpg_start_computation:
  assumes inv: "client_inv (hnd w)"
    and full: "find_index empty (thread_manager (hnd w)) = None \<Longrightarrow>
      S (Bug ''Recieved spare computation task'') w"
    and ok: "\<And>i w'. find_index empty (thread_manager (hnd w)) = Some i \<Longrightarrow>
      hnd w' = started i tid (hnd w) \<Longrightarrow> Q () w'"
    and fatal: "\<And>msg w'. S (Fatal msg) w'"
  shows "wpg d (start_computation E tid) Q S w"
proof (cases "find_index empty (thread_manager (hnd w))")
  case None
  then show ?thesis
    using full client_inv_parts(1) [OF inv] by (simp add: start_computation_def wp)
next
  case (Some i)
  let ?h = "hnd w" let ?c = "claim_thread i tid ?h" let ?s = "store_task i ?c"
  note parts = client_inv_parts [OF inv]
  have i: "i < length (thread_manager ?h)" using Some by (simp add: find_index_Some)
  have len: "length (received_task ?c) = unat (task_size ?c)"
    using length_received_task [OF parts(3)] by simp
  have c: "buffers_ok ?c" by (rule buffers_ok_claim [OF parts(2) i])
  have s: "buffers_ok ?s" using buffers_ok_store_task [OF c _ len] i by simp
  have two: "set_thread i (\<lambda>t. t\<lparr>thread_task := tid\<rparr>) (set_thread i (\<lambda>t. t\<lparr>empty := False\<rparr>) ?h) = ?c"
    using i by (simp add: claim_thread_def set_thread_def thread_def)
  have fits: "\<not> length (task_buffer ?h) < data_pack (in_args (thread ?h i)) + unat (task_size ?h)"
    using regions_fit [of "unat (task_size ?h)" "length (task_buffer ?h)" "data_offsets ?h" i] parts(2) i
    by (simp add: buffers_ok_def nth_offsets)
  have args: "in_args (thread ?c i) = in_args (thread ?h i)" "in_args (thread (set_thread i (\<lambda>t. t\<lparr>empty := False\<rparr>) ?h) i) = in_args (thread ?h i)"
    using i by (simp_all add: thread_claim thread_set_thread)
  have st: "?c\<lparr>task_buffer := blit (task_buffer ?h) (data_pack (in_args (thread ?h i)))
      (slice sizeof_header (unat (task_size ?h)) (recv_buffer (server_conn ?h)))\<rparr> = ?s"
    by (simp add: store_task_def args received_task_def)
  have run: "wpg d (computation_wrapper E i) Q S w'" if "hnd w' = ?s" for w' :: "client world"
    using that s i ok [OF Some] fatal
    by (subst wpg_computation_wrapper) (auto simp: started_def Let_def)
  show ?thesis
    using Some parts(1) fits
    by (auto simp: start_computation_def run_on_thread_def wp args two st fatal intro!: run)
qed

section \<open>The end of a computation\<close>

text \<open>A thread that was started and whose end has not been noticed yet.\<close>

definition running :: "thread_info \<Rightarrow> bool" where
  "running t \<longleftrightarrow> \<not> empty t \<and> \<not> waiting_to_be_sent t"

definition finished :: "nat \<Rightarrow> client \<Rightarrow> client" where
  "finished i = set_thread i (\<lambda>t. t\<lparr>waiting_to_be_sent := True\<rparr>)"

lemma step_finished:
  assumes inv: "client_inv h" and i: "i < unat (max_threads h)" and run: "running (thread h i)"
  shows "client_inv (finished i h)" and "slot_step (view h) (view (finished i h))"
    and "settings (finished i h) = settings h"
proof -
  note parts = client_inv_parts [OF inv]
  have i': "i < length (thread_manager h)" using i parts(1) by simp
  show "client_inv (finished i h)"
    unfolding finished_def
    by (rule client_inv_set_thread [OF inv i])
      (use parts(4) [OF i] run in \<open>simp_all add: thread_ok_def running_def result_of_def data_of_def\<close>)
  show "settings (finished i h) = settings h"
    unfolding finished_def by (rule settings_set_thread [OF i']) simp_all
  have "slots (finished i h) = (slots h)[i := Ready (thread_task (thread h i)) (data_of h (thread h i))]"
    using i' run by (simp add: finished_def slots_set_thread running_def slot_def data_of_def)
  moreover have "slots h ! i = Running (thread_task (thread h i)) (data_of h (thread h i))"
    using i' run by (simp add: nth_slots slot_def running_def)
  ultimately show "slot_step (view h) (view (finished i h))"
    using i' by (auto simp: view_def finished_def intro!: slot_step.finish)
qed

section \<open>Sending a result\<close>

definition result_sent :: "nat \<Rightarrow> client \<Rightarrow> client" where
  "result_sent i = set_thread i (\<lambda>t. t\<lparr>waiting_to_be_sent := False, empty := True\<rparr>)"

lemma step_result_sent:
  assumes inv: "client_inv h" and i: "i < unat (max_threads h)" and w: "waiting_to_be_sent (thread h i)"
  shows "client_inv (result_sent i h)" and "slot_step (view h) (view (result_sent i h))"
    and "settings (result_sent i h) = settings h"
proof -
  note parts = client_inv_parts [OF inv]
  have i': "i < length (thread_manager h)" using i parts(1) by simp
  show "client_inv (result_sent i h)"
    unfolding result_sent_def
    by (rule client_inv_set_thread [OF inv i])
      (use parts(4) [OF i] in \<open>simp_all add: thread_ok_def\<close>)
  show "settings (result_sent i h) = settings h"
    unfolding result_sent_def by (rule settings_set_thread [OF i']) simp_all
  have "slots (result_sent i h) = (slots h)[i := Idle]"
    using i' by (simp add: result_sent_def slots_set_thread slot_def)
  moreover have "slots h ! i = Ready (thread_task (thread h i)) (data_of h (thread h i))"
    using i' w parts(4) [OF i] by (simp add: nth_slots slot_def thread_ok_def)
  ultimately show "slot_step (view h) (view (result_sent i h))"
    using i' by (auto simp: view_def result_sent_def intro!: slot_step.send)
qed

definition asked :: "client \<Rightarrow> client" where
  "asked h = h\<lparr>initial_requests := initial_requests h - 1\<rparr>"

lemma step_asked:
  assumes inv: "client_inv h" and some: "initial_requests h \<noteq> 0"
  shows "client_inv (asked h)" and "slot_step (view h) (view (asked h))" and "settings (asked h) = settings h"
proof -
  show "client_inv (asked h)"
    using inv by (simp add: asked_def client_inv_def buffers_ok_def recv_ok_def data_offsets_def
        ret_offsets_def thread_def thread_ok_def result_of_def data_of_def computed_def)
  show "settings (asked h) = settings h" by (simp add: asked_def settings_def)
  have "slots (asked h) = slots h" by (simp add: slots_def asked_def slot_def data_of_def)
  moreover have "unat (initial_requests h) = Suc (unat (initial_requests (asked h)))"
    using some unat_minus_1 [of "initial_requests h"] unat_gt_0 [of "initial_requests h"]
    by (simp add: asked_def)
  ultimately show "slot_step (view h) (view (asked h))"
    by (simp add: view_def slot_step.ask)
qed

end
