(* ===== verification/ClientMessages.thy ===== *)
theory ClientMessages
  imports ClientSteps
begin

text \<open>
  The two ends of the client's connection: what a read does to the receive buffer, and which
  bytes a send hands to the kernel and how its answer becomes the operation's result.
\<close>

section \<open>Receiving\<close>

definition client_refill :: "u8 list \<Rightarrow> size_t \<Rightarrow> client \<Rightarrow> client" where
  "client_refill buf m = set_server_conn (\<lambda>c. c\<lparr>recv_buffer := buf, bytes_recieved := m\<rparr>)"

lemma client_refill_simps [simp]:
  "thread_manager (client_refill buf m h) = thread_manager h"
  "thread (client_refill buf m h) i = thread h i"
  "max_threads (client_refill buf m h) = max_threads h" "task_size (client_refill buf m h) = task_size h"
  "ret_size (client_refill buf m h) = ret_size h" "task_buffer (client_refill buf m h) = task_buffer h"
  "ret_buffer (client_refill buf m h) = ret_buffer h" "view (client_refill buf m h) = view h"
  "slots (client_refill buf m h) = slots h"
  "initial_requests (client_refill buf m h) = initial_requests h"
  "computation_func (client_refill buf m h) = computation_func h"
  "settings (client_refill buf m h) = settings h" "buffers_ok (client_refill buf m h) = buffers_ok h"
  "thread_ok (client_refill buf m h) t = thread_ok h t"
  "recv_buffer (server_conn (client_refill buf m h)) = buf"
  "bytes_recieved (server_conn (client_refill buf m h)) = m"
  "socket_fd (server_conn (client_refill buf m h)) = socket_fd (server_conn h)"
  by (simp_all add: client_refill_def set_server_conn_def thread_def view_def slots_def slot_def
      data_of_def settings_def buffers_ok_def data_offsets_def ret_offsets_def thread_ok_def
      result_of_def computed_def cong: map_cong)

definition task_message_size :: "client \<Rightarrow> nat" where
  "task_message_size h = sizeof_header + unat (task_size h)"

lemma client_inv_refill:
  "client_inv h \<Longrightarrow> length buf = task_message_size h \<Longrightarrow> unat m < task_message_size h \<Longrightarrow>
   client_inv (client_refill buf m h)"
  by (simp add: client_inv_def recv_ok_def task_message_size_def)

text \<open>The buffer after \<open>n\<close> more bytes, and the header the read hands back.\<close>

definition filled :: "client \<Rightarrow> sysret \<Rightarrow> u8 list" where
  "filled h r = blit (recv_buffer (server_conn h)) (unat (bytes_recieved (server_conn h)))
     (fit (nat (r_ret r)) (r_data r))"

lemma wpg_client_keep_data:
  assumes ok: "recv_ok (hnd w)" and n: "0 < r_ret r"
    "unat (bytes_recieved (server_conn (hnd w))) + nat (r_ret r) \<le> task_message_size (hnd w)"
  shows "wpg d (client_keep_data E header r) Q S w =
    (let m = unat (bytes_recieved (server_conn (hnd w))) + nat (r_ret r) in
     if m = task_message_size (hnd w)
     then Q (parse_header (host E) (filled (hnd w) r)) (upd (client_refill (filled (hnd w) r) 0) w)
     else Q (header\<lparr>cmd := ERR_NOT_READY\<rparr>) (upd (client_refill (filled (hnd w) r) (of_nat m)) w))"
proof -
  let ?h = "hnd w" let ?c = "server_conn ?h"
  have small: "task_message_size ?h < 2 ^ 64" using ok by (simp add: recv_ok_def task_message_size_def)
  have len: "length (recv_buffer ?c) = task_message_size ?h" using ok by (simp add: recv_ok_def task_message_size_def)
  have u: "unat (bytes_recieved ?c + word_of_int (r_ret r)) = unat (bytes_recieved ?c) + nat (r_ret r)"
    using small n by (intro unat_plus_word_of_int) linarith+
  have pos: "bytes_recieved ?c + word_of_int (r_ret r) =
      of_nat (unat (bytes_recieved ?c) + nat (r_ret r))"
    using small n(2) by (subst word_unat_eq_iff, subst unat_of_nat_64) (linarith, rule u)
  have full: "bytes_recieved ?c + word_of_int (r_ret r) = client_recv_buffer_size ?h \<longleftrightarrow>
      unat (bytes_recieved ?c) + nat (r_ret r) = task_message_size ?h"
    unfolding word_unat_eq_iff u unat_client_recv_buffer_size [OF ok] task_message_size_def ..
  define buf where "buf = filled ?h r"
  define m where "m = bytes_recieved ?c + word_of_int (r_ret r)"
  have one: "upd (set_server_conn (\<lambda>c. c\<lparr>recv_buffer := blit (recv_buffer c) (unat (bytes_recieved ?c)) (fit (nat (r_ret r)) (r_data r)),
      bytes_recieved := bytes_recieved c + word_of_int (r_ret r)\<rparr>)) w = upd (client_refill buf m) w"
    by (simp add: upd_def set_server_conn_def client_refill_def buf_def m_def filled_def)
  have two: "upd (set_server_conn (\<lambda>c. c\<lparr>bytes_recieved := 0\<rparr>)) (upd (client_refill buf m) w) =
      upd (client_refill buf 0) w"
    by (simp add: upd_def client_refill_def set_server_conn_def)
  have full: "m = client_recv_buffer_size ?h \<longleftrightarrow>
      unat (bytes_recieved ?c) + nat (r_ret r) = task_message_size ?h"
    unfolding m_def by (rule full)
  have m: "of_nat (unat (bytes_recieved ?c) + nat (r_ret r)) = m" unfolding m_def by (rule pos [symmetric])
  have no_undef: "(length (recv_buffer ?c) < unat (bytes_recieved ?c) + nat (r_ret r)) = False"
    using len n(2) by simp
  show ?thesis
    unfolding client_keep_data_def Let_def wpg_bind wpg_get wpg_andthen wpg_undef_if wpg_modify no_undef if_False one
    by (simp only: wpg_if wpg_andthen wpg_modify wpg_return upd_simps client_refill_simps full two m buf_def [symmetric])
qed

text \<open>
  The possible outcomes of a read: nothing was there, the connection is broken, a part of a
  message was kept, or the message is complete.
\<close>

definition client_received :: "env \<Rightarrow> request_header \<Rightarrow> client \<Rightarrow> request_header \<Rightarrow> client \<Rightarrow> bool" where
  "client_received E header h hdr h' \<longleftrightarrow>
     h' = h \<and> hdr = header\<lparr>cmd := ERR_NOT_READY\<rparr> \<or>
     h' = h \<and> hdr = header\<lparr>cmd := ERR_CONN_BROKEN\<rparr> \<or>
     (\<exists>buf m. length buf = task_message_size h \<and> unat m < task_message_size h \<and> h' = client_refill buf m h \<and>
        (hdr = header\<lparr>cmd := ERR_NOT_READY\<rparr> \<or> m = 0 \<and> hdr = parse_header (host E) buf))"

lemma client_receivedI:
  assumes "length buf = task_message_size h" and "unat m < task_message_size h"
  shows "client_received E header h (header\<lparr>cmd := ERR_NOT_READY\<rparr>) (client_refill buf m h)"
    and "m = 0 \<Longrightarrow> client_received E header h (parse_header (host E) buf) (client_refill buf m h)"
  using assms unfolding client_received_def by blast+

lemma wpg_client_read_data:
  assumes sound: "kernel_sound E" and ok: "recv_ok (hnd w)"
    and Q: "\<And>hdr w'. client_received E header (hnd w) hdr (hnd w') \<Longrightarrow> Q hdr w'"
    and S: "\<And>msg w'. S (Fatal msg) w'"
  shows "wpg d (client_read_data E header) Q S w"
proof -
  let ?h = "hnd w" let ?c = "server_conn ?h"
  let ?call = "Recv (socket_fd ?c) (client_recv_buffer_size ?h - bytes_recieved ?c) 0"
  have left: "unat (client_recv_buffer_size ?h - bytes_recieved ?c) =
      task_message_size ?h - unat (bytes_recieved ?c)"
    using ok unat_client_recv_buffer_size [OF ok]
    by (simp add: task_message_size_def recv_ok_def unat_sub word_le_nat_alt)
  have keep: "wpg d (client_keep_data E header r) Q S (log ?call r w)"
    if r: "answers E w ?call r" and n: "r_ret r \<noteq> -1" "r_ret r \<noteq> 0" for r
  proof -
    have "0 < r_ret r" using kernel_sound_recv [OF sound r] n by simp
    moreover have fits: "unat (bytes_recieved ?c) + nat (r_ret r) \<le> task_message_size ?h"
      using kernel_sound_recv [OF sound r] ok left unfolding recv_ok_def task_message_size_def by linarith
    moreover have len: "length (filled ?h r) = task_message_size ?h"
      using fits ok by (simp add: filled_def recv_ok_def task_message_size_def)
    moreover have "unat (of_nat (unat (bytes_recieved ?c) + nat (r_ret r)) :: size_t) < task_message_size ?h"
      if "unat (bytes_recieved ?c) + nat (r_ret r) \<noteq> task_message_size ?h"
    proof -
      have less: "unat (bytes_recieved ?c) + nat (r_ret r) < task_message_size ?h" using fits that by simp
      moreover have "task_message_size ?h < 2 ^ 64" using ok by (simp add: recv_ok_def task_message_size_def)
      ultimately have "unat (of_nat (unat (bytes_recieved ?c) + nat (r_ret r)) :: size_t) =
          unat (bytes_recieved ?c) + nat (r_ret r)" by (intro unat_of_nat_64) linarith
      with less show ?thesis by linarith
    qed
    moreover have "0 < task_message_size ?h" by (simp add: task_message_size_def sizeof_header_def)
    ultimately show ?thesis
      using ok
      by (subst wpg_client_keep_data) (auto simp: Let_def intro!: Q client_receivedI)
  qed
  show ?thesis
    using Q S keep by (simp add: client_read_data_def wp client_received_def)
qed

section \<open>Sending\<close>

text \<open>The bytes behind the header.\<close>

definition put_bytes :: "env \<Rightarrow> nat option \<Rightarrow> client world \<Rightarrow> u8 list" where
  "put_bytes E ci w = (case ci of
     None \<Rightarrow> fit (unat (ret_size (hnd w))) (junk E (trace w) (unat (ret_size (hnd w))))
   | Some i \<Rightarrow> result_of (hnd w) (thread (hnd w) i))"

text \<open>What the answer of \<open>send\<close> means; \<open>None\<close> where the process stops.\<close>

definition put_result :: "client \<Rightarrow> request_header \<Rightarrow> sysret \<Rightarrow> request_header option" where
  "put_result h header r =
     (if word_of_int (r_ret r) = of_nat sizeof_header + ret_size h then Some header
      else if r_ret r = -1 \<and> r_errno r = EAGAIN then Some (header\<lparr>cmd := ERR_NOT_READY\<rparr>)
      else if r_ret r = -1 \<and> r_errno r = EPIPE then Some (header\<lparr>cmd := ERR_CONN_BROKEN\<rparr>)
      else None)"

lemma wpg_put_payload:
  assumes inv: "client_inv (hnd w)" and ci: "\<And>i. ci = Some i \<Longrightarrow> i < unat (max_threads (hnd w))"
  shows "wpg d (put_payload E ci) Q S w =
    (if 251 < unat (ret_size (hnd w)) then S (Undef ''send_buffer overflow'') w
     else Q (put_bytes E ci w) w)"
proof -
  note parts = client_inv_parts [OF inv]
  have "\<not> length (ret_buffer (hnd w)) < ret_pack (in_args (thread (hnd w) i)) + unat (ret_size (hnd w))"
    if "ci = Some i" for i
    using regions_fit [of "unat (ret_size (hnd w))" "length (ret_buffer (hnd w))" "ret_offsets (hnd w)" i]
      parts(1,2) ci [OF that] by (simp add: buffers_ok_def nth_offsets)
  then show ?thesis
    using ci parts(1)
    by (auto simp: put_payload_def wp put_bytes_def sizeof_header_def result_of_def split: option.splits)
qed

lemma wpg_client_put_data:
  assumes inv: "client_inv (hnd w)" and ci: "\<And>i. ci = Some i \<Longrightarrow> i < unat (max_threads (hnd w))"
    and c: "cmd header = CMD_REQUEST_FOR_DATA \<or> cmd header = CMD_RESULT"
  shows "wpg d (client_put_data E ci header) Q S w =
    (let h = hnd w; msg = header_bytes (host E) header @ put_bytes E ci w;
         snd = Send (socket_fd (server_conn h)) msg MSG_NOSIGNAL in
     if 256 \<le> of_nat sizeof_header + task_size h then S (Bug ''Send buffer too small'') w
     else if 251 < unat (ret_size h) then S (Undef ''send_buffer overflow'') w
     else (\<forall>r. answers E w snd r \<longrightarrow> (case put_result h header r of
         None \<Rightarrow> S (Fatal ''Unable to send() data'') (log snd r w)
       | Some hdr \<Rightarrow> Q hdr (log snd r w))))"
  using c
  by (auto simp: client_put_data_def wpg_put_payload [OF inv ci] wpg_bind wpg_get wpg_andthen wpg_bug_on
      wpg_call wpg_if wpg_return wpg_halt Let_def put_result_def EWOULDBLOCK_def cong: conj_cong)

end
