(* ===== verification/ClientSafety.thy ===== *)
theory ClientSafety
  imports ClientMessages
begin

text \<open>
  Every block of the client's event loop keeps the invariant and makes only steps of the
  abstract slots; the only undefined behaviour it can run into is the overflow of the send
  buffer by a result of more than 251 bytes.
\<close>

text \<open>
  The invariant for a history that began with the handle \<open>q\<close>, while the threads in \<open>R\<close> are
  running.
\<close>

definition client_at :: "client \<Rightarrow> nat set \<Rightarrow> client \<Rightarrow> bool" where
  "client_at q R h \<longleftrightarrow> client_inv h \<and> client_evolved q h \<and>
     (\<forall>i \<in> R. i < unat (max_threads h) \<and> running (thread h i))"

definition big_result :: "client \<Rightarrow> bool" where
  "big_result h \<longleftrightarrow> 251 < unat (ret_size h)"

text \<open>How the client may stop; \<open>big\<close> says whether results can overflow the send buffer.\<close>

definition client_stop :: "bool \<Rightarrow> stop \<Rightarrow> bool" where
  "client_stop big e \<longleftrightarrow> orderly e \<or> big \<and> e = Undef ''send_buffer overflow''"

lemma client_stop_simps [simp]:
  "client_stop b (Fatal msg)" "client_stop b (Bug msg)" "client_stop b Quit"
  by (simp_all add: client_stop_def)

interpretation cl: contract "client_at q R" "client_stop b" for q R b
  by unfold_locales (simp add: client_stop_def)

lemma client_at_parts:
  assumes "client_at q R h"
  shows "client_inv h" and "client_evolved q h" and "settings h = settings q"
    and "ret_size h = ret_size q" and "max_threads h = max_threads q"
  using assms by (auto simp: client_at_def client_evolved_def settings_def)

lemma client_at_weaken: "client_at q R h \<Longrightarrow> R' \<subseteq> R \<Longrightarrow> client_at q R' h"
  by (auto simp: client_at_def)

text \<open>Updates that the threads and their buffers do not see.\<close>

lemma client_at_frame:
  assumes "client_at q R h" and "client_inv h'" and "view h' = view h" and "settings h' = settings h"
    and "thread_manager h' = thread_manager h"
  shows "client_at q R h'"
  using assms by (auto simp: client_at_def thread_def settings_def intro: client_evolved_same)

lemma client_at_server_addr: "client_at q R h \<Longrightarrow> client_at q R (h\<lparr>server_addr := a\<rparr>)"
  by (rule client_at_frame, assumption)
    (auto simp: client_at_def client_inv_def buffers_ok_def recv_ok_def data_offsets_def ret_offsets_def
      thread_def thread_ok_def result_of_def data_of_def computed_def view_def slots_def slot_def settings_def)

lemma client_at_socket_fd:
  "client_at q R h \<Longrightarrow> client_at q R (set_server_conn (\<lambda>c. c\<lparr>socket_fd := fd\<rparr>) h)"
  by (rule client_at_frame, assumption)
    (auto simp: client_at_def client_inv_def buffers_ok_def recv_ok_def data_offsets_def ret_offsets_def
      thread_def thread_ok_def result_of_def data_of_def computed_def view_def slots_def slot_def settings_def
      set_server_conn_def)

lemma client_at_refill:
  "client_at q R h \<Longrightarrow> length buf = task_message_size h \<Longrightarrow> unat m < task_message_size h \<Longrightarrow>
   client_at q R (client_refill buf m h)"
  by (rule client_at_frame, assumption) (auto dest!: client_at_parts(1) intro: client_inv_refill)

section \<open>Discovery and connecting\<close>

lemma silent_perform_discovery_send: "silent (perform_discovery_send E)"
  by (rule silentI) (simp add: wp perform_discovery_send_def)

lemma silent_client_pause_discovery: "silent (client_pause_discovery E)"
  by (rule silentI) (simp add: wp client_pause_discovery_def)

lemma silent_client_start_discovery: "silent (client_start_discovery E)"
  by (rule silentI) (simp add: wp client_start_discovery_def)

lemma silent_client_update_connection: "silent (client_update_connection E b)"
  by (rule silentI) (simp add: wp client_update_connection_def)

lemma silent_configure_server_conn: "silent (configure_server_conn E fd)"
  by (rule silentI) (simp add: wp configure_server_conn_def)

lemma silent_connect_round: "silent (connect_round E fd addr)"
  by (rule silentI) (simp add: wp connect_round_def)

lemma keeps_must_ok: "cl.keeps q R b (must_ok E c msg)"
  by (rule cl.keepsI) (simp add: wp)

lemma keeps_must_zero: "cl.keeps q R b (must_zero E c msg)"
  by (rule cl.keepsI) (simp add: wp)

lemma keeps_try_address: "cl.keeps q R b (try_address E ai)"
  unfolding try_address_def
  by (intro cl.keeps_bind cl.keeps_call cl.keeps_if cl.keeps_return cl.keeps_loop
      cl.keeps_silent silent_connect_round)

lemma keeps_connect: "cl.keeps q R b (connect_local E)" "cl.keeps q R b (connect_distant E)"
proof -
  have fd: "cl.keeps q R b (modify (set_server_conn (\<lambda>c. c\<lparr>socket_fd := fd\<rparr>)))" for fd
    by (rule cl.keeps_modify) (rule client_at_socket_fd)
  have must: "cl.keeps q R b (must E c msg)" for c msg by (rule cl.keepsI) (simp add: wp)
  show "cl.keeps q R b (connect_local E)"
    unfolding connect_local_def
    by (intro cl.keeps_bind cl.keeps_get_bind must cl.keeps_block) (auto simp: fd keeps_must_ok)
  have found: "cl.keeps q R b (case found of None \<Rightarrow> halt (Fatal msg)
      | Some fd \<Rightarrow> modify (set_server_conn (\<lambda>c. c\<lparr>socket_fd := fd\<rparr>)))" for found :: "int option" and msg
    by (cases found) (simp_all add: fd cl.keeps_halt)
  show "cl.keeps q R b (connect_distant E)"
    unfolding connect_distant_def
    by (intro cl.keeps_get_bind cl.keeps_bind cl.keeps_call cl.keeps_andthen cl.keeps_fail_if
        cl.keeps_for_until keeps_try_address found)
qed

lemma keeps_client_start_connection: "cl.keeps q R b (client_start_connection E)"
  unfolding client_start_connection_def
  by (intro cl.keeps_get_bind cl.keeps_andthen cl.keeps_if keeps_connect cl.keeps_block)
    (auto intro: cl.keeps_silent silent_configure_server_conn keeps_must_ok)

lemma keeps_catch: "cl.keeps q R b (catch_servers_discovery_datagram E)"
proof -
  have addr: "cl.keeps q R b (modify (\<lambda>h. h\<lparr>server_addr := a\<rparr>))" for a
    by (rule cl.keeps_modify) (rule client_at_server_addr)
  have stmts: "cl.keeps q R b (block [modify (\<lambda>h. h\<lparr>server_addr := a\<rparr>), must_zero E c msg,
      client_start_connection E, client_pause_discovery E])" for a c msg
    by (rule cl.keeps_block) (auto simp: addr keeps_must_zero keeps_client_start_connection
        intro: cl.keeps_silent silent_client_pause_discovery)
  show ?thesis
    unfolding catch_servers_discovery_datagram_def catch_round_def
    by (intro cl.keeps_get_bind cl.keeps_andthen cl.keeps_bug_on cl.keeps_loop cl.keeps_bind
        cl.keeps_call cl.keeps_fail_if cl.keeps_if cl.keeps_return stmts)
qed

section \<open>Receiving\<close>

lemma client_at_started:
  assumes inv: "client_at q R h" and free: "find_index empty (thread_manager h) = Some i"
  shows "client_at q R (started i tid h)"
proof -
  note c = client_at_parts(1) [OF inv]
  have i: "i < unat (max_threads h)" "empty (thread h i)"
    using free client_inv_parts(1) [OF c] by (auto simp: find_index_Some thread_def)
  have "j < unat (max_threads h) \<and> running (thread (started i tid h) j)" if "j \<in> R" for j
    using that inv i(2) started_effect(2) [OF c i(1), of j] by (auto simp: client_at_def running_def)
  moreover have "client_evolved q (started i tid h)"
    by (rule client_evolved_step [OF client_at_parts(2) [OF inv] step_started [OF c free] settings_started [OF c i(1)]])
  ultimately show ?thesis using client_inv_started [OF c free] by (simp add: client_at_def)
qed

lemma keeps_start_computation: "cl.keeps q R b (start_computation E tid)"
  by (rule cl.keepsI, rule wpg_start_computation)
    (auto dest: client_at_parts(1) intro: client_at_started)

lemma keeps_goes_on: "cl.keeps q R b m \<Longrightarrow> cl.keeps q R b (goes_on m)"
  unfolding goes_on_def by (intro cl.keeps_andthen cl.keeps_return)

lemma keeps_handle_command: "cl.keeps q R b (handle_command E header)"
  unfolding handle_command_def
  by (intro cl.keeps_if keeps_goes_on keeps_start_computation cl.keeps_return cl.keeps_bug_on)

lemma keeps_client_read_data:
  assumes "kernel_sound E"
  shows "cl.keeps q R b (client_read_data E header)"
proof (rule cl.keepsI)
  fix w :: "client world" assume inv: "client_at q R (hnd w)"
  show "wpg True (client_read_data E header) (\<lambda>_ w'. client_at q R (hnd w')) (\<lambda>e _. client_stop b e) w"
    by (rule wpg_client_read_data [OF assms client_inv_parts(3) [OF client_at_parts(1) [OF inv]]])
      (use inv client_at_refill [OF inv, of _ 0] in \<open>auto simp: client_received_def intro: client_at_refill\<close>)
qed

lemma keeps_uninitialised: "cl.keeps q R b (uninitialised_header E)"
  by (rule cl.keepsI) (simp add: uninitialised_header_def wp)

lemma keeps_receive_from_server: "kernel_sound E \<Longrightarrow> cl.keeps q R b (receive_from_server E)"
  unfolding receive_from_server_def
  by (intro cl.keeps_bind keeps_uninitialised keeps_client_read_data keeps_handle_command)

section \<open>Collecting results\<close>

text \<open>
  The first event of a batch names the event descriptor of a thread only if the thread was
  started and not yet collected: what epoll promises about a counter that is zero.
\<close>

definition signalled :: "int \<Rightarrow> nat set \<Rightarrow> client \<Rightarrow> bool" where
  "signalled first_fd R h \<longleftrightarrow>
     (\<forall>i < unat (max_threads h). event_fd (thread h i) = first_fd \<longrightarrow> i \<in> R)"

lemma event_fd_settings:
  assumes "settings h = settings q" and "i < length (thread_manager h)"
  shows "event_fd (thread h i) = event_fd (thread q i)"
proof -
  have eq: "map event_fd (thread_manager h) = map event_fd (thread_manager q)"
    using assms(1) by (simp add: settings_def)
  then have len: "length (thread_manager h) = length (thread_manager q)" by (rule map_eq_imp_length_eq)
  from arg_cong [OF eq, of "\<lambda>xs. xs ! i"] show ?thesis
    using assms(2) by (simp add: thread_def flip: len)
qed

lemma wpg_finish_computations:
  assumes inv: "client_at q R (hnd w)" and sig: "signalled first_fd R q"
  shows "wpg True (for_each [0..<unat (max_threads q)] (finish_computation E first_fd evs))
    (\<lambda>_ w'. client_at q {} (hnd w')) (\<lambda>e _. client_stop (big_result q) e) w"
proof (rule wpg_for_each_upt [where I = "\<lambda>k w. client_at q {i \<in> R. k \<le> i} (hnd w)"])
  show "client_at q {i \<in> R. 0 \<le> i} (hnd w)" using inv by simp
  show "client_at q {} (hnd w')" if "client_at q {i \<in> R. unat (max_threads q) \<le> i} (hnd w')" for w' :: "client world"
    by (rule client_at_weaken [OF that]) simp
  fix k and w :: "client world"
  assume k: "k < unat (max_threads q)" and at: "client_at q {i \<in> R. k \<le> i} (hnd w)"
  note c = client_at_parts [OF at]
  have k': "k < unat (max_threads (hnd w))" "k < length (thread_manager (hnd w))"
    using k c(5) client_inv_parts(1) [OF c(1)] by simp_all
  have fd: "event_fd (thread (hnd w) k) = event_fd (thread q k)" by (rule event_fd_settings [OF c(3) k'(2)])
  have stay: "client_at q {i \<in> R. Suc k \<le> i} (hnd w)" by (rule client_at_weaken [OF at]) auto
  have mark: "client_at q {i \<in> R. Suc k \<le> i} (finished k (hnd w))"
    if "event_fd (thread (hnd w) k) = first_fd"
  proof -
    have "k \<in> R" using that fd sig k by (simp add: signalled_def)
    then have run: "running (thread (hnd w) k)" using at by (simp add: client_at_def)
    note step = step_finished [OF c(1) k'(1) run]
    show ?thesis
      using at step(1) client_evolved_step [OF c(2) step(2,3)]
      by (auto simp: client_at_def finished_def thread_set_thread [OF k'(2)])
  qed
  have upd: "wpg True (client_update_connection E True) (\<lambda>_ w'. client_at q {i \<in> R. Suc k \<le> i} (hnd w'))
      (\<lambda>e _. client_stop (big_result q) e) w'" if "client_at q {i \<in> R. Suc k \<le> i} (hnd w')" for w' :: "client world"
    by (rule cl.keepsD [OF cl.keeps_silent [OF silent_client_update_connection] that])
  show "wpg True (finish_computation E first_fd evs k) (\<lambda>_ w'. client_at q {i \<in> R. Suc k \<le> i} (hnd w'))
      (\<lambda>e _. client_stop (big_result q) e) w"
    using stay mark
    by (auto simp: finish_computation_def mark_computation_as_ready_def wp finished_def [symmetric] intro!: upd)
qed simp

section \<open>Sending\<close>

lemma put_result_cmd:
  "put_result h header r = Some hdr \<Longrightarrow> cmd header \<noteq> ERR_CONN_BROKEN \<Longrightarrow> cmd header \<noteq> ERR_NOT_READY \<Longrightarrow>
   cmd hdr \<noteq> ERR_CONN_BROKEN \<Longrightarrow> cmd hdr \<noteq> ERR_NOT_READY \<Longrightarrow> hdr = header"
  by (auto simp: put_result_def split: if_splits)

lemma keeps_client_put_data:
  assumes inv: "client_at q R (hnd w)" and ci: "\<And>i. ci = Some i \<Longrightarrow> i < unat (max_threads q)"
    and c: "cmd header = CMD_REQUEST_FOR_DATA \<or> cmd header = CMD_RESULT"
    and Q: "\<And>hdr w'. hnd w' = hnd w \<Longrightarrow> Q hdr w'" and S: "\<And>e w'. client_stop (big_result q) e \<Longrightarrow> S e w'"
  shows "wpg True (client_put_data E ci header) Q S w"
proof -
  note p = client_at_parts [OF inv]
  have ci': "\<And>i. ci = Some i \<Longrightarrow> i < unat (max_threads (hnd w))" using ci p(5) by simp
  have "251 < unat (ret_size (hnd w)) \<Longrightarrow> client_stop (big_result q) (Undef ''send_buffer overflow'')"
    using p(4) by (simp add: client_stop_def big_result_def)
  then show ?thesis
    using Q S by (subst wpg_client_put_data [OF p(1) ci' c]) (auto simp: Let_def split: option.splits)
qed

lemma keeps_send_result_of: "i < unat (max_threads q) \<Longrightarrow> cl.keeps q {} (big_result q) (send_result_of E i)"
proof (rule cl.keepsI)
  fix w :: "client world" assume i: "i < unat (max_threads q)" and inv: "client_at q {} (hnd w)"
  note p = client_at_parts [OF inv]
  have i': "i < unat (max_threads (hnd w))" "i < length (thread_manager (hnd w))"
    using i p(5) client_inv_parts(1) [OF p(1)] by simp_all
  have two: "set_thread i (\<lambda>t. t\<lparr>empty := True\<rparr>) (set_thread i (\<lambda>t. t\<lparr>waiting_to_be_sent := False\<rparr>) (hnd w)) =
      result_sent i (hnd w)"
    using i' by (simp add: result_sent_def set_thread_def thread_def)
  have "client_at q {} (result_sent i (hnd w))" if "waiting_to_be_sent (thread (hnd w) i)"
    using step_result_sent [OF p(1) i'(1) that] client_evolved_step [OF p(2)] by (auto simp: client_at_def)
  then show "wpg True (send_result_of E i) (\<lambda>_ w'. client_at q {} (hnd w')) (\<lambda>e _. client_stop (big_result q) e) w"
    using inv i two by (auto simp: send_result_of_def wp intro!: keeps_client_put_data [OF inv])
qed

lemma keeps_request_round: "cl.keeps q {} (big_result q) (request_round E)"
proof (rule cl.keepsI)
  fix w :: "client world" assume inv: "client_at q {} (hnd w)"
  note p = client_at_parts [OF inv]
  have "client_at q {} ((hnd w)\<lparr>initial_requests := initial_requests (hnd w) - 1\<rparr>)" if "initial_requests (hnd w) \<noteq> 0"
    using step_asked [OF p(1) that] client_evolved_step [OF p(2)] by (auto simp: client_at_def asked_def)
  then show "wpg True (request_round E) (\<lambda>_ w'. client_at q {} (hnd w')) (\<lambda>e _. client_stop (big_result q) e) w"
    using inv by (auto simp: request_round_def wp intro!: keeps_client_put_data [OF inv])
qed

lemma keeps_send_to_server:
  assumes "client_at q {} (hnd w)"
  shows "wpg True (send_to_server E) (\<lambda>_ w'. client_at q {} (hnd w')) (\<lambda>e _. client_stop (big_result q) e) w"
proof -
  have results: "cl.keeps q {} (big_result q) (for_until [0..<unat (max_threads q)] (send_result_of E))"
    by (rule cl.keeps_for_until) (simp add: keeps_send_result_of)
  have rest: "cl.keeps q {} (big_result q) (case sent of
       Some lost \<Rightarrow> return (if lost then Some () else None)
     | None \<Rightarrow>
         bind (loop (request_round E)) (\<lambda>asked.
         case asked of
           Some lost \<Rightarrow> return (if lost then Some () else None)
         | None \<Rightarrow> goes_on (client_update_connection E False)))" for sent
  proof (cases sent)
    case None
    have upd: "cl.keeps q {} (big_result q) (goes_on (client_update_connection E False))"
      by (intro keeps_goes_on cl.keeps_silent silent_client_update_connection)
    have tail: "cl.keeps q {} (big_result q) (case asked of Some lost \<Rightarrow> return (if lost then Some () else None)
       | None \<Rightarrow> goes_on (client_update_connection E False))" for asked
      by (cases asked) (simp_all add: upd)
    show ?thesis unfolding None option.case
      by (intro cl.keeps_bind cl.keeps_loop keeps_request_round tail)
  qed simp
  show ?thesis
    using cl.keepsD [OF cl.keeps_bind [OF results rest] assms] client_at_parts(5) [OF assms]
    by (simp add: send_to_server_def wpg_bind wpg_get thread_indices_def)
qed

section \<open>One event\<close>

theorem wpg_client_process_event:
  assumes sound: "kernel_sound E" and inv: "client_at q R (hnd w)" and sig: "signalled first_fd R q"
  shows "wpg True (client_process_event E first_fd ev) (\<lambda>_ w'. client_at q {} (hnd w')) (\<lambda>e _. client_stop (big_result q) e) w"
proof -
  let ?S = "\<lambda>e _. client_stop (big_result q) e" and ?Q = "\<lambda>_ w'. client_at q {} (hnd w')"
  have early: "cl.keeps q R (big_result q) (goes_on (perform_discovery_send E))"
    "cl.keeps q R (big_result q) (goes_on (catch_servers_discovery_datagram E))"
    "cl.keeps q R (big_result q) (receive_from_server E)"
    by (rule keeps_goes_on cl.keeps_silent silent_perform_discovery_send keeps_catch
        keeps_receive_from_server [OF sound])+
  define m1 where "m1 = bind (get discovery_timer_fd) (\<lambda>tfd.
      if fst ev = tfd then goes_on (perform_discovery_send E) else return None)"
  define m2 where "m2 = bind (get discovery_socket_fd) (\<lambda>dfd.
      if fst ev = dfd \<and> has_event (snd ev) EPOLLIN
      then goes_on (catch_servers_discovery_datagram E) else return None)"
  define m3 where "m3 = bind (get (\<lambda>h. socket_fd (server_conn h))) (\<lambda>sfd.
      if fst ev = sfd \<and> (has_event (snd ev) EPOLLHUP \<or> has_event (snd ev) EPOLLERR)
      then return (Some ()) else (return None :: (client, unit option) prog))"
  define m4 where "m4 = bind (get (\<lambda>h. socket_fd (server_conn h))) (\<lambda>sfd.
      if fst ev = sfd \<and> has_event (snd ev) EPOLLIN then receive_from_server E else return None)"
  define m5 where "m5 = bind (get thread_indices) (\<lambda>is.
      goes_on (for_each is (finish_computation E first_fd (snd ev))))"
  define m6 where "m6 = bind (get (\<lambda>h. socket_fd (server_conn h))) (\<lambda>sfd.
      if fst ev = sfd \<and> has_event (snd ev) EPOLLOUT then send_to_server E else return None)"
  have stages: "client_process_event E first_fd ev = for_until ([m1, m2, m3, m4] @ [m5, m6]) (\<lambda>stage. stage)"
    by (simp add: client_process_event_def Let_def m1_def m2_def m3_def m4_def m5_def m6_def)
  have "cl.keeps q R (big_result q) (for_until [m1, m2, m3, m4] (\<lambda>stage. stage))"
    by (rule cl.keeps_for_until)
      (auto simp: m1_def m2_def m3_def m4_def early intro!: cl.keeps_get_bind)
  from cl.keepsD [OF this inv]
  have first: "wpg True (for_until [m1, m2, m3, m4] (\<lambda>stage. stage)) (\<lambda>_ w'. client_at q R (hnd w')) ?S w" .
  have collect: "wpg True m5 (\<lambda>r w'. r = None \<and> client_at q {} (hnd w')) ?S w'" if "client_at q R (hnd w')" for w'
    using wpg_finish_computations [OF that sig, of E "snd ev"] client_at_parts(5) [OF that]
    by (simp add: m5_def wpg_bind wpg_get thread_indices_def goes_on_def wpg_andthen wpg_return)
  have last: "wpg True m6 ?Q ?S w'" if "client_at q {} (hnd w')" for w'
    using keeps_send_to_server [OF that, of E] that by (simp add: m6_def wp)
  have rest: "wpg True (for_until [m5, m6] (\<lambda>stage. stage)) ?Q ?S w'" if "client_at q R (hnd w')" for w'
  proof -
    have tail: "wpg True (for_until [m6] (\<lambda>stage. stage)) ?Q ?S w''" if "client_at q {} (hnd w'')" for w''
      unfolding for_until.simps wpg_bind
      by (rule wpg_mono [OF last [OF that]]) (simp_all only: option.case_eq_if wpg_if wpg_return if_cancel)
    show ?thesis
      unfolding for_until.simps(2) [of m5] wpg_bind
      by (rule wpg_mono [OF collect [OF that]]) (simp_all only: option.case tail)
  qed
  show ?thesis
    unfolding stages for_until_append wpg_bind
    by (rule wpg_mono [OF first])
      (auto simp only: option.case_eq_if wpg_if wpg_return if_cancel split: if_split intro!: rest client_at_weaken [OF _ empty_subsetI])
qed

end
