(* ===== verification/ClientSend.thy ===== *)
theory ClientSend
  imports ClientSafety Kernels
begin

text \<open>
  What the client sends when its socket is writable: every ready result, in the order of the
  threads, then all its initial requests, under a kernel that takes what it is given.
\<close>

section \<open>One result\<close>

text \<open>The message with the result of thread \<open>i\<close>.\<close>

definition result_message :: "client \<Rightarrow> nat \<Rightarrow> u8 list" where
  "result_message h i = CMD_RESULT # be_bytes (thread_task (thread h i)) @
     computed h (data_of h (thread h i))"

definition small_sizes :: "client \<Rightarrow> bool" where
  "small_sizes h \<longleftrightarrow> unat (task_size h) < 251 \<and> unat (ret_size h) \<le> 251"

lemma small_sizes_facts:
  assumes "small_sizes h"
  shows "\<not> 256 \<le> of_nat sizeof_header + task_size h" and "\<not> 251 < unat (ret_size h)"
    and "unat (of_nat sizeof_header + ret_size h) = sizeof_header + unat (ret_size h)"
    and "(-1 :: size_t) \<noteq> of_nat sizeof_header + ret_size h"
proof -
  have t: "unat (of_nat sizeof_header + task_size h) = sizeof_header + unat (task_size h)"
    using assms by (simp add: small_sizes_def sizeof_header_def unat_word_ariths)
  show "\<not> 256 \<le> of_nat sizeof_header + task_size h"
    unfolding word_le_nat_alt t using assms by (simp add: small_sizes_def sizeof_header_def)
  show "\<not> 251 < unat (ret_size h)" using assms by (simp add: small_sizes_def)
  show r: "unat (of_nat sizeof_header + ret_size h) = sizeof_header + unat (ret_size h)"
    using assms by (simp add: small_sizes_def sizeof_header_def unat_word_ariths)
  show "(-1 :: size_t) \<noteq> of_nat sizeof_header + ret_size h"
  proof
    assume "(-1 :: size_t) = of_nat sizeof_header + ret_size h"
    then have "unat (-1 :: size_t) = sizeof_header + unat (ret_size h)" by (simp only: r)
    then show False using assms unfolding unat_minus_1_64 sizeof_header_def small_sizes_def by linarith
  qed
qed

lemma put_result_cases:
  assumes "small_sizes h"
  shows "r_ret r = int (sizeof_header + unat (ret_size h)) \<Longrightarrow> put_result h header r = Some header"
    and "r_ret r = -1 \<Longrightarrow> r_errno r = EAGAIN \<Longrightarrow> put_result h header r = Some (header\<lparr>cmd := ERR_NOT_READY\<rparr>)"
    and "r_ret r = -1 \<Longrightarrow> r_errno r = EPIPE \<Longrightarrow> put_result h header r = Some (header\<lparr>cmd := ERR_CONN_BROKEN\<rparr>)"
proof -
  have "(word_of_int (int (sizeof_header + unat (ret_size h))) :: size_t) = of_nat sizeof_header + ret_size h"
    by simp
  then show "r_ret r = int (sizeof_header + unat (ret_size h)) \<Longrightarrow> put_result h header r = Some header"
    by (simp only: put_result_def if_True refl)
qed (use small_sizes_facts(4) [OF assms] in \<open>simp_all add: put_result_def\<close>)

text \<open>A ready result, for every answer of the kernel.\<close>

lemma wpg_send_result_of:
  assumes inv: "client_inv (hnd w)" and i: "i < unat (max_threads (hnd w))" and sz: "small_sizes (hnd w)"
    and ready: "waiting_to_be_sent (thread (hnd w) i)"
  shows "wpg d (send_result_of E i) Q S w = (\<forall>r.
    let c = Send (socket_fd (server_conn (hnd w))) (result_message (hnd w) i) MSG_NOSIGNAL in
    answers E w c r \<longrightarrow>
     (if word_of_int (r_ret r) = of_nat sizeof_header + ret_size (hnd w)
      then Q None (upd (result_sent i) (log c r w))
      else if r_ret r = -1 \<and> r_errno r = EAGAIN then Q (Some False) (log c r w)
      else if r_ret r = -1 \<and> r_errno r = EPIPE then Q (Some True) (log c r w)
      else S (Fatal ''Unable to send() data'') (log c r w)))"
proof -
  let ?h = "hnd w" let ?t = "thread ?h i"
  let ?hdr = "\<lparr>cmd = CMD_RESULT, task_id = htobe32 (host E) (thread_task ?t)\<rparr>"
  have i': "i < length (thread_manager ?h)" using i client_inv_parts(1) [OF inv] by simp
  have two: "upd (set_thread i (\<lambda>t. t\<lparr>empty := True\<rparr>)) (upd (set_thread i (\<lambda>t. t\<lparr>waiting_to_be_sent := False\<rparr>)) w') =
      upd (result_sent i) w'" if "hnd w' = ?h" for w'
    using i' that by (simp add: upd_def result_sent_def set_thread_def thread_def)
  have "result_of ?h ?t = computed ?h (data_of ?h ?t)"
    using client_inv_parts(4) [OF inv i] ready by (simp add: thread_ok_def)
  then have msg: "header_bytes (host E) ?hdr @ put_bytes E (Some i) w = result_message ?h i"
    by (simp add: header_bytes_be put_bytes_def result_message_def)
  note facts = small_sizes_facts [OF sz]
  have ci: "\<And>k. Some i = Some k \<Longrightarrow> k < unat (max_threads ?h)" using i by simp
  have c: "cmd ?hdr = CMD_REQUEST_FOR_DATA \<or> cmd ?hdr = CMD_RESULT" by simp
  let ?snd = "Send (socket_fd (server_conn ?h)) (result_message ?h i) MSG_NOSIGNAL"
  have put: "wpg d (client_put_data E (Some i) ?hdr) Q' S w = (\<forall>r. answers E w ?snd r \<longrightarrow>
      (case put_result ?h ?hdr r of None \<Rightarrow> S (Fatal ''Unable to send() data'') (log ?snd r w)
       | Some hdr \<Rightarrow> Q' hdr (log ?snd r w)))" for Q'
    by (simp only: wpg_client_put_data [OF inv ci c] Let_def msg facts(1,2) if_False)
  have res: "(case put_result ?h ?hdr r of None \<Rightarrow> S (Fatal ''Unable to send() data'') (log ?snd r w)
       | Some hdr \<Rightarrow> wpg d (if cmd hdr = ERR_CONN_BROKEN then return (Some True)
          else if cmd hdr = ERR_NOT_READY then return (Some False)
          else andthen (block
            [modify (set_thread i (\<lambda>t. t\<lparr>waiting_to_be_sent := False\<rparr>)),
             modify (set_thread i (\<lambda>t. t\<lparr>empty := True\<rparr>))]) (return None)) Q S (log ?snd r w)) =
     (if word_of_int (r_ret r) = of_nat sizeof_header + ret_size ?h
      then Q None (upd (result_sent i) (log ?snd r w))
      else if r_ret r = -1 \<and> r_errno r = EAGAIN then Q (Some False) (log ?snd r w)
      else if r_ret r = -1 \<and> r_errno r = EPIPE then Q (Some True) (log ?snd r w)
      else S (Fatal ''Unable to send() data'') (log ?snd r w))" for r
    by (simp add: put_result_def wp two cmd_defs)
  show ?thesis
    using ready by (simp only: send_result_of_def wpg_bind wpg_get put res Let_def simp_thms if_False)
qed

lemma length_computed [simp]: "length (computed h d) = unat (ret_size h)"
  by (simp add: computed_def)

lemma length_result_message [simp]:
  "length (result_message h i) = sizeof_header + unat (ret_size h)"
  by (simp add: result_message_def sizeof_header_def)

lemma send_result_obliged:
  assumes k: "takes_all E" and inv: "client_inv (hnd w)" and i: "i < unat (max_threads (hnd w))"
    and sz: "small_sizes (hnd w)" and ready: "waiting_to_be_sent (thread (hnd w) i)"
  shows "\<exists>w'. send_result_of E i w = Some (Inr None, w') \<and> hnd w' = result_sent i (hnd w) \<and>
    sent_on (socket_fd (server_conn (hnd w))) (trace w') =
      sent_on (socket_fd (server_conn (hnd w))) (trace w) @ [result_message (hnd w) i]"
proof -
  have len: "answers E w (Send fd (result_message (hnd w) i) fl) r \<Longrightarrow>
      r_ret r = int (sizeof_header + unat (ret_size (hnd w)))" for fd fl r
    using k by (simp add: answers_def takes_all_def)
  have "(word_of_int (int (sizeof_header + unat (ret_size (hnd w)))) :: size_t) = of_nat sizeof_header + ret_size (hnd w)"
    by simp
  then have "wpg False (send_result_of E i) (\<lambda>x w'. x = None \<and> hnd w' = result_sent i (hnd w) \<and>
    sent_on (socket_fd (server_conn (hnd w))) (trace w') =
      sent_on (socket_fd (server_conn (hnd w))) (trace w) @ [result_message (hnd w) i]) (\<lambda>_ _. False) w"
    unfolding wpg_send_result_of [OF inv i sz ready] Let_def
    by (auto dest!: len simp: sent_on_single simp del: of_nat_add)
  then show ?thesis by (auto dest: wpg_outcome)
qed

section \<open>All results\<close>

lemma thread_result_sent:
  "i < length (thread_manager h) \<Longrightarrow> thread (result_sent i h) j =
     (if j = i then (thread h i)\<lparr>waiting_to_be_sent := False, empty := True\<rparr> else thread h j)"
  by (simp add: result_sent_def thread_set_thread)

lemma result_sent_simps [simp]:
  "max_threads (result_sent i h) = max_threads h" "initial_requests (result_sent i h) = initial_requests h"
  "server_conn (result_sent i h) = server_conn h" "task_buffer (result_sent i h) = task_buffer h" "small_sizes (result_sent i h) = small_sizes h"
  "length (thread_manager (result_sent i h)) = length (thread_manager h)"
  "data_of (result_sent i h) t = data_of h t" "computed (result_sent i h) d = computed h d"
  by (simp_all add: result_sent_def small_sizes_def)

lemma result_message_sent:
  "i < length (thread_manager h) \<Longrightarrow> j \<noteq> i \<Longrightarrow> result_message (result_sent i h) j = result_message h j"
  by (simp add: result_message_def thread_result_sent)

lemma send_results_obliged:
  assumes k: "takes_all E" and "client_inv (hnd w)" and "small_sizes (hnd w)"
    and "set is \<subseteq> {..<unat (max_threads (hnd w))}" and "distinct is"
  shows "\<exists>w'. for_until is (send_result_of E) w = Some (Inr None, w') \<and>
    client_inv (hnd w') \<and> settings (hnd w') = settings (hnd w) \<and> small_sizes (hnd w') \<and>
    task_buffer (hnd w') = task_buffer (hnd w) \<and> initial_requests (hnd w') = initial_requests (hnd w) \<and> server_conn (hnd w') = server_conn (hnd w) \<and>
    (\<forall>j < unat (max_threads (hnd w)). thread (hnd w') j =
      (if j \<in> set is \<and> waiting_to_be_sent (thread (hnd w) j)
       then (thread (hnd w) j)\<lparr>waiting_to_be_sent := False, empty := True\<rparr> else thread (hnd w) j)) \<and>
    sent_on (socket_fd (server_conn (hnd w))) (trace w') = sent_on (socket_fd (server_conn (hnd w))) (trace w) @
      map (result_message (hnd w)) (filter (\<lambda>i. waiting_to_be_sent (thread (hnd w) i)) is)"
  using assms(2-)
proof (induction "is" arbitrary: w)
  case Nil
  then show ?case by (simp add: return_def)
next
  case (Cons i rest)
  let ?h = "hnd w"
  note inv = Cons.prems(1)
  have i: "i < unat (max_threads ?h)" and rest: "set rest \<subseteq> {..<unat (max_threads ?h)}" "distinct rest" "i \<notin> set rest"
    using Cons.prems by auto
  have i': "i < length (thread_manager ?h)" using i client_inv_parts(1) [OF inv] by simp
  show ?case
  proof (cases "waiting_to_be_sent (thread ?h i)")
    case False
    have skip: "send_result_of E i w = Some (Inr None, w)"
      using False by (simp add: send_result_of_def bind_def get_def return_def)
    from Cons.IH [OF inv Cons.prems(2) rest(1,2)] False rest(3) show ?thesis
      by (auto simp: bind_def skip)
  next
    case True
    let ?h1 = "result_sent i ?h"
    obtain w1 where w1: "send_result_of E i w = Some (Inr None, w1)" "hnd w1 = ?h1"
      "sent_on (socket_fd (server_conn ?h)) (trace w1) =
        sent_on (socket_fd (server_conn ?h)) (trace w) @ [result_message ?h i]"
      using send_result_obliged [OF k inv i Cons.prems(2) True] by blast
    note step = step_result_sent [OF inv i True]
    have "client_inv (hnd w1)" "small_sizes (hnd w1)" "set rest \<subseteq> {..<unat (max_threads (hnd w1))}"
      using step(1) Cons.prems(2) rest(1) by (simp_all add: w1(2))
    from Cons.IH [OF this rest(2)] obtain w' where w':
      "for_until rest (send_result_of E) w1 = Some (Inr None, w')" "client_inv (hnd w')"
      "settings (hnd w') = settings ?h1" "small_sizes (hnd w')" "task_buffer (hnd w') = task_buffer ?h"
      "initial_requests (hnd w') = initial_requests ?h" "server_conn (hnd w') = server_conn ?h"
      "\<forall>j < unat (max_threads ?h). thread (hnd w') j = (if j \<in> set rest \<and> waiting_to_be_sent (thread ?h1 j)
         then (thread ?h1 j)\<lparr>waiting_to_be_sent := False, empty := True\<rparr> else thread ?h1 j)"
      "sent_on (socket_fd (server_conn ?h)) (trace w') = sent_on (socket_fd (server_conn ?h)) (trace w1) @
         map (result_message ?h1) (filter (\<lambda>i. waiting_to_be_sent (thread ?h1 i)) rest)"
      by (auto simp: w1(2))
    have "map (result_message ?h1) (filter (\<lambda>i. waiting_to_be_sent (thread ?h1 i)) rest) =
        map (result_message ?h) (filter (\<lambda>i. waiting_to_be_sent (thread ?h i)) rest)"
      using rest(3) i' by (auto simp: thread_result_sent intro!: map_cong filter_cong result_message_sent)
    moreover have "for_until (i # rest) (send_result_of E) w = Some (Inr None, w')"
      by (simp add: bind_def w1(1) w'(1))
    ultimately show ?thesis
      using w'(2-8) w'(9) w1(3) True rest(3) i' step(3) by (auto simp: thread_result_sent)
  qed
qed

section \<open>All requests\<close>

text \<open>A request for a task; its payload is whatever the send buffer held.\<close>

definition request_message :: "client \<Rightarrow> u8 list \<Rightarrow> bool" where
  "request_message h m \<longleftrightarrow> length m = sizeof_header + unat (ret_size h) \<and>
     take sizeof_header m = CMD_REQUEST_FOR_DATA # be_bytes (-1)"

lemma request_round_obliged:
  assumes k: "takes_all E" and inv: "client_inv (hnd w)" and sz: "small_sizes (hnd w)"
    and some: "initial_requests (hnd w) \<noteq> 0"
  shows "\<exists>w' m. request_round E w = Some (Inr None, w') \<and> hnd w' = asked (hnd w) \<and>
    request_message (hnd w) m \<and>
    sent_on (socket_fd (server_conn (hnd w))) (trace w') = sent_on (socket_fd (server_conn (hnd w))) (trace w) @ [m]"
proof -
  let ?h = "hnd w" let ?hdr = "\<lparr>cmd = CMD_REQUEST_FOR_DATA, task_id = htobe32 (host E) (-1)\<rparr>"
  let ?m = "CMD_REQUEST_FOR_DATA # be_bytes (-1) @ put_bytes E None w"
  let ?snd = "Send (socket_fd (server_conn ?h)) ?m MSG_NOSIGNAL"
  note facts = small_sizes_facts [OF sz]
  have ci: "\<And>k. None = Some k \<Longrightarrow> k < unat (max_threads ?h)" by simp
  have c: "cmd ?hdr = CMD_REQUEST_FOR_DATA \<or> cmd ?hdr = CMD_RESULT" by simp
  have msg: "header_bytes (host E) ?hdr @ put_bytes E None w = ?m" by (simp add: header_bytes_be)
  have put: "wpg False (client_put_data E None ?hdr) Q' S w = (\<forall>r. answers E w ?snd r \<longrightarrow>
      (case put_result ?h ?hdr r of None \<Rightarrow> S (Fatal ''Unable to send() data'') (log ?snd r w)
       | Some hdr \<Rightarrow> Q' hdr (log ?snd r w)))" for Q' S
    by (simp only: wpg_client_put_data [OF inv ci c] Let_def msg facts(1,2) if_False)
  have len: "length ?m = sizeof_header + unat (ret_size ?h)" by (simp add: put_bytes_def sizeof_header_def)
  have ok: "put_result ?h ?hdr r = Some ?hdr" if "answers E w ?snd r" for r
  proof (rule put_result_cases(1) [OF sz])
    have "r_ret r = int (length ?m)" using that k by (simp only: answers_def takes_all_def)
    then show "r_ret r = int (sizeof_header + unat (ret_size ?h))" by (simp only: len)
  qed
  have "wpg False (request_round E) (\<lambda>x w'. x = None \<and> hnd w' = asked ?h \<and>
      sent_on (socket_fd (server_conn ?h)) (trace w') = sent_on (socket_fd (server_conn ?h)) (trace w) @ [?m])
      (\<lambda>_ _. False) w"
    using some ok
    by (simp add: request_round_def wpg_bind wpg_get wpg_if put)
      (auto simp: wp cmd_defs asked_def sent_on_single)
  moreover have "request_message ?h ?m"
    using len by (simp add: request_message_def sizeof_header_def be_bytes_def)
  ultimately show ?thesis by (auto dest!: wpg_outcome)
qed

lemma asked_simps [simp]:
  "server_conn (asked h) = server_conn h" "small_sizes (asked h) = small_sizes h"
  "thread (asked h) i = thread h i" "request_message (asked h) m = request_message h m"
  "thread_manager (asked h) = thread_manager h"
  "initial_requests (asked h) = initial_requests h - 1" "max_threads (asked h) = max_threads h"
  by (simp_all add: asked_def small_sizes_def thread_def request_message_def)

lemma requests_obliged:
  assumes k: "takes_all E"
  shows "client_inv (hnd w) \<Longrightarrow> small_sizes (hnd w) \<Longrightarrow> unat (initial_requests (hnd w)) = n \<Longrightarrow>
    \<exists>w' ms. loop (request_round E) w = Some (Inr None, w') \<and> client_inv (hnd w') \<and>
      hnd w' = (hnd w)\<lparr>initial_requests := 0\<rparr> \<and> length ms = n \<and> (\<forall>m \<in> set ms. request_message (hnd w) m) \<and>
      sent_on (socket_fd (server_conn (hnd w))) (trace w') = sent_on (socket_fd (server_conn (hnd w))) (trace w) @ ms"
proof (induction n arbitrary: w)
  case 0
  then have none: "initial_requests (hnd w) = 0" by (simp add: unat_eq_0)
  then have "loop (request_round E) w = Some (Inr None, w)"
    by (subst loop_unfold) (simp add: request_round_def bind_def get_def return_def)
  then show ?case using 0 none by (intro exI [of _ w] exI [of _ "[]"]) simp
next
  case (Suc n)
  then have some: "initial_requests (hnd w) \<noteq> 0" by auto
  obtain w1 m where w1: "request_round E w = Some (Inr None, w1)" "hnd w1 = asked (hnd w)"
    "request_message (hnd w) m"
    "sent_on (socket_fd (server_conn (hnd w))) (trace w1) = sent_on (socket_fd (server_conn (hnd w))) (trace w) @ [m]"
    using request_round_obliged [OF k Suc.prems(1,2) some] by blast
  have "unat (initial_requests (hnd w1)) = n"
    using Suc.prems(3) some unat_minus_1 [of "initial_requests (hnd w)"] by (simp add: w1(2))
  then obtain w' ms where w': "loop (request_round E) w1 = Some (Inr None, w')" "client_inv (hnd w')"
    "hnd w' = (asked (hnd w))\<lparr>initial_requests := 0\<rparr>" "length ms = n" "\<forall>m \<in> set ms. request_message (hnd w) m"
    "sent_on (socket_fd (server_conn (hnd w))) (trace w') = sent_on (socket_fd (server_conn (hnd w))) (trace w1) @ ms"
    using Suc.IH [of w1] step_asked(1) [OF Suc.prems(1) some] Suc.prems(2) by (auto simp: w1(2))
  have "loop (request_round E) w = Some (Inr None, w')"
    by (subst loop_unfold) (simp add: bind_def w1(1) w'(1))
  with w' w1 show ?case by (intro exI [of _ w'] exI [of _ "m # ms"]) (simp add: asked_def)
qed

section \<open>The writable socket\<close>

lemma update_connection_obliged:
  assumes "takes_all E"
  shows "\<exists>w'. client_update_connection E b w = Some (Inr (), w') \<and> hnd w' = hnd w \<and>
    (\<forall>fd. sent_on fd (trace w') = sent_on fd (trace w)) \<and>
    fst (last (trace w')) = EpollCtl (epoll_fd (hnd w)) (CTL_MOD (EPOLLHUP OR EPOLLIN OR (if b then EPOLLOUT else 0))
      (socket_fd (server_conn (hnd w)))) (socket_fd (server_conn (hnd w)))"
proof -
  have "wpg False (client_update_connection E b) (\<lambda>_ w'. hnd w' = hnd w \<and>
    (\<forall>fd. sent_on fd (trace w') = sent_on fd (trace w)) \<and>
    fst (last (trace w')) = EpollCtl (epoll_fd (hnd w)) (CTL_MOD (EPOLLHUP OR EPOLLIN OR (if b then EPOLLOUT else 0))
      (socket_fd (server_conn (hnd w)))) (socket_fd (server_conn (hnd w)))) (\<lambda>_ _. False) w"
    using assms by (simp add: client_update_connection_def wp answers_def takes_all_def sent_on_single)
  then show ?thesis by (auto dest!: wpg_outcome)
qed

lemma client_inv_no_requests: "client_inv h \<Longrightarrow> client_inv (h\<lparr>initial_requests := n\<rparr>)"
  by (simp add: client_inv_def buffers_ok_def recv_ok_def data_offsets_def
        ret_offsets_def thread_def thread_ok_def result_of_def data_of_def computed_def)

lemma send_to_server_obliged:
  assumes k: "takes_all E" and inv: "client_inv (hnd w)" and sz: "small_sizes (hnd w)"
  shows "\<exists>w' ms. send_to_server E w = Some (Inr None, w') \<and> client_inv (hnd w') \<and>
    settings (hnd w') = settings (hnd w) \<and> initial_requests (hnd w') = 0 \<and>
    slots (hnd w') = map (\<lambda>s. case s of Ready t d \<Rightarrow> Idle | _ \<Rightarrow> s) (slots (hnd w)) \<and>
    sent_on (socket_fd (server_conn (hnd w))) (trace w') = sent_on (socket_fd (server_conn (hnd w))) (trace w) @
      map (result_message (hnd w)) (filter (\<lambda>i. waiting_to_be_sent (thread (hnd w) i)) [0..<unat (max_threads (hnd w))]) @ ms \<and>
    length ms = unat (initial_requests (hnd w)) \<and> (\<forall>m \<in> set ms. request_message (hnd w) m) \<and>
    fst (last (trace w')) = EpollCtl (epoll_fd (hnd w)) (CTL_MOD (EPOLLHUP OR EPOLLIN)
      (socket_fd (server_conn (hnd w)))) (socket_fd (server_conn (hnd w)))"
proof -
  let ?h = "hnd w" let ?n = "unat (max_threads ?h)" let ?fd = "socket_fd (server_conn ?h)"
  have len: "length (thread_manager ?h) = ?n" by (rule client_inv_parts(1) [OF inv])
  obtain w1 where w1: "for_until [0..<?n] (send_result_of E) w = Some (Inr None, w1)"
    "client_inv (hnd w1)" "settings (hnd w1) = settings ?h" "small_sizes (hnd w1)"
    "initial_requests (hnd w1) = initial_requests ?h" "server_conn (hnd w1) = server_conn ?h"
    "\<forall>j < ?n. thread (hnd w1) j = (if waiting_to_be_sent (thread ?h j)
       then (thread ?h j)\<lparr>waiting_to_be_sent := False, empty := True\<rparr> else thread ?h j)"
    "task_buffer (hnd w1) = task_buffer ?h"
    "sent_on ?fd (trace w1) = sent_on ?fd (trace w) @ map (result_message ?h)
       (filter (\<lambda>i. waiting_to_be_sent (thread ?h i)) [0..<?n])"
    using send_results_obliged [OF k inv sz, of "[0..<?n]"] by (force simp: ivl_subset)
  obtain w2 ms where w2: "loop (request_round E) w1 = Some (Inr None, w2)" "hnd w2 = (hnd w1)\<lparr>initial_requests := 0\<rparr>"
    "length ms = unat (initial_requests ?h)" "\<forall>m \<in> set ms. request_message (hnd w1) m"
    "sent_on ?fd (trace w2) = sent_on ?fd (trace w1) @ ms"
    using requests_obliged [OF k w1(2,4), of "unat (initial_requests ?h)"] by (auto simp: w1(5,6))
  obtain w3 where w3: "client_update_connection E False w2 = Some (Inr (), w3)" "hnd w3 = hnd w2"
    "sent_on ?fd (trace w3) = sent_on ?fd (trace w2)"
    "fst (last (trace w3)) = EpollCtl (epoll_fd (hnd w2)) (CTL_MOD (EPOLLHUP OR EPOLLIN)
      (socket_fd (server_conn (hnd w2)))) (socket_fd (server_conn (hnd w2)))"
    using update_connection_obliged [OF k, of False w2] by auto
  have set: "task_size (hnd w1) = task_size ?h" "ret_size (hnd w1) = ret_size ?h" "epoll_fd (hnd w1) = epoll_fd ?h"
    "length (thread_manager (hnd w1)) = ?n"
    using w1(3) client_inv_parts(1) [OF w1(2)] by (simp_all add: settings_def)
  have "send_to_server E w = Some (Inr None, w3)"
    using w1(1) w2(1) w3(1)
    by (simp add: send_to_server_def bind_def get_def thread_indices_def goes_on_def andthen_def return_def)
  moreover have "client_inv (hnd w3)"
    unfolding w3(2) w2(2) by (rule client_inv_no_requests [OF w1(2)])
  moreover have "settings (hnd w3) = settings ?h" using w1(3) by (simp add: w3(2) w2(2) settings_def)
  moreover have "initial_requests (hnd w3) = 0" by (simp add: w3(2) w2(2))
  moreover have "\<forall>m \<in> set ms. request_message ?h m" using w2(4) by (simp add: request_message_def set)
  moreover have "slots (hnd w3) = map (\<lambda>s. case s of Ready t d \<Rightarrow> Idle | _ \<Rightarrow> s) (slots ?h)"
  proof (rule nth_equalityI)
    show "length (slots (hnd w3)) = length (map (\<lambda>s. case s of Ready t d \<Rightarrow> Idle | _ \<Rightarrow> s) (slots ?h))"
      by (simp add: w3(2) w2(2) set len)
    fix j assume "j < length (slots (hnd w3))"
    then have j: "j < ?n" "j < length (thread_manager ?h)" by (simp_all add: w3(2) w2(2) set len)
    note t = client_inv_parts(4) [OF inv j(1)]
    show "slots (hnd w3) ! j = map (\<lambda>s. case s of Ready t d \<Rightarrow> Idle | _ \<Rightarrow> s) (slots ?h) ! j"
      using j w1(7,8) t set
      by (auto simp: nth_slots slot_def w3(2) w2(2) thread_def data_of_def thread_ok_def slots_def)
  qed
  ultimately show ?thesis using w1(9) w2(3,5) w3(3,4)
    by (auto simp: w2(2) set w1(6))
qed

end
