(* ===== verification/ClientStream.thy ===== *)
theory ClientStream
  imports ClientMessages Kernels
begin

text \<open>
  The client's receive buffer as a stream: it holds a prefix of the message the server is
  sending; the read that completes the message parses it.
\<close>

definition client_buffered :: "client \<Rightarrow> u8 list" where
  "client_buffered h = take (unat (bytes_recieved (server_conn h))) (recv_buffer (server_conn h))"

lemma client_read_appends:
  assumes inv: "client_inv (hnd w)"
    and r: "\<And>n. delivers (sys E (trace w) (Recv (socket_fd (server_conn (hnd w))) n 0)) bs" and bs: "bs \<noteq> []"
    and fits: "length (client_buffered (hnd w) @ bs) \<le> task_message_size (hnd w)"
  shows "\<exists>hdr n w'. client_read_data E header w = Some (Inr hdr, w') \<and>
    trace w' = trace w @ [(Recv (socket_fd (server_conn (hnd w))) n 0,
      sys E (trace w) (Recv (socket_fd (server_conn (hnd w))) n 0))] \<and>
    client_inv (hnd w') \<and> (\<exists>buf m. hnd w' = client_refill buf m (hnd w)) \<and>
    (if length (client_buffered (hnd w) @ bs) < task_message_size (hnd w)
     then hdr = header\<lparr>cmd := ERR_NOT_READY\<rparr> \<and> client_buffered (hnd w') = client_buffered (hnd w) @ bs
     else hdr = parse_header (host E) (client_buffered (hnd w) @ bs) \<and> client_buffered (hnd w') = [] \<and>
       received_task (hnd w') = drop sizeof_header (client_buffered (hnd w) @ bs))"
proof -
  let ?h = "hnd w" let ?c = "server_conn ?h" let ?pos = "unat (bytes_recieved ?c)"
  let ?call = "Recv (socket_fd ?c) (client_recv_buffer_size ?h - bytes_recieved ?c) 0"
  let ?r = "sys E (trace w) ?call" let ?w = "log ?call ?r w"
  have ok: "recv_ok ?h" by (rule client_inv_parts(3) [OF inv])
  have len: "length (recv_buffer ?c) = task_message_size ?h" and lim: "task_message_size ?h < 2 ^ 64"
    and p: "?pos < task_message_size ?h"
    using ok by (simp_all add: recv_ok_def task_message_size_def)
  have blen: "length (client_buffered ?h) = ?pos" using len p by (simp add: client_buffered_def)
  have ret: "r_ret ?r = int (length bs)" "r_data ?r = bs" using r by (simp_all add: delivers_def)
  then have pos: "0 < r_ret ?r" using bs by simp
  have le: "?pos + length bs \<le> task_message_size ?h" using fits blen by simp
  define buf where "buf = blit (recv_buffer ?c) ?pos bs"
  have fill: "filled ?h ?r = buf" by (simp add: filled_def buf_def ret)
  have buf: "length buf = task_message_size ?h" "take (?pos + length bs) buf = client_buffered ?h @ bs"
    using le len by (simp_all add: buf_def take_blit client_buffered_def)
  note keep = wpg_client_keep_data [of ?w, unfolded log_simps, OF ok pos, of False E header,
      unfolded ret nat_int fill Let_def, OF le]
  have read: "wpg False (client_read_data E header) Q S w = wpg False (client_keep_data E header ?r) Q S ?w"
    for Q S
    using pos by (simp add: client_read_data_def wp answers_def)
  show ?thesis
  proof (cases "?pos + length bs = task_message_size ?h")
    case True
    then have all: "buf = client_buffered ?h @ bs" using buf by simp
    have "client_read_data E header w =
        Some (Inr (parse_header (host E) buf), upd (client_refill buf 0) ?w)"
      by (rule wpg_exact) (use True in \<open>simp add: read keep\<close>)
    moreover have "client_inv (client_refill buf 0 ?h)"
      by (rule client_inv_refill [OF inv buf(1)]) (simp add: task_message_size_def sizeof_header_def)
    moreover have "slice sizeof_header (unat (task_size ?h)) buf = drop sizeof_header buf"
      using buf(1) by (simp add: slice_def task_message_size_def)
    ultimately show ?thesis
      using True all blen by (auto simp: client_buffered_def received_task_def)
  next
    case False
    let ?m = "of_nat (?pos + length bs) :: size_t"
    have u: "unat ?m = ?pos + length bs" using le lim by (intro unat_of_nat_64) linarith
    have "client_read_data E header w =
        Some (Inr (header\<lparr>cmd := ERR_NOT_READY\<rparr>), upd (client_refill buf ?m) ?w)"
      by (rule wpg_exact) (use False in \<open>simp add: read keep\<close>)
    moreover have "client_inv (client_refill buf ?m ?h)"
      by (rule client_inv_refill [OF inv buf(1)]) (use u le False in linarith)
    moreover have "client_buffered (client_refill buf ?m ?h) = client_buffered ?h @ bs"
      unfolding client_buffered_def [of "client_refill _ _ _"] client_refill_simps u by (rule buf(2))
    moreover have "length (client_buffered ?h @ bs) < task_message_size ?h" using False le blen by simp
    ultimately show ?thesis by auto
  qed
qed

fun client_reads :: "env \<Rightarrow> request_header \<Rightarrow> nat \<Rightarrow> (client, request_header list) prog" where
  "client_reads E header 0 = return []"
| "client_reads E header (Suc k) =
     bind (client_read_data E header) (\<lambda>hdr.
     bind (client_reads E header k) (\<lambda>hdrs. return (hdr # hdrs)))"

lemma client_reads_pieces:
  assumes "client_inv (hnd w)"
    and "hands_out E 0 (trace w) (socket_fd (server_conn (hnd w))) bss"
    and "[] \<notin> set bss" and "bss \<noteq> []"
    and "length (client_buffered (hnd w) @ concat bss) = task_message_size (hnd w)"
  shows "\<exists>w'. client_reads E header (length bss) w = Some (Inr
      (replicate (length bss - 1) (header\<lparr>cmd := ERR_NOT_READY\<rparr>) @
       [parse_header (host E) (client_buffered (hnd w) @ concat bss)]), w') \<and>
    client_inv (hnd w') \<and> (\<exists>buf m. hnd w' = client_refill buf m (hnd w)) \<and> client_buffered (hnd w') = [] \<and>
    received_task (hnd w') = drop sizeof_header (client_buffered (hnd w) @ concat bss)"
  using assms
proof (induction bss arbitrary: w)
  case Nil
  then show ?case by simp
next
  case (Cons bs bss)
  let ?h = "hnd w" let ?fd = "socket_fd (server_conn ?h)"
  have r: "\<And>n. delivers (sys E (trace w) (Recv ?fd n 0)) bs"
    and next_out: "\<And>n. hands_out E 0 (trace w @ [(Recv ?fd n 0, sys E (trace w) (Recv ?fd n 0))]) ?fd bss"
    using Cons.prems(2) by simp_all
  have bs: "bs \<noteq> []" and fits: "length (client_buffered ?h @ bs) \<le> task_message_size ?h"
    using Cons.prems(3,5) by auto
  obtain hdr n w1 buf m where w1: "client_read_data E header w = Some (Inr hdr, w1)"
    "trace w1 = trace w @ [(Recv ?fd n 0, sys E (trace w) (Recv ?fd n 0))]"
    "client_inv (hnd w1)" "hnd w1 = client_refill buf m ?h"
    and res: "if length (client_buffered ?h @ bs) < task_message_size ?h
     then hdr = header\<lparr>cmd := ERR_NOT_READY\<rparr> \<and> client_buffered (hnd w1) = client_buffered ?h @ bs
     else hdr = parse_header (host E) (client_buffered ?h @ bs) \<and> client_buffered (hnd w1) = [] \<and>
       received_task (hnd w1) = drop sizeof_header (client_buffered ?h @ bs)"
    using client_read_appends [OF Cons.prems(1) r bs fits, of header] by blast
  show ?case
  proof (cases bss)
    case Nil
    then show ?thesis
      using w1 res Cons.prems(5) by (auto simp: bind_def return_def)
  next
    case (Cons b' bss')
    then have "0 < length (concat bss)" using Cons.prems(3) by (cases b') auto
    moreover have "length (client_buffered ?h) + (length bs + length (concat bss)) = task_message_size ?h"
      using Cons.prems(5) by simp
    ultimately have lt: "length (client_buffered ?h @ bs) < task_message_size ?h" unfolding length_append by linarith
    then have hdr: "hdr = header\<lparr>cmd := ERR_NOT_READY\<rparr>" "client_buffered (hnd w1) = client_buffered ?h @ bs"
      using res by simp_all
    have same: "socket_fd (server_conn (hnd w1)) = ?fd" "task_message_size (hnd w1) = task_message_size ?h"
      by (simp_all add: w1(4) task_message_size_def)
    have twice: "client_refill b' m' (client_refill buf m ?h) = client_refill b' m' ?h" for b' m'
      by (simp add: client_refill_def set_server_conn_def)
    have "\<exists>w'. client_reads E header (length bss) w1 = Some (Inr
        (replicate (length bss - 1) (header\<lparr>cmd := ERR_NOT_READY\<rparr>) @
         [parse_header (host E) (client_buffered (hnd w1) @ concat bss)]), w') \<and>
      client_inv (hnd w') \<and> (\<exists>buf m. hnd w' = client_refill buf m (hnd w1)) \<and> client_buffered (hnd w') = [] \<and>
      received_task (hnd w') = drop sizeof_header (client_buffered (hnd w1) @ concat bss)"
      by (rule Cons.IH) (use Cons.prems w1(2,3) next_out hdr Cons same in simp_all)
    then obtain w' b1 m1 where w': "client_reads E header (length bss) w1 = Some (Inr
        (replicate (length bss - 1) (header\<lparr>cmd := ERR_NOT_READY\<rparr>) @
         [parse_header (host E) (client_buffered (hnd w1) @ concat bss)]), w')"
      "client_inv (hnd w')" "hnd w' = client_refill b1 m1 ?h" "client_buffered (hnd w') = []"
      "received_task (hnd w') = drop sizeof_header (client_buffered (hnd w1) @ concat bss)"
      unfolding w1(4) twice by blast
    have "client_reads E header (length (bs # bss)) w = Some (Inr
        (replicate (length (bs # bss) - 1) (header\<lparr>cmd := ERR_NOT_READY\<rparr>) @
         [parse_header (host E) (client_buffered ?h @ concat (bs # bss))]), w')"
      using w1(1) w'(1) hdr Cons by (simp add: bind_def return_def)
    moreover have "received_task (hnd w') = drop sizeof_header (client_buffered ?h @ concat (bs # bss))"
      using w'(5) hdr by simp
    ultimately show ?thesis using w'(2-4) by blast
  qed
qed

end
