(* ===== verification/ClientConnect.thy ===== *)
theory ClientConnect
  imports ClientDiscovery Kernels
begin

text \<open>
  How the client finds its server: waiting on a host that refuses, choosing among the addresses
  of a host, and connecting to the sender of the first discovery datagram.
\<close>

section \<open>Waiting while the connection is refused\<close>

text \<open>The peer refuses \<open>k\<close> times from the history \<open>tr\<close> on, and then accepts.\<close>

fun accepts_after :: "env \<Rightarrow> int \<Rightarrow> sockaddr_in \<Rightarrow> nat \<Rightarrow> trace \<Rightarrow> bool" where
  "accepts_after E fd a 0 tr = (r_ret (sys E tr (Connect fd a)) \<noteq> -1)"
| "accepts_after E fd a (Suc k) tr =
     (let r = sys E tr (Connect fd a); tr' = tr @ [(Connect fd a, r)] in
      r_ret r = -1 \<and> r_errno r = ECONNREFUSED \<and>
      accepts_after E fd a k (tr' @ [(Nanosleep 1, sys E tr' (Nanosleep 1))]))"

lemma connect_round_refused:
  assumes "r_ret (sys E (trace w) (Connect fd a)) = -1" and "r_errno (sys E (trace w) (Connect fd a)) = ECONNREFUSED"
  shows "connect_round E fd a w = Some (Inr None,
    let w1 = log (Connect fd a) (sys E (trace w) (Connect fd a)) w in log (Nanosleep 1) (sys E (trace w1) (Nanosleep 1)) w1)"
  by (rule wpg_exact) (use assms in \<open>simp add: connect_round_def wp answers_def Let_def\<close>)

lemma connect_waits:
  "accepts_after E fd a k (trace w) \<Longrightarrow>
   \<exists>w'. loop (connect_round E fd a) w = Some (Inr fd, w') \<and> hnd w' = hnd w \<and>
     map fst (trace w') = map fst (trace w) @ concat (replicate k [Connect fd a, Nanosleep 1]) @ [Connect fd a]"
proof (induction k arbitrary: w)
  case 0
  then have "connect_round E fd a w = Some (Inr (Some fd), log (Connect fd a) (sys E (trace w) (Connect fd a)) w)"
    by (intro wpg_exact) (simp add: connect_round_def wp answers_def)
  then show ?case by (subst loop_unfold) (simp add: bind_def return_def)
next
  case (Suc k)
  let ?w1 = "log (Connect fd a) (sys E (trace w) (Connect fd a)) w"
  let ?w2 = "log (Nanosleep 1) (sys E (trace ?w1) (Nanosleep 1)) ?w1"
  have "connect_round E fd a w = Some (Inr None, ?w2)"
    using Suc.prems connect_round_refused [of E w fd a] by (simp add: Let_def)
  then have "loop (connect_round E fd a) w = loop (connect_round E fd a) ?w2"
    by (subst loop_unfold) (simp add: bind_def)
  moreover have "accepts_after E fd a k (trace ?w2)" using Suc.prems by (simp add: Let_def)
  ultimately show ?case using Suc.IH [of ?w2] by simp
qed

lemma connect_refused_forever:
  assumes "\<And>tr. r_ret (sys E tr (Connect fd a)) = -1 \<and> r_errno (sys E tr (Connect fd a)) = ECONNREFUSED"
  shows "loop (connect_round E fd a) w = None"
  by (rule loop_diverges [where I = "\<lambda>_. True"]) (use assms in \<open>auto simp: connect_round_refused\<close>)

section \<open>The addresses of a host\<close>

text \<open>
  What an address is good for when the kernel's answers do not depend on the history: no socket,
  a socket that cannot be connected, or one that can.
\<close>

definition reached :: "(syscall \<Rightarrow> sysret) \<Rightarrow> addrinfo \<Rightarrow> int option" where
  "reached f ai =
     (let fd = r_ret (f (Socket (ai_family ai) (ai_socktype ai) (ai_protocol ai))) in
      if fd = -1 \<or> r_ret (f (Connect fd (ai_addr ai))) = -1 then None else Some fd)"

definition never_refuses :: "(syscall \<Rightarrow> sysret) \<Rightarrow> bool" where
  "never_refuses f \<longleftrightarrow> (\<forall>fd a. r_errno (f (Connect fd a)) \<noteq> ECONNREFUSED)"

lemma wpg_try_address:
  assumes "never_refuses f"
  shows "wpg False (try_address (scripted f) ai) (\<lambda>x w'. x = reached f ai \<and> hnd w' = hnd w) (\<lambda>_ _. False) w"
proof -
  have round: "wpg False (loop (connect_round (scripted f) fd a)) (\<lambda>x w'. hnd w' = hnd w \<and>
      x = (if r_ret (f (Connect fd a)) = -1 then -1 else fd)) (\<lambda>_ _. False) w1"
    if "hnd w1 = hnd w" for fd a and w1 :: "client world"
    using assms that
    by (subst loop_unfold) (auto simp: wp connect_round_def answers_def never_refuses_def)
  show ?thesis
    by (auto simp: try_address_def wp answers_def reached_def Let_def intro!: wpg_mono [OF round])
qed

lemma wpg_try_addresses:
  assumes "never_refuses f" and "hnd w = h"
  shows "wpg False (for_until ais (try_address (scripted f)))
    (\<lambda>x w'. x = (case find (\<lambda>ai. reached f ai \<noteq> None) ais of None \<Rightarrow> None | Some ai \<Rightarrow> reached f ai) \<and>
       hnd w' = h) (\<lambda>_ _. False) w"
  using assms(2)
proof (induction ais arbitrary: w)
  case Nil
  then show ?case by (simp add: wp)
next
  case (Cons ai ais)
  show ?case
    unfolding for_until.simps wpg_bind
    by (rule wpg_mono [OF wpg_try_address [OF assms(1)]])
      (use Cons in \<open>auto simp: wp split: option.splits\<close>)
qed

section \<open>Catching the server's datagram\<close>

text \<open>The calls that set a connection up succeed.\<close>

definition sets_up :: "env \<Rightarrow> bool" where
  "sets_up E \<longleftrightarrow>
     (\<forall>tr a b c. r_ret (sys E tr (Socket a b c)) \<noteq> -1) \<and>
     (\<forall>tr fd a. r_ret (sys E tr (Connect fd a)) \<noteq> -1) \<and>
     (\<forall>tr fd c x. r_ret (sys E tr (Fcntl fd c x)) \<noteq> -1) \<and>
     (\<forall>tr fd l opt v. r_ret (sys E tr (Setsockopt fd l opt v)) \<noteq> -1) \<and>
     (\<forall>tr ep op fd. r_ret (sys E tr (EpollCtl ep op fd)) \<noteq> -1) \<and>
     (\<forall>tr fd i v. r_ret (sys E tr (TimerfdSettime fd i v)) \<noteq> -1) \<and>
     (\<forall>tr a. r_ret (sys E tr (Getnameinfo a)) = 0)"

text \<open>The calls made so far.\<close>

definition calls :: "'h world \<Rightarrow> syscall set" where
  "calls w = fst ` set (trace w)"

lemma calls_simps [simp]: "calls (log c r w) = insert c (calls w)" "calls (upd f w) = calls w"
  by (auto simp: calls_def)

text \<open>A program that leaves the handle alone, makes the calls in \<open>cs\<close> and does not fail.\<close>

definition carries_out :: "('h, unit) prog \<Rightarrow> syscall set \<Rightarrow> bool" where
  "carries_out m cs \<longleftrightarrow> (\<forall>w. wpg False m (\<lambda>_ w'. hnd w' = hnd w \<and>
     calls w \<union> cs \<subseteq> calls w') (\<lambda>_ _. False) w)"

lemma carries_out_must_ok: "(\<And>tr. r_ret (sys E tr c) \<noteq> -1) \<Longrightarrow> carries_out (must_ok E c msg) {c}"
  by (auto simp: carries_out_def wp answers_def)

lemma carries_out_nil: "carries_out (block []) {}"
  by (simp add: carries_out_def wp)

lemma carries_out_cons:
  fixes m :: "('h, unit) prog"
  assumes m: "carries_out m A" and ms: "carries_out (block ms) B"
  shows "carries_out (block (m # ms)) (A \<union> B)"
  unfolding carries_out_def wpg_block
proof (intro allI, rule wpg_mono [OF m [unfolded carries_out_def, rule_format]])
  fix w w' :: "'h world"
  assume "hnd w' = hnd w \<and> calls w \<union> A \<subseteq> calls w'"
  then show "wpg False (block ms) (\<lambda>_ w'. hnd w' = hnd w \<and>
      calls w \<union> (A \<union> B) \<subseteq> calls w') (\<lambda>_ _. False) w'"
    by (intro wpg_mono [OF ms [unfolded carries_out_def, rule_format]]) auto
qed

lemmas carries_out_block = carries_out_nil carries_out_cons

lemma wpg_carries_out:
  assumes "carries_out m A"
    and "\<And>w'. hnd w' = hnd w \<Longrightarrow> calls w \<union> A \<subseteq> calls w' \<Longrightarrow> Q () w'"
  shows "wpg False m Q S w"
  by (rule wpg_mono [OF assms(1) [unfolded carries_out_def, rule_format]]) (use assms(2) in auto)

lemma sets_up_calls:
  assumes "sets_up E"
  shows "r_ret (sys E tr (Socket a b c)) \<noteq> -1" "r_ret (sys E tr (Connect fd ad)) \<noteq> -1"
    "r_ret (sys E tr (Fcntl fd s x)) \<noteq> -1" "r_ret (sys E tr (Setsockopt fd l opt v)) \<noteq> -1"
    "r_ret (sys E tr (EpollCtl ep op fd)) \<noteq> -1" "r_ret (sys E tr (TimerfdSettime fd i val)) \<noteq> -1"
    "r_ret (sys E tr (Getnameinfo ad)) = 0"
  using assms by (simp_all add: sets_up_def)

lemma carries_out_configure: "sets_up E \<Longrightarrow> \<exists>cs. carries_out (configure_server_conn E fd) cs"
  unfolding configure_server_conn_def
  by (rule exI) (rule carries_out_cons carries_out_nil carries_out_must_ok sets_up_calls | assumption)+

text \<open>Connected to \<open>a\<close> over the socket \<open>fd\<close>, watched by epoll, with the discovery paused.\<close>

definition connected_to :: "client \<Rightarrow> sockaddr_in \<Rightarrow> int \<Rightarrow> syscall set \<Rightarrow> bool" where
  "connected_to h a fd cs \<longleftrightarrow>
     {Connect fd a, EpollCtl (epoll_fd h) (CTL_ADD (EPOLLIN OR EPOLLOUT OR EPOLLHUP) fd) fd,
      EpollCtl (epoll_fd h) CTL_DEL (discovery_socket_fd h),
      EpollCtl (epoll_fd h) CTL_DEL (discovery_timer_fd h),
      TimerfdSettime (discovery_timer_fd h) 0 0} \<subseteq> cs"

definition joined :: "sockaddr_in \<Rightarrow> int \<Rightarrow> client \<Rightarrow> client" where
  "joined a fd h = set_server_conn (\<lambda>c. c\<lparr>socket_fd := fd\<rparr>) (h\<lparr>server_addr := a\<rparr>)"

lemma catch_joins:
  assumes k: "sets_up E" and loc: "local_discovery (hnd w)"
    and r: "sys E (trace w) (Recvfrom (discovery_socket_fd (hnd w)) (of_nat SERVERS_DISCOVERY_DATAGRAM_SIZE) 0) = r"
    and dg: "is_datagram SERVERS_DISCOVERY_DATAGRAM r"
  shows "\<exists>fd w'. catch_round E w = Some (Inr (Some ()), w') \<and> hnd w' = joined (r_addr r) fd (hnd w) \<and>
    connected_to (hnd w) (r_addr r) fd (calls w')"
proof -
  have ne: "r_ret r \<noteq> -1" using dg by (simp add: is_datagram_def)
  let ?h = "hnd w" let ?a = "r_addr r"
  let ?Q = "\<lambda>w'. \<exists>fd. hnd w' = joined ?a fd ?h \<and> connected_to ?h ?a fd (calls w')"
  have pause: "wpg False (client_pause_discovery E) (\<lambda>_. ?Q) (\<lambda>_ _. False) w1"
    if "hnd w1 = joined ?a fd ?h" and "{Connect fd ?a, EpollCtl (epoll_fd ?h) (CTL_ADD (EPOLLIN OR EPOLLOUT OR EPOLLHUP) fd) fd}
      \<subseteq> calls w1" for w1 fd
  proof -
    have dels: "carries_out (block [must_ok E (EpollCtl (epoll_fd ?h) CTL_DEL (discovery_socket_fd ?h)) m1,
        must_ok E (EpollCtl (epoll_fd ?h) CTL_DEL (discovery_timer_fd ?h)) m2,
        must_ok E (TimerfdSettime (discovery_timer_fd ?h) 0 0) m3])
      ({EpollCtl (epoll_fd ?h) CTL_DEL (discovery_socket_fd ?h)} \<union> ({EpollCtl (epoll_fd ?h) CTL_DEL (discovery_timer_fd ?h)} \<union>
        ({TimerfdSettime (discovery_timer_fd ?h) 0 0} \<union> {})))" for m1 m2 m3
      by (intro carries_out_block carries_out_must_ok sets_up_calls k)
    have "local_discovery (hnd w1)" "epoll_fd (hnd w1) = epoll_fd ?h" "discovery_socket_fd (hnd w1) = discovery_socket_fd ?h"
      "discovery_timer_fd (hnd w1) = discovery_timer_fd ?h"
      using that(1) loc by (simp_all add: joined_def set_server_conn_def)
    then show ?thesis
      unfolding client_pause_discovery_def wpg_bind wpg_get wpg_andthen wpg_bug_on
      by (simp del: block.simps) (rule wpg_carries_out [OF dels], use that in \<open>auto simp: connected_to_def\<close>)
  qed
  obtain cs where cs: "\<And>fd. carries_out (configure_server_conn E fd) (cs fd)"
    using carries_out_configure [OF k] by metis
  have finish: "wpg False (block [configure_server_conn E fd,
        must_ok E (EpollCtl (epoll_fd ?h) (CTL_ADD (EPOLLIN OR EPOLLOUT OR EPOLLHUP) fd) fd) m])
      (\<lambda>_ w2. wpg False (client_pause_discovery E) (\<lambda>_. ?Q) (\<lambda>_ _. False) w2) (\<lambda>_ _. False) w1"
    if "hnd w1 = joined ?a fd ?h" "Connect fd ?a \<in> calls w1" for w1 fd m
    by (rule wpg_carries_out [OF carries_out_block(2) [OF cs carries_out_block(2) [OF
          carries_out_must_ok [OF sets_up_calls(5) [OF k]] carries_out_block(1)]]], rule pause)
      (use that in auto)
  have start: "wpg False (client_start_connection E)
      (\<lambda>_ w2. wpg False (client_pause_discovery E) (\<lambda>_. ?Q) (\<lambda>_ _. False) w2) (\<lambda>_ _. False) w1"
    if "hnd w1 = ?h\<lparr>server_addr := ?a\<rparr>" for w1
  proof -
    have conn: "wpg False (connect_local E) (\<lambda>_ w2. \<exists>fd. hnd w2 = joined ?a fd ?h \<and> Connect fd ?a \<in> calls w2)
        (\<lambda>_ _. False) w1"
      using that sets_up_calls(1,2) [OF k]
      by (auto simp: connect_local_def wp answers_def joined_def set_server_conn_def)
    have facts: "local_discovery (hnd w1)" "\<And>fd. socket_fd (server_conn (joined ?a fd ?h)) = fd"
      "\<And>fd. epoll_fd (joined ?a fd ?h) = epoll_fd ?h"
      using that loc by (simp_all add: joined_def set_server_conn_def)
    show ?thesis
      unfolding client_start_connection_def wpg_bind wpg_get wpg_andthen if_P [OF facts(1)]
      by (rule wpg_mono [OF conn]) (auto simp only: facts(2,3) intro!: finish)
  qed
  have "wpg False (catch_round E) (\<lambda>x w'. x = Some () \<and> ?Q w') (\<lambda>_ _. False) w"
    using r dg ne sets_up_calls(7) [OF k] start by (simp add: catch_round_def wp answers_def)
  then show ?thesis by (auto dest!: wpg_outcome)
qed

text \<open>The answers that the discovery socket's queue holds, then \<open>EAGAIN\<close>.\<close>

fun incoming :: "env \<Rightarrow> trace \<Rightarrow> int \<Rightarrow> size_t \<Rightarrow> sysret list \<Rightarrow> bool" where
  "incoming E tr fd n [] =
     (r_ret (sys E tr (Recvfrom fd n 0)) = -1 \<and> r_errno (sys E tr (Recvfrom fd n 0)) = EAGAIN)"
| "incoming E tr fd n (r # rs) =
     (sys E tr (Recvfrom fd n 0) = r \<and> r_ret r \<noteq> -1 \<and> incoming E (tr @ [(Recvfrom fd n 0, r)]) fd n rs)"

lemma catch_loop_incoming:
  assumes "sets_up E"
  shows "local_discovery (hnd w) \<Longrightarrow>
    incoming E (trace w) (discovery_socket_fd (hnd w)) (of_nat SERVERS_DISCOVERY_DATAGRAM_SIZE) rs \<Longrightarrow>
    \<exists>w'. loop (catch_round E) w = Some (Inr (), w') \<and>
     (case find (is_datagram SERVERS_DISCOVERY_DATAGRAM) rs of
        None \<Rightarrow> hnd w' = hnd w
      | Some r \<Rightarrow> \<exists>fd. hnd w' = joined (r_addr r) fd (hnd w) \<and>
          connected_to (hnd w) (r_addr r) fd (calls w'))"
proof (induction rs arbitrary: w)
  case Nil
  let ?c = "Recvfrom (discovery_socket_fd (hnd w)) (of_nat SERVERS_DISCOVERY_DATAGRAM_SIZE) 0"
  have "\<not> is_datagram SERVERS_DISCOVERY_DATAGRAM (sys E (trace w) ?c)"
    using Nil by (simp add: is_datagram_def)
  then have "catch_round E w = Some (Inr (Some ()), log ?c (sys E (trace w) ?c) w)"
    using Nil by (intro wpg_exact) (simp add: catch_round_def wp answers_def)
  then show ?case by (subst loop_unfold) (simp add: bind_def return_def)
next
  case (Cons r rs)
  let ?c = "Recvfrom (discovery_socket_fd (hnd w)) (of_nat SERVERS_DISCOVERY_DATAGRAM_SIZE) 0"
  show ?case
  proof (cases "is_datagram SERVERS_DISCOVERY_DATAGRAM r")
    case True
    obtain fd w' where "catch_round E w = Some (Inr (Some ()), w')" "hnd w' = joined (r_addr r) fd (hnd w)"
      "connected_to (hnd w) (r_addr r) fd (calls w')"
      using catch_joins [OF assms Cons.prems(1) _ True] Cons.prems(2) by auto
    then show ?thesis using True by (subst loop_unfold) (auto simp: bind_def return_def)
  next
    case False
    have "catch_round E w = Some (Inr None, log ?c r w)"
      using Cons.prems False by (intro wpg_exact) (simp add: catch_round_def wp answers_def)
    then have "loop (catch_round E) w = loop (catch_round E) (log ?c r w)"
      by (subst loop_unfold) (simp add: bind_def)
    with Cons.IH [of "log ?c r w"] Cons.prems False show ?thesis
      by (cases "find (is_datagram SERVERS_DISCOVERY_DATAGRAM) rs") simp_all
  qed
qed

end
