(* ===== verification/ClientInit.thy ===== *)
theory ClientInit
  imports ClientSafety
begin

text \<open>
  The initialisation of the client establishes the invariant, when the two parameters of the
  machine that the code reads before it queries them are sound: a cache line size that is not
  negative and small enough, and a processor count that is not zero.
\<close>

text \<open>\<open>c\<close> is the cache line size that the uninitialised handle holds.\<close>

definition layout_fits :: "nat \<Rightarrow> client \<Rightarrow> bool" where
  "layout_fits c h \<longleftrightarrow> cache_line_size h = int c \<and> max_cpu h \<noteq> 0 \<and>
     unat (max_threads h) * (unat (task_size h) + c) < 2 ^ 64 \<and>
     unat (max_threads h) * (unat (ret_size h) + c) < 2 ^ 64"

lemma mult_stride:
  assumes "n * (s + c) < 2 ^ 64" and "i \<le> n" and "0 < n"
  shows "unat (of_nat i * (of_nat s + of_nat c) :: u64) = i * (s + c)"
proof -
  have "i * (s + c) \<le> n * (s + c)" using assms(2) by (rule mult_le_mono1)
  then have "i * (s + c) < 2 ^ 64" using assms(1) by linarith
  moreover have "(of_nat i * (of_nat s + of_nat c) :: u64) = of_nat (i * (s + c))" by simp
  ultimately show ?thesis by (metis unat_of_nat_64)
qed

lemma strides:
  assumes "layout_fits c h" and "i \<le> unat (max_threads h)" and "0 < unat (max_threads h)"
  shows "unat (of_nat i * task_stride h) = i * (unat (task_size h) + c)"
    and "unat (of_nat i * ret_stride h) = i * (unat (ret_size h) + c)"
proof -
  have c: "(word_of_int (cache_line_size h) :: size_t) = of_nat c"
    using assms(1) by (simp add: layout_fits_def)
  show "unat (of_nat i * task_stride h) = i * (unat (task_size h) + c)"
    using mult_stride [of "unat (max_threads h)" "unat (task_size h)" c i] assms
    by (simp add: task_stride_def c layout_fits_def)
  show "unat (of_nat i * ret_stride h) = i * (unat (ret_size h) + c)"
    using mult_stride [of "unat (max_threads h)" "unat (ret_size h)" c i] assms
    by (simp add: ret_stride_def c layout_fits_def)
qed

text \<open>The handle after the loop of \<open>init_task_management_routine\<close> has set up \<open>k\<close> threads.\<close>

definition fresh :: "nat \<Rightarrow> client \<Rightarrow> nat \<Rightarrow> thread_info \<Rightarrow> bool" where
  "fresh c h i t \<longleftrightarrow> empty t \<and> \<not> waiting_to_be_sent t \<and> thread_func t = computation_func h \<and>
     data_pack (in_args t) = i * (unat (task_size h) + c) \<and>
     ret_pack (in_args t) = i * (unat (ret_size h) + c)"

definition set_up :: "nat \<Rightarrow> nat \<Rightarrow> client \<Rightarrow> bool" where
  "set_up c k h \<longleftrightarrow> recv_ok h \<and> initial_requests h = max_threads h \<and> 0 < unat (max_threads h) \<and>
     length (thread_manager h) = unat (max_threads h) \<and>
     length (task_buffer h) = unat (max_threads h) * (unat (task_size h) + c) \<and>
     length (ret_buffer h) = unat (max_threads h) * (unat (ret_size h) + c) \<and>
     (\<forall>i < k. fresh c h i (thread h i))"

lemma set_up_all:
  assumes "set_up c (unat (max_threads h)) h"
  shows "client_inv h" and "slots h = replicate (unat (max_threads h)) Idle"
proof -
  let ?n = "unat (max_threads h)"
  have len: "length (thread_manager h) = ?n" and fr: "\<And>i. i < ?n \<Longrightarrow> fresh c h i (thread_manager h ! i)"
    using assms by (simp_all add: set_up_def thread_def)
  have d: "data_offsets h = map (\<lambda>i. i * (unat (task_size h) + c)) [0..<?n]"
    by (rule nth_equalityI) (use len fr in \<open>simp_all add: data_offsets_def fresh_def\<close>)
  have r: "ret_offsets h = map (\<lambda>i. i * (unat (ret_size h) + c)) [0..<?n]"
    by (rule nth_equalityI) (use len fr in \<open>simp_all add: ret_offsets_def fresh_def\<close>)
  have "buffers_ok h"
    unfolding buffers_ok_def d r using assms by (simp add: set_up_def regions_ok_stride)
  then show "client_inv h"
    using assms fr by (auto simp: client_inv_def set_up_def thread_ok_def thread_def fresh_def)
  show "slots h = replicate ?n Idle"
    by (rule nth_equalityI) (use len fr in \<open>simp_all add: slots_def slot_def fresh_def\<close>)
qed

lemma wpg_init_thread:
  assumes fits: "layout_fits c (hnd w)" and up: "set_up c i (hnd w)" and i: "i < unat (max_threads (hnd w))"
    and Q: "\<And>w'. layout_fits c (hnd w') \<Longrightarrow> set_up c (Suc i) (hnd w') \<Longrightarrow>
      max_threads (hnd w') = max_threads (hnd w) \<Longrightarrow> Q () w'"
    and S: "\<And>msg w'. S (Fatal msg) w'"
  shows "wpg d (init_thread E i) Q S w"
proof -
  let ?h = "hnd w"
  have off: "unat (of_nat i * task_stride ?h) = i * (unat (task_size ?h) + c)"
    "unat (of_nat i * ret_stride ?h) = i * (unat (ret_size ?h) + c)"
    using strides [OF fits] i by simp_all
  have m: "max_cpu ?h \<noteq> 0" using fits by (simp add: layout_fits_def)
  have i': "i < length (thread_manager ?h)" using up i by (simp add: set_up_def)
  let ?new = "\<lambda>r. set_thread i (\<lambda>_. \<lparr>empty = True,
          in_args = \<lparr>data_pack = unat (of_nat i * task_stride ?h), ret_pack = unat (of_nat i * ret_stride ?h)\<rparr>,
          thread_func = computation_func ?h, thread_id = -1, cpu = int i mod \<bar>max_cpu ?h\<bar>,
          thread_task = -1, event_fd = r_ret r, waiting_to_be_sent = False\<rparr>) ?h"
  have "layout_fits c (?new r)" for r
    using fits by (simp add: layout_fits_def) (simp add: set_thread_def)
  moreover have "set_up c (Suc i) (?new r)" for r
    using up i' by (auto simp: set_up_def fresh_def thread_set_thread off less_Suc_eq)
  ultimately show ?thesis
    using m by (auto simp: init_thread_def wp intro!: Q S)
qed

lemma wpg_init_threads:
  assumes "layout_fits c (hnd w)" and "set_up c 0 (hnd w)" and "max_threads (hnd w) = n"
    and Q: "\<And>w'. set_up c (unat n) (hnd w') \<Longrightarrow> max_threads (hnd w') = n \<Longrightarrow> Q () w'"
    and S: "\<And>msg w'. S (Fatal msg) w'"
  shows "wpg d (for_each [0..<unat n] (init_thread E)) Q S w"
  by (rule wpg_for_each_upt [where I = "\<lambda>k w. layout_fits c (hnd w) \<and> set_up c k (hnd w) \<and> max_threads (hnd w) = n"])
    (use assms in \<open>auto intro!: wpg_init_thread\<close>)

lemma wpg_query_cache_line_size:
  "(\<And>n w'. hnd w' = hnd w \<Longrightarrow> Q n w') \<Longrightarrow> (\<And>msg w'. S (Fatal msg) w') \<Longrightarrow>
   wpg d (query_cache_line_size E) Q S w"
  by (simp add: query_cache_line_size_def wp)

lemma set_up_params [simp]:
  "set_up c k (h\<lparr>cache_line_size := x\<rparr>) = set_up c k h" "set_up c k (h\<lparr>max_cpu := y\<rparr>) = set_up c k h"
  by (simp_all add: set_up_def recv_ok_def thread_def fresh_def)

lemma wpg_client_init_task_management:
  assumes fits: "layout_fits c (hnd w)" and ok: "recv_ok (hnd w)" and pos: "0 < unat (max_threads (hnd w))"
    and Q: "\<And>w'. set_up c (unat (max_threads (hnd w))) (hnd w') \<Longrightarrow>
      max_threads (hnd w') = max_threads (hnd w) \<Longrightarrow> Q () w'"
    and S: "\<And>msg w'. S (Fatal msg) w'"
  shows "wpg d (client_init_task_management E raw) Q S w"
proof -
  let ?h = "hnd w"
  have n: "(max_threads ?h * task_stride ?h) = of_nat (unat (max_threads ?h)) * task_stride ?h"
    "(max_threads ?h * ret_stride ?h) = of_nat (unat (max_threads ?h)) * ret_stride ?h" by simp_all
  note size = strides [OF fits order_refl pos, folded n]
  have loop: "wpg d (for_each [0..<unat (max_threads ?h)] (init_thread E)) (\<lambda>_ w'.
      wpg d (query_cache_line_size E) (\<lambda>x w''. \<forall>r. answers E (upd (\<lambda>h. h\<lparr>cache_line_size := x\<rparr>) w'') GetNprocs r \<longrightarrow>
        Q () (upd (\<lambda>h. h\<lparr>max_cpu := r_ret r\<rparr>)
          (log GetNprocs r (upd (\<lambda>h. h\<lparr>cache_line_size := x\<rparr>) w'')))) S w') S w'"
    if "hnd w' = ?h\<lparr>initial_requests := max_threads ?h, thread_manager := replicate (unat (max_threads ?h)) raw,
      task_buffer := fit (unat (max_threads ?h * task_stride ?h)) m1,
      ret_buffer := fit (unat (max_threads ?h * ret_stride ?h)) m2\<rparr>" for w' m1 m2
  proof (rule wpg_init_threads)
    show "layout_fits c (hnd w')" "max_threads (hnd w') = max_threads ?h"
      using that fits by (simp_all add: layout_fits_def)
    show "set_up c 0 (hnd w')"
      using that ok pos size by (simp add: set_up_def recv_ok_def)
    fix w2 :: "client world" assume up: "set_up c (unat (max_threads ?h)) (hnd w2)" "max_threads (hnd w2) = max_threads ?h"
    show "wpg d (query_cache_line_size E) (\<lambda>x w''. \<forall>r. answers E (upd (\<lambda>h. h\<lparr>cache_line_size := x\<rparr>) w'') GetNprocs r \<longrightarrow>
        Q () (upd (\<lambda>h. h\<lparr>max_cpu := r_ret r\<rparr>)
          (log GetNprocs r (upd (\<lambda>h. h\<lparr>cache_line_size := x\<rparr>) w'')))) S w2"
      by (rule wpg_query_cache_line_size) (auto simp: up intro!: Q S)
  qed (rule S)
  show ?thesis
    by (auto simp: client_init_task_management_def wp S thread_indices_def task_stride_def ret_stride_def
        intro!: loop [unfolded task_stride_def ret_stride_def])
qed

section \<open>The whole initialisation\<close>

text \<open>What the set-up of discovery leaves alone.\<close>

definition sizes :: "client \<Rightarrow> size_t \<times> size_t \<times> size_t \<times> int \<times> int" where
  "sizes h = (max_threads h, task_size h, ret_size h, cache_line_size h, max_cpu h)"

lemma layout_fits_sizes: "sizes h' = sizes h \<Longrightarrow> layout_fits c h' = layout_fits c h"
  by (simp add: sizes_def layout_fits_def)

lemma wpg_client_init_discovery:
  "(\<And>w'. sizes (hnd w') = sizes (hnd w) \<Longrightarrow> Q () w') \<Longrightarrow> (\<And>msg w'. S (Fatal msg) w') \<Longrightarrow>
   wpg d (client_init_discovery E) Q S w"
  by (simp add: client_init_discovery_def wp sizes_def)

lemma wpg_client_init_connection:
  assumes small: "sizeof_header + unat (task_size (hnd w)) < 2 ^ 64"
    and Q: "\<And>w'. sizes (hnd w') = sizes (hnd w) \<Longrightarrow> recv_ok (hnd w') \<Longrightarrow> Q () w'"
    and S: "\<And>msg w'. S (Fatal msg) w'"
  shows "wpg d (client_init_connection E) Q S w"
proof -
  have "unat (task_size (hnd w) + of_nat sizeof_header) = sizeof_header + unat (task_size (hnd w))"
    using small by (simp add: sizeof_header_def unat_word_ariths)
  then show ?thesis
    using small by (auto simp: client_init_connection_def wp S sizes_def recv_ok_def set_server_conn_def
        sizeof_header_def intro!: Q)
qed

lemma silent_client_start_task_management: "silent (client_start_task_management E)"
proof (rule silentI)
  fix w :: "client world"
  have "wpg False (for_each (thread_indices (hnd w)) (\<lambda>i. bind (get (\<lambda>h. event_fd (thread h i)))
      (\<lambda>fd. must_ok E (EpollCtl (epoll_fd (hnd w)) (CTL_ADD EPOLLIN fd) fd) ''Add event-fd to epoll'')))
      (\<lambda>_ w'. hnd w' = hnd w) (\<lambda>e _. orderly e) w"
    by (rule wpg_for_each [where I = "\<lambda>w'. hnd w' = hnd w"]) (simp_all add: wp)
  then show "wpg False (client_start_task_management E) (\<lambda>_ w'. hnd w' = hnd w) (\<lambda>e _. orderly e) w"
    by (simp add: client_start_task_management_def wp)
qed

definition idle_client :: "client \<Rightarrow> bool" where
  "idle_client h \<longleftrightarrow> client_inv h \<and>
     slot_steps (unat (max_threads h), replicate (unat (max_threads h)) Idle) (view h)"

lemma wpg_init_cluster_client:
  assumes fits: "layout_fits c (hnd w)" and small: "sizeof_header + unat (task_size (hnd w)) < 2 ^ 64"
    and pos: "max_threads (hnd w) \<noteq> 0"
  shows "wpg True (init_cluster_client E raw) (\<lambda>_ w'. idle_client (hnd w')) (\<lambda>e _. orderly e) w"
proof -
  let ?Q = "\<lambda>_ w'. idle_client (hnd w')" and ?S = "\<lambda>e _. orderly e"
  have connect: "wpg True (block [bind (get local_discovery)
      (\<lambda>loc. if \<not> loc then client_start_connection E else return ())]) ?Q ?S w'"
    if up: "set_up c (unat (max_threads (hnd w'))) (hnd w')" for w'
  proof -
    let ?q = "hnd w'"
    note all = set_up_all [OF up]
    have q: "client_at ?q {} ?q" using all(1) by (simp add: client_at_def)
    have init: "view ?q = (unat (max_threads ?q), replicate (unat (max_threads ?q)) Idle)"
      using up all(2) by (simp add: view_def set_up_def)
    have idle: "idle_client h" if "client_at ?q {} h" for h
    proof -
      have "slot_steps (view ?q) (view h)" using client_at_parts(2) [OF that] by (simp add: client_evolved_def)
      then show ?thesis unfolding init idle_client_def using client_at_parts(1,5) [OF that] by simp
    qed
    have "wpg True (client_start_connection E) (\<lambda>_ w''. client_at ?q {} (hnd w'')) ?S w'"
      using cl.keepsD [OF keeps_client_start_connection [where b = False] q] by (simp add: client_stop_def)
    then show ?thesis using idle [OF q] by (auto simp: wp elim!: wpg_mono intro: idle)
  qed
  have rest: "wpg True (block [client_start_task_management E, client_start_discovery E,
      bind (get local_discovery) (\<lambda>loc. if \<not> loc then client_start_connection E else return ())]) ?Q ?S w'"
    if "set_up c (unat (max_threads (hnd w'))) (hnd w')" for w'
    unfolding wpg_block(2) [of _ "client_start_task_management E"] wpg_block(2) [of _ "client_start_discovery E"]
    by (rule wpg_silent [OF silent_client_start_task_management], rule wpg_silent [OF silent_client_start_discovery])
      (use that in \<open>auto simp del: block.simps intro!: connect\<close>)
  have epoll: "set_up c k (h\<lparr>epoll_fd := fd\<rparr>) = set_up c k h" for k h fd
    by (simp add: set_up_def recv_ok_def thread_def fresh_def)
  have middle: "wpg True (block [client_init_task_management E raw,
       bind (must E (EpollCreate1 EPOLL_CLOEXEC) ''epoll_create1() failed'') (\<lambda>fd. modify (\<lambda>h. h\<lparr>epoll_fd := fd\<rparr>)),
       must_zero E (PthreadCreate 0) ''pthread_create() failed'',
       client_start_task_management E, client_start_discovery E,
       bind (get local_discovery) (\<lambda>loc. if \<not> loc then client_start_connection E else return ())]) ?Q ?S w'"
    if "sizes (hnd w') = sizes (hnd w)" and "recv_ok (hnd w')" for w'
    unfolding wpg_block(2) [of _ "client_init_task_management E raw"]
    by (rule wpg_client_init_task_management [of c])
      (use that fits pos layout_fits_sizes [OF that(1)] rest epoll in
        \<open>auto simp: wpg_block(2) [of _ "bind _ _"] wpg_block(2) [of _ "must_zero _ _ _"] wpg_bind wpg_must
           wpg_modify wpg_must_zero sizes_def unat_gt_0 simp del: block.simps\<close>)
  show ?thesis
    unfolding init_cluster_client_def wpg_block(2) [of _ "client_init_discovery E"] wpg_block(2) [of _ "client_init_connection E"]
    by (rule wpg_client_init_discovery, rule wpg_client_init_connection)
      (use small middle in \<open>auto simp: sizes_def\<close>)
qed

end
