(* ===== verification/ClientScenarios.thy ===== *)
theory ClientScenarios
  imports ClientSend ClientStream ClientConnect ClientInit
begin

text \<open>
  A concrete client on which the properties are evaluated: two threads, tasks of two bytes,
  results of one byte, and a computation that adds the bytes of a task.
\<close>

definition add_bytes :: "u8 list \<Rightarrow> u8 list" where
  "add_bytes bs = [fold (+) bs 0]"

definition worker :: "nat \<Rightarrow> bool \<Rightarrow> bool \<Rightarrow> u32 \<Rightarrow> thread_info" where
  "worker i e ready t =
     \<lparr>empty = e, in_args = \<lparr>data_pack = i * 3, ret_pack = i * 2\<rparr>, thread_func = add_bytes,
      thread_id = 0, cpu = int i, thread_task = t, event_fd = 10 + int i, waiting_to_be_sent = ready\<rparr>"

text \<open>The result regions hold the sums of the task regions.\<close>

definition crew :: "thread_info \<Rightarrow> thread_info \<Rightarrow> size_t \<Rightarrow> client" where
  "crew t0 t1 n =
     \<lparr>epoll_fd = 4, server_hostname = None, local_discovery = True, discovery_socket_fd = 7,
      discovery_timer_fd = 8, broadcast_addr = \<lparr>sin_family = AF_INET, s_addr = 0, sin_port = 0\<rparr>,
      server_conn = \<lparr>socket_fd = 5, recv_buffer = [4, 0, 0, 0, 9, 20, 22], bytes_recieved = 0\<rparr>,
      server_addr = \<lparr>sin_family = AF_INET, s_addr = 0, sin_port = 0\<rparr>, initial_requests = n,
      thread_manager = [t0, t1], max_threads = 2, task_buffer = [1, 2, 0, 3, 4, 0], task_size = 2,
      ret_buffer = [3, 0, 7, 0], ret_size = 1, max_cpu = 4, cache_line_size = 1,
      computation_func = add_bytes\<rparr>"

lemma crew_inv:
  assumes "e0 \<longrightarrow> \<not> r0" and "e1 \<longrightarrow> \<not> r1"
  shows "client_inv (crew (worker 0 e0 r0 x0) (worker 1 e1 r1 x1) n)"
proof -
  let ?h = "crew (worker 0 e0 r0 x0) (worker 1 e1 r1 x1) n"
  have d: "data_offsets ?h = map (\<lambda>i. i * 3) [0..<2]" and r: "ret_offsets ?h = map (\<lambda>i. i * 2) [0..<2]"
    by (simp_all add: data_offsets_def ret_offsets_def crew_def worker_def upt_rec)
  have "buffers_ok ?h"
    unfolding buffers_ok_def d r by (auto simp: crew_def intro!: regions_ok_stride)
  moreover have "recv_ok ?h" by (simp add: recv_ok_def crew_def sizeof_header_def)
  moreover have "thread_ok ?h (worker 0 e0 r0 x0)" "thread_ok ?h (worker 1 e1 r1 x1)"
    using assms by (auto simp: thread_ok_def worker_def crew_def result_of_def data_of_def computed_def
        slice_def add_bytes_def fit_def)
  ultimately show ?thesis
    by (auto simp: client_inv_def crew_def thread_def less_2_cases_iff)
qed

lemmas crew_invs = crew_inv crew_inv [unfolded One_nat_def]

lemma crew_simps [simp]:
  "max_threads (crew t0 t1 n) = 2" "task_size (crew t0 t1 n) = 2" "ret_size (crew t0 t1 n) = 1"
  "initial_requests (crew t0 t1 n) = n" "thread_manager (crew t0 t1 n) = [t0, t1]"
  "thread (crew t0 t1 n) 0 = t0" "thread (crew t0 t1 n) (Suc 0) = t1"
  "socket_fd (server_conn (crew t0 t1 n)) = 5" "local_discovery (crew t0 t1 n)"
  "discovery_socket_fd (crew t0 t1 n) = 7" "discovery_timer_fd (crew t0 t1 n) = 8" "epoll_fd (crew t0 t1 n) = 4"
  by (simp_all add: crew_def thread_def)

lemma crew_small [simp]: "small_sizes (crew t0 t1 n)" "\<not> big_result (crew t0 t1 n)"
  by (simp_all add: small_sizes_def big_result_def)

lemma worker_simps [simp]:
  "empty (worker i e r x) = e" "waiting_to_be_sent (worker i e r x) = r"
  "event_fd (worker i e r x) = 10 + int i" "thread_task (worker i e r x) = x"
  by (simp_all add: worker_def)

abbreviation resting :: "nat \<Rightarrow> thread_info" where
  "resting i \<equiv> worker i True False (-1)"

abbreviation computing :: "nat \<Rightarrow> u32 \<Rightarrow> thread_info" where
  "computing i t \<equiv> worker i False False t"

abbreviation through :: "nat \<Rightarrow> u32 \<Rightarrow> thread_info" where
  "through i t \<equiv> worker i False True t"

lemma takes_all_scripted_obliging: "takes_all (scripted obliging)"
  by (simp add: takes_all_def)

end
