(* ===== verification/ClientRun.thy ===== *)
theory ClientRun
  imports ClientSteps
begin

text \<open>
  The start of a computation where threads can be made, and the independence of the threads'
  work: the run of one thread and the start of another can change places.
\<close>

definition spawns :: "env \<Rightarrow> bool" where
  "spawns E \<longleftrightarrow> (\<forall>tr s. r_ret (sys E tr (PthreadAttr s)) = 0) \<and>
     (\<forall>tr n. r_ret (sys E tr (PthreadCreate n)) = 0) \<and> (\<forall>tr fd bs. r_ret (sys E tr (Write fd bs)) \<noteq> -1)"

lemma computation_wrapper_spawned:
  assumes k: "spawns E" and ok: "buffers_ok (hnd w)" and i: "i < length (thread_manager (hnd w))"
  shows "\<exists>w'. computation_wrapper E i w = Some (Inr (), w') \<and> hnd w' = run_thread i (hnd w)"
proof -
  have "wpg False (computation_wrapper E i) (\<lambda>_ w'. hnd w' = run_thread i (hnd w)) (\<lambda>_ _. False) w"
    using k unfolding wpg_computation_wrapper [OF ok i] by (simp add: answers_def spawns_def Let_def)
  then show ?thesis by (auto dest!: wpg_outcome)
qed

lemma run_on_thread_spawned:
  assumes k: "spawns E" and ok: "buffers_ok (hnd w)" "recv_ok (hnd w)" and i: "i < length (thread_manager (hnd w))"
  shows "\<exists>w'. run_on_thread E tid i w = Some (Inr (), w') \<and>
    hnd w' = run_thread i (store_task i (set_thread i (\<lambda>t. t\<lparr>thread_task := tid\<rparr>) (hnd w)))"
proof -
  let ?h = "hnd w" let ?c = "set_thread i (\<lambda>t. t\<lparr>thread_task := tid\<rparr>) ?h" let ?s = "store_task i ?c"
  have len: "length (received_task ?c) = unat (task_size ?c)"
    using length_received_task [of ?c] ok(2) by simp
  have c: "buffers_ok ?c"
    using ok(1) offsets_set_thread [OF i, of "\<lambda>t. t\<lparr>thread_task := tid\<rparr>"] by (simp add: buffers_ok_def)
  have s: "buffers_ok ?s" using buffers_ok_store_task [OF c _ len] i by simp
  have fits: "\<not> length (task_buffer ?h) < data_pack (in_args (thread ?h i)) + unat (task_size ?h)"
    using regions_fit [of "unat (task_size ?h)" "length (task_buffer ?h)" "data_offsets ?h" i] ok(1) i
    by (simp add: buffers_ok_def nth_offsets)
  have st: "?c\<lparr>task_buffer := blit (task_buffer ?h) (data_pack (in_args (thread ?h i)))
      (slice sizeof_header (unat (task_size ?h)) (recv_buffer (server_conn ?h)))\<rparr> = ?s"
    using i by (simp add: store_task_def received_task_def thread_set_thread)
  have run: "wpg False (computation_wrapper E i) (\<lambda>_ w'. hnd w' = run_thread i ?s) (\<lambda>_ _. False) w'"
    if "hnd w' = ?s" for w' :: "client world"
    using computation_wrapper_spawned [OF k, of w' i] that s i by (auto simp: wpg_def)
  have "wpg False (run_on_thread E tid i) (\<lambda>_ w'. hnd w' = run_thread i ?s) (\<lambda>_ _. False) w"
    using k fits by (auto simp: run_on_thread_def wp answers_def spawns_def st intro!: run)
  then show ?thesis by (auto dest!: wpg_outcome)
qed

lemma start_computation_spawned:
  assumes k: "spawns E" and inv: "client_inv (hnd w)" and free: "find_index empty (thread_manager (hnd w)) = Some i"
  shows "\<exists>w'. start_computation E tid w = Some (Inr (), w') \<and> hnd w' = started i tid (hnd w)"
proof -
  let ?h = "hnd w" let ?w = "upd (set_thread i (\<lambda>t. t\<lparr>empty := False\<rparr>)) w"
  note parts = client_inv_parts [OF inv]
  have i: "i < length (thread_manager ?h)" using free by (simp add: find_index_Some)
  have ok: "buffers_ok (hnd ?w)"
    using parts(2) offsets_set_thread [OF i, of "\<lambda>t. t\<lparr>empty := False\<rparr>"] by (simp add: buffers_ok_def)
  obtain w' where w': "run_on_thread E tid i ?w = Some (Inr (), w')"
    "hnd w' = run_thread i (store_task i (set_thread i (\<lambda>t. t\<lparr>thread_task := tid\<rparr>) (hnd ?w)))"
    using run_on_thread_spawned [OF k ok, of i tid] parts(3) i by auto
  have two: "set_thread i (\<lambda>t. t\<lparr>thread_task := tid\<rparr>) (set_thread i (\<lambda>t. t\<lparr>empty := False\<rparr>) ?h) = claim_thread i tid ?h"
    using i by (simp add: claim_thread_def set_thread_def thread_def)
  have "start_computation E tid w = Some (Inr (), w')"
    using free parts(1) w'(1)
    by (simp add: start_computation_def bind_def get_def andthen_def modify_def)
  then show ?thesis using w'(2) by (simp add: started_def two)
qed

lemma start_computation_full:
  assumes inv: "client_inv (hnd w)" and full: "find_index empty (thread_manager (hnd w)) = None"
  shows "start_computation E tid w = Some (Inl (Bug ''Recieved spare computation task''), w)"
  using full client_inv_parts(1) [OF inv]
  by (simp add: start_computation_def bind_def get_def halt_def)

section \<open>Independence\<close>

lemma run_thread_other:
  assumes ok: "buffers_ok h" and i: "i < length (thread_manager h)" and j: "j < length (thread_manager h)"
    and ne: "i \<noteq> j" and len: "length (received_task h) = unat (task_size h)"
  shows "run_thread i (run_thread j (store_task j (set_thread j (\<lambda>t. t\<lparr>thread_task := tid\<rparr>) h))) =
    run_thread j (store_task j (set_thread j (\<lambda>t. t\<lparr>thread_task := tid\<rparr>) (run_thread i h)))"
proof -
  let ?s = "set_thread j (\<lambda>t. t\<lparr>thread_task := tid\<rparr>)"
  let ?res = "\<lambda>k d. fit (unat (ret_size h)) (thread_func (thread h k) d)"
  let ?off = "\<lambda>k. ret_pack (in_args (thread h k))"
  have th: "thread (?s h) k = (if k = j then (thread h j)\<lparr>thread_task := tid\<rparr> else thread h k)" for k
    using j by (simp add: thread_set_thread)
  have args: "in_args (thread (?s h) k) = in_args (thread h k)" "thread_func (thread (?s h) k) = thread_func (thread h k)" for k
    by (simp_all add: th)
  have c: "buffers_ok (?s h)"
    using ok offsets_set_thread [OF j, of "\<lambda>t. t\<lparr>thread_task := tid\<rparr>"] by (simp add: buffers_ok_def)
  have recv: "received_task (?s h) = received_task h" by (simp add: received_task_def)
  have data: "data_of (store_task j (?s h)) (thread (?s h) k) = (if k = j then received_task h else data_of h (thread h k))"
    if "k < length (thread_manager h)" for k
    using data_of_store_task [OF c, of j k] j that len recv by (simp add: data_of_def args)
  have offs: "?off i + unat (ret_size h) \<le> length (ret_buffer h)" "?off j + unat (ret_size h) \<le> length (ret_buffer h)"
    "apart (unat (ret_size h)) (?off i) (?off j)"
    using ok i j ne by (auto simp: buffers_ok_def nth_offsets dest: regions_fit regions_apart)
  have comm: "blit (blit (ret_buffer h) (?off j) (?res j (received_task h))) (?off i) (?res i (data_of h (thread h i))) =
      blit (blit (ret_buffer h) (?off i) (?res i (data_of h (thread h i)))) (?off j) (?res j (received_task h))"
    using offs by (intro blit_commute) (auto simp: apart_def)
  have lhs: "run_thread i (run_thread j (store_task j (?s h))) = (store_task j (?s h))\<lparr>ret_buffer :=
      blit (blit (ret_buffer h) (?off j) (?res j (received_task h))) (?off i) (?res i (data_of h (thread h i)))\<rparr>"
    using data [OF i] data [OF j] ne by (simp add: run_thread_def data_of_def args thread_def [of "_\<lparr>ret_buffer := _\<rparr>"] flip: thread_def)
  have swap: "store_task j (?s (h\<lparr>ret_buffer := b\<rparr>)) = (store_task j (?s h))\<lparr>ret_buffer := b\<rparr>" for b
    by (simp add: store_task_def set_thread_def thread_def received_task_def)
  have rhs: "run_thread j (store_task j (?s (run_thread i h))) = (store_task j (?s h))\<lparr>ret_buffer :=
      blit (blit (ret_buffer h) (?off i) (?res i (data_of h (thread h i)))) (?off j) (?res j (received_task h))\<rparr>"
  proof -
    have "run_thread i h = h\<lparr>ret_buffer := blit (ret_buffer h) (?off i) (?res i (data_of h (thread h i)))\<rparr>"
      by (simp add: run_thread_def)
    then show ?thesis
      using data [OF j] by (simp add: swap) (simp add: run_thread_def data_of_def args thread_def [of "_\<lparr>ret_buffer := _\<rparr>"] flip: thread_def)
  qed
  show ?thesis unfolding lhs rhs comm ..
qed

end
