(* ===== verification/ClientBatch.thy ===== *)
theory ClientBatch
  imports ClientSteps
begin

text \<open>
  Events that belong to no socket, and what the loop over the threads does with them: collecting
  the end of a computation, and trying to collect it a second time.
\<close>

lemma has_event_simps [simp]:
  "has_event EPOLLIN EPOLLIN" "\<not> has_event EPOLLIN EPOLLOUT"
  by (simp_all add: has_event_def EPOLLIN_def EPOLLOUT_def)

text \<open>An event whose descriptor is none of the client's sockets and not its timer.\<close>

lemma thread_event:
  assumes "x \<noteq> discovery_timer_fd (hnd w)" and "x \<noteq> discovery_socket_fd (hnd w)"
    and "x \<noteq> socket_fd (server_conn (hnd w))"
    and "\<And>w'. for_each [0..<unat (max_threads (hnd w))] (finish_computation E fd EPOLLIN) w = Some (Inr (), w') \<Longrightarrow>
      server_conn (hnd w') = server_conn (hnd w)"
  shows "client_process_event E fd (x, EPOLLIN) w =
    (case for_each [0..<unat (max_threads (hnd w))] (finish_computation E fd EPOLLIN) w of
       None \<Rightarrow> None
     | Some (Inl e, w') \<Rightarrow> Some (Inl e, w')
     | Some (Inr _, w') \<Rightarrow> Some (Inr None, w'))"
proof -
  have ne: "(x = discovery_timer_fd (hnd w)) = False" "(x = discovery_socket_fd (hnd w)) = False"
    "(x = socket_fd (server_conn (hnd w))) = False" using assms by auto
  have "client_process_event E fd (x, EPOLLIN) w =
     bind (goes_on (for_each [0..<unat (max_threads (hnd w))] (finish_computation E fd EPOLLIN)))
      (\<lambda>r. case r of Some y \<Rightarrow> return (Some y) | None \<Rightarrow> for_until [bind (get (\<lambda>h. socket_fd (server_conn h))) (\<lambda>sfd.
          if x = sfd \<and> has_event EPOLLIN EPOLLOUT then send_to_server E else return None)] (\<lambda>stage. stage)) w"
    by (simp only: client_process_event_def Let_def for_until.simps bind_def get_def return_def thread_indices_def
        ne fst_conv snd_conv option.case prod.case sum.case if_False simp_thms)
  also have "\<dots> = (case for_each [0..<unat (max_threads (hnd w))] (finish_computation E fd EPOLLIN) w of
       None \<Rightarrow> None
     | Some (Inl e, w') \<Rightarrow> Some (Inl e, w')
     | Some (Inr _, w') \<Rightarrow> Some (Inr None, w'))"
    by (simp add: bind_def goes_on_def andthen_def return_def get_def split: option.splits sum.splits prod.splits)
  finally show ?thesis .
qed

text \<open>Thread \<open>i\<close> is the only one with the event descriptor \<open>fd\<close>.\<close>

definition only_thread :: "client \<Rightarrow> nat \<Rightarrow> int \<Rightarrow> bool" where
  "only_thread h i fd \<longleftrightarrow> i < unat (max_threads h) \<and>
     (\<forall>k < unat (max_threads h). event_fd (thread h k) = fd \<longleftrightarrow> k = i)"

lemma event_fd_finished:
  "i < length (thread_manager h) \<Longrightarrow> event_fd (thread (finished i h) k) = event_fd (thread h k)"
  by (simp add: finished_def thread_set_thread)

lemma finished_same:
  "max_threads (finished i h) = max_threads h" "discovery_timer_fd (finished i h) = discovery_timer_fd h"
  "discovery_socket_fd (finished i h) = discovery_socket_fd h" "server_conn (finished i h) = server_conn h"
  by (simp_all add: finished_def set_thread_def)

lemma collect_one:
  assumes only: "only_thread (hnd w) i fd" and len: "length (thread_manager (hnd w)) = unat (max_threads (hnd w))"
    and first: "r_ret (sys E (trace w) (Read fd 8)) \<noteq> -1" and epoll: "\<And>tr ep op x. r_ret (sys E tr (EpollCtl ep op x)) \<noteq> -1"
  shows "wpg False (finish_computation E fd EPOLLIN i)
    (\<lambda>_ w'. hnd w' = finished i (hnd w) \<and> Read fd 8 \<in> fst ` set (trace w')) (\<lambda>_ _. False) w"
proof -
  have fds: "event_fd (thread (hnd w) i) = fd" "event_fd (thread (finished i (hnd w)) i) = fd"
    using only len by (simp_all add: only_thread_def event_fd_finished)
  show ?thesis
    using first epoll
    by (simp add: finish_computation_def mark_computation_as_ready_def client_update_connection_def wp answers_def
        finished_def [symmetric] fds)
qed

lemma collect_skips:
  assumes "event_fd (thread (hnd w) k) \<noteq> fd"
  shows "wpg False (finish_computation E fd EPOLLIN k) (\<lambda>_ w'. w' = w) S w"
  using assms by (simp add: finish_computation_def wp)

lemma collect_once:
  assumes only: "only_thread (hnd w) i fd" and len: "length (thread_manager (hnd w)) = unat (max_threads (hnd w))"
    and first: "r_ret (sys E (trace w) (Read fd 8)) \<noteq> -1" and epoll: "\<And>tr ep op x. r_ret (sys E tr (EpollCtl ep op x)) \<noteq> -1"
  shows "\<exists>w'. for_each [0..<unat (max_threads (hnd w))] (finish_computation E fd EPOLLIN) w = Some (Inr (), w') \<and>
    hnd w' = finished i (hnd w) \<and> Read fd 8 \<in> fst ` set (trace w')"
proof -
  let ?P = "\<lambda>w'. hnd w' = finished i (hnd w) \<and> Read fd 8 \<in> fst ` set (trace w')"
  have "wpg False (for_each [0..<unat (max_threads (hnd w))] (finish_computation E fd EPOLLIN)) (\<lambda>_. ?P) (\<lambda>_ _. False) w"
  proof (rule wpg_for_each_upt [where I = "\<lambda>k w'. if k \<le> i then w' = w else ?P w'"])
    fix k and w1 :: "client world"
    assume k: "k < unat (max_threads (hnd w))" and at: "if k \<le> i then w1 = w else ?P w1"
    show "wpg False (finish_computation E fd EPOLLIN k) (\<lambda>_ w'. if Suc k \<le> i then w' = w else ?P w') (\<lambda>_ _. False) w1"
    proof (cases "k = i")
      case True
      with at show ?thesis by (auto intro!: wpg_mono [OF collect_one [OF only len first epoll]])
    next
      case False
      then have "event_fd (thread (hnd w1) k) \<noteq> fd"
        using k at only len by (auto simp: only_thread_def event_fd_finished split: if_splits)
      then show ?thesis by (rule wpg_mono [OF collect_skips]) (use False at in \<open>auto split: if_splits\<close>)
    qed
  qed (use only in \<open>auto simp: only_thread_def\<close>)
  then show ?thesis by (auto dest!: wpg_outcome)
qed

lemma collect_again:
  assumes only: "only_thread h i fd" and len: "length (thread_manager h) = unat (max_threads h)"
    and w: "hnd w = finished i h" "Read fd 8 \<in> fst ` set (trace w)"
    and drained: "\<And>tr. Read fd 8 \<in> fst ` set tr \<Longrightarrow> r_ret (sys E tr (Read fd 8)) = -1"
  shows "\<exists>w'. for_each [0..<unat (max_threads h)] (finish_computation E fd EPOLLIN) w =
    Some (Inl (Fatal ''Unable to read from event-fd''), w')"
proof -
  let ?S = "\<lambda>e _. e = Fatal ''Unable to read from event-fd''"
  have i: "i < length (thread_manager h)" using only len by (simp add: only_thread_def)
  have "wpg False (for_each [0..<unat (max_threads h)] (finish_computation E fd EPOLLIN)) (\<lambda>_ _. False) ?S w"
  proof (rule wpg_for_each_upt [where I = "\<lambda>k w'. k \<le> i \<and> w' = w"])
    fix k and w1 :: "client world" assume k: "k < unat (max_threads h)" "k \<le> i \<and> w1 = w"
    have fds: "event_fd (thread (hnd w) k) = fd \<longleftrightarrow> k = i"
      using k(1) only i by (simp add: w(1) event_fd_finished only_thread_def)
    show "wpg False (finish_computation E fd EPOLLIN k) (\<lambda>_ w'. Suc k \<le> i \<and> w' = w) ?S w1"
    proof (cases "k = i")
      case True
      have "event_fd (thread (set_thread i (\<lambda>t. t\<lparr>waiting_to_be_sent := True\<rparr>) (hnd w)) i) = fd"
        using fds True i by (simp add: thread_set_thread w(1) finished_def)
      then show ?thesis
        using True k fds drained [OF w(2)]
        by (simp add: finish_computation_def mark_computation_as_ready_def wp answers_def)
    next
      case False
      with fds have "event_fd (thread (hnd w) k) \<noteq> fd" by simp
      then show ?thesis using k False by (auto intro!: wpg_mono [OF collect_skips])
    qed
  qed (use only in \<open>auto simp: only_thread_def\<close>)
  then show ?thesis by (auto dest!: wpg_stopped)
qed

end
