(* ===== verification/ClientSpec.thy ===== *)
theory ClientSpec
  imports ClientScenarios ClientRun ClientBatch
begin

text \<open>
  The properties of the client, each with a concrete case.
\<close>

section \<open>Events\<close>



section \<open>Computations\<close>

text \<open>
  C26: \<open>start_computation\<close> runs a task on the first idle thread: afterwards that thread, and no
  other, is busy with the task's id and bytes, its result region holds the value of the
  computation function on exactly those bytes, and every other thread's result is untouched.
\<close>

theorem start_computation_runs_task:
  assumes "spawns E" and inv: "client_inv (hnd w)" and free: "find_index empty (thread_manager (hnd w)) = Some i"
  shows "\<exists>w'. start_computation E tid w = Some (Inr (), w') \<and> client_inv (hnd w') \<and>
    slots (hnd w') = (slots (hnd w))[i := Running tid (received_task (hnd w))] \<and>
    (\<forall>j < unat (max_threads (hnd w)). result_of (hnd w') (thread (hnd w') j) =
       (if j = i then computed (hnd w) (received_task (hnd w)) else result_of (hnd w) (thread (hnd w) j)))"
proof -
  have i: "i < unat (max_threads (hnd w))"
    using free client_inv_parts(1) [OF inv] by (simp add: find_index_Some)
  obtain w' where "start_computation E tid w = Some (Inr (), w')" "hnd w' = started i tid (hnd w)"
    using start_computation_spawned [OF assms] by blast
  then show ?thesis
    using client_inv_started [OF inv free] slots_started [OF inv free] started_effect(4) [OF inv i] by auto
qed

theorem start_computation_runs_task_witness:
  "\<exists>w'. start_computation (scripted obliging) 9 (boot (crew (computing 0 6) (resting 1) 0)) = Some (Inr (), w') \<and>
     slots (hnd w') = [Running 6 [1, 2], Running 9 [20, 22]] \<and> result_of (hnd w') (thread (hnd w') 1) = [42]"
proof -
  let ?h = "crew (computing 0 6) (resting 1) 0"
  have k: "spawns (scripted obliging)" by (simp add: spawns_def)
  have "slots ?h = [Running 6 [1, 2], Idle]" "received_task ?h = [20, 22]" "computed ?h [20, 22] = [42]"
    by code_simp+
  moreover have pre: "client_inv (hnd (boot ?h))" "find_index empty (thread_manager (hnd (boot ?h))) = Some 1"
    by (simp_all add: crew_invs)
  moreover from start_computation_runs_task [OF k pre, of 9] obtain w' where
    "start_computation (scripted obliging) 9 (boot ?h) = Some (Inr (), w')"
    "slots (hnd w') = (slots ?h)[1 := Running 9 (received_task ?h)]"
    "\<forall>j < 2. result_of (hnd w') (thread (hnd w') j) =
       (if j = 1 then computed ?h (received_task ?h) else result_of ?h (thread ?h j))"
    unfolding boot_simps crew_simps by (auto simp del: One_nat_def)
  ultimately show ?thesis by (intro exI [of _ w']) (simp del: One_nat_def, simp)
qed



text \<open>
  C28: the threads work independently: running the computation of one thread and putting another
  task on another thread give the same state in either order, so it does not matter when, between
  its start and the signal of its end, a computation runs.
\<close>

theorem computations_commute:
  assumes k: "spawns E" and inv: "client_inv (hnd w)" and i: "i < unat (max_threads (hnd w))"
    and j: "j < unat (max_threads (hnd w))" and ne: "i \<noteq> j"
  shows "\<exists>w1 w2. andthen (run_on_thread E tid j) (computation_wrapper E i) w = Some (Inr (), w1) \<and>
    andthen (computation_wrapper E i) (run_on_thread E tid j) w = Some (Inr (), w2) \<and> hnd w1 = hnd w2"
proof -
  let ?h = "hnd w" let ?p = "\<lambda>h. run_thread j (store_task j (set_thread j (\<lambda>t. t\<lparr>thread_task := tid\<rparr>) h))"
  note parts = client_inv_parts [OF inv]
  have ij: "i < length (thread_manager ?h)" "j < length (thread_manager ?h)" using i j parts(1) by simp_all
  note len = length_received_task [OF parts(3)]
  obtain a where a: "run_on_thread E tid j w = Some (Inr (), a)" "hnd a = ?p ?h"
    using run_on_thread_spawned [OF k parts(2,3) ij(2)] by blast
  let ?c = "set_thread j (\<lambda>t. t\<lparr>thread_task := tid\<rparr>) ?h"
  have "buffers_ok ?c"
    using parts(2) offsets_set_thread [OF ij(2), of "\<lambda>t. t\<lparr>thread_task := tid\<rparr>"] by (simp add: buffers_ok_def)
  then have "buffers_ok (hnd a)"
    unfolding a(2) using ij(2) len
    by (intro buffers_ok_run_thread buffers_ok_store_task) (simp_all add: received_task_def)
  then obtain w1 where w1: "computation_wrapper E i a = Some (Inr (), w1)" "hnd w1 = run_thread i (hnd a)"
    using computation_wrapper_spawned [OF k, of a i] ij(1) by (auto simp: a(2))
  obtain b where b: "computation_wrapper E i w = Some (Inr (), b)" "hnd b = run_thread i ?h"
    using computation_wrapper_spawned [OF k parts(2) ij(1)] by blast
  have "buffers_ok (hnd b)" "recv_ok (hnd b)" "j < length (thread_manager (hnd b))"
    using buffers_ok_run_thread [OF parts(2) ij(1)] parts(3) ij(2) by (simp_all add: b(2) recv_ok_def)
  then obtain w2 where w2: "run_on_thread E tid j b = Some (Inr (), w2)" "hnd w2 = ?p (hnd b)"
    using run_on_thread_spawned [OF k, of b j tid] by blast
  have "hnd w1 = hnd w2"
    unfolding w1(2) w2(2) a(2) b(2) by (rule run_thread_other [OF parts(2) ij ne len])
  then show ?thesis
    using a(1) b(1) w1(1) w2(1) by (auto simp: andthen_def bind_def)
qed

theorem computations_commute_witness:
  "\<exists>w1 w2. andthen (run_on_thread (scripted obliging) 9 1) (computation_wrapper (scripted obliging) 0)
       (boot (crew (computing 0 6) (computing 1 9) 0)) = Some (Inr (), w1) \<and>
     andthen (computation_wrapper (scripted obliging) 0) (run_on_thread (scripted obliging) 9 1)
       (boot (crew (computing 0 6) (computing 1 9) 0)) = Some (Inr (), w2) \<and> hnd w1 = hnd w2"
proof -
  have k: "spawns (scripted obliging)" by (simp add: spawns_def)
  from computations_commute [OF k, of "boot (crew (computing 0 6) (computing 1 9) 0)" 0 1 9] show ?thesis
    by (simp add: crew_invs)
qed

section \<open>Messages\<close>


text \<open>The kernel of the witness: the message for a task in pieces of two, four and one bytes.\<close>

definition task_pieces :: "u8 list list" where
  "task_pieces = [[4, 0], [0, 0, 9, 20], [22]]"

definition cutting :: env where
  "cutting = (scripted obliging)\<lparr>sys := \<lambda>tr c.
     if length tr < 3 then (answer (int (length (task_pieces ! length tr))))\<lparr>r_data := task_pieces ! length tr\<rparr>
     else answer (-1)\<rparr>"


text \<open>
  C30: sending a ready result, for every answer of the kernel. The message is the command, the
  task id in network order, and the value of the computation function on the task's bytes; only
  when the kernel took all of it is the thread freed; if the socket's buffer is full nothing
  changes and the result waits for the next chance; if the connection is broken the loop ends;
  anything else, also a part of the message taken, stops the client.
\<close>

theorem send_result_spec:
  assumes inv: "client_inv (hnd w)" and i: "i < unat (max_threads (hnd w))" and sz: "small_sizes (hnd w)"
    and ready: "waiting_to_be_sent (thread (hnd w) i)"
  shows "let c = Send (socket_fd (server_conn (hnd w)))
               (CMD_RESULT # be_bytes (thread_task (thread (hnd w) i)) @
                computed (hnd w) (data_of (hnd w) (thread (hnd w) i))) MSG_NOSIGNAL;
             r = sys E (trace w) c in
    send_result_of E i w = Some
     (if word_of_int (r_ret r) = of_nat sizeof_header + ret_size (hnd w)
      then (Inr None, upd (set_thread i (\<lambda>t. t\<lparr>waiting_to_be_sent := False, empty := True\<rparr>)) (log c r w))
      else if r_ret r = -1 \<and> r_errno r = EAGAIN then (Inr (Some False), log c r w)
      else if r_ret r = -1 \<and> r_errno r = EPIPE then (Inr (Some True), log c r w)
      else (Inl (Fatal ''Unable to send() data''), log c r w))"
proof -
  let ?c = "Send (socket_fd (server_conn (hnd w))) (result_message (hnd w) i) MSG_NOSIGNAL"
  let ?r = "sys E (trace w) ?c"
  let ?o = "if word_of_int (r_ret ?r) = of_nat sizeof_header + ret_size (hnd w)
      then (Inr None, upd (result_sent i) (log ?c ?r w))
      else if r_ret ?r = -1 \<and> r_errno ?r = EAGAIN then (Inr (Some False), log ?c ?r w)
      else if r_ret ?r = -1 \<and> r_errno ?r = EPIPE then (Inr (Some True), log ?c ?r w)
      else (Inl (Fatal ''Unable to send() data''), log ?c ?r w)"
  have "wpg False (send_result_of E i) (\<lambda>x w'. (Inr x, w') = ?o) (\<lambda>e w'. (Inl e, w') = ?o) w"
    unfolding wpg_send_result_of [OF inv i sz ready] by (simp add: Let_def answers_def)
  then have "send_result_of E i w = Some ?o"
    by (cases "send_result_of E i w"; cases "fst (the (send_result_of E i w))") (auto simp: wpg_def)
  then show ?thesis by (simp only: Let_def result_message_def result_sent_def)
qed

theorem send_result_spec_witness:
  "send_result_of (scripted stuffed) 1 (boot (crew (resting 0) (through 1 6) 0)) = Some (Inr (Some False),
     log (Send 5 [3, 0, 0, 0, 6, 7] MSG_NOSIGNAL) (answer (-1)) (boot (crew (resting 0) (through 1 6) 0)))"
proof -
  let ?h = "crew (resting 0) (through 1 6) 0"
  have "client_inv (hnd (boot ?h))" by (simp add: crew_invs)
  moreover have "CMD_RESULT # be_bytes (thread_task (thread ?h 1)) @ computed ?h (data_of ?h (thread ?h 1)) =
      [3, 0, 0, 0, 6, 7]" by code_simp
  moreover have "(word_of_int (-1) :: size_t) \<noteq> of_nat sizeof_header + 1" by (simp add: sizeof_header_def)
  ultimately show ?thesis
    using send_result_spec [of "boot ?h" 1 "scripted stuffed"] by (simp add: Let_def)
qed

text \<open>
  C31: on a writable socket whose peer takes everything, the client sends the results that are
  ready, in the order of the threads, then one request for each of its initial requests, and then
  stops watching for writability; afterwards no result is left to be sent, no request is left,
  and the threads whose results went out are idle. It always comes to an end.
\<close>

theorem send_to_server_delivers:
  assumes "takes_all E" and "client_inv (hnd w)" and "small_sizes (hnd w)"
  shows "\<exists>w' ms. send_to_server E w = Some (Inr None, w') \<and> client_inv (hnd w') \<and>
    settings (hnd w') = settings (hnd w) \<and> initial_requests (hnd w') = 0 \<and>
    slots (hnd w') = map (\<lambda>s. case s of Ready t d \<Rightarrow> Idle | _ \<Rightarrow> s) (slots (hnd w)) \<and>
    sent_on (socket_fd (server_conn (hnd w))) (trace w') = sent_on (socket_fd (server_conn (hnd w))) (trace w) @
      map (result_message (hnd w)) (filter (\<lambda>i. waiting_to_be_sent (thread (hnd w) i)) [0..<unat (max_threads (hnd w))]) @ ms \<and>
    length ms = unat (initial_requests (hnd w)) \<and> (\<forall>m \<in> set ms. request_message (hnd w) m) \<and>
    fst (last (trace w')) = EpollCtl (epoll_fd (hnd w)) (CTL_MOD (EPOLLHUP OR EPOLLIN)
      (socket_fd (server_conn (hnd w)))) (socket_fd (server_conn (hnd w)))"
  by (rule send_to_server_obliged [OF assms])

theorem send_to_server_delivers_witness:
  "\<exists>w' m. send_to_server (scripted obliging) (boot (crew (through 0 8) (computing 1 6) 1)) = Some (Inr None, w') \<and>
     slots (hnd w') = [Idle, Running 6 [3, 4]] \<and> sent_on 5 (trace w') = [[3, 0, 0, 0, 8, 3], m]"
proof -
  let ?h = "crew (through 0 8) (computing 1 6) 1"
  have inv: "client_inv (hnd (boot ?h))" by (simp add: crew_invs)
  have c: "slots ?h = [Ready 8 [1, 2], Running 6 [3, 4]]" "result_message ?h 0 = [3, 0, 0, 0, 8, 3]" by code_simp+
  have f: "filter (\<lambda>i. waiting_to_be_sent (thread ?h i)) [0..<2] = [0]" by (simp add: upt_rec)
  obtain w' ms where w': "send_to_server (scripted obliging) (boot ?h) = Some (Inr None, w')"
    "slots (hnd w') = [Idle, Running 6 [3, 4]]" "sent_on 5 (trace w') = [3, 0, 0, 0, 8, 3] # ms" "length ms = 1"
    using send_to_server_delivers [OF takes_all_scripted_obliging inv] c f by (auto simp: sent_on_def)
  then show ?thesis by (cases ms) auto
qed

section \<open>Finding the server\<close>

text \<open>
  The loop around \<open>connect\<close> waits for a host that refuses: after \<open>k\<close> refusals and one success
  it returns the socket, having slept exactly once between the attempts and done nothing else.
\<close>

lemma connect_loop_waits:
  assumes "accepts_after E fd a k (trace w)"
  shows "\<exists>w'. loop (connect_round E fd a) w = Some (Inr fd, w') \<and> hnd w' = hnd w \<and>
    map fst (trace w') = map fst (trace w) @ concat (replicate k [Connect fd a, Nanosleep 1]) @ [Connect fd a]"
  by (rule connect_waits [OF assms])

text \<open>The kernel of the witness: two refusals, then success.\<close>

definition reluctant :: env where
  "reluctant = (scripted obliging)\<lparr>sys := \<lambda>tr c. (case c of
     Connect fd a \<Rightarrow> if length tr < 4 then (answer (-1))\<lparr>r_errno := ECONNREFUSED\<rparr> else answer 0
   | _ \<Rightarrow> answer 0)\<rparr>"

lemma connect_loop_waits_witness:
  "\<exists>w'. loop (connect_round reluctant 3 \<lparr>sin_family = AF_INET, s_addr = 0, sin_port = 0\<rparr>)
       (boot (crew (resting 0) (resting 1) 2)) = Some (Inr 3, w') \<and>
     map fst (trace w') = [Connect 3 \<lparr>sin_family = AF_INET, s_addr = 0, sin_port = 0\<rparr>, Nanosleep 1,
       Connect 3 \<lparr>sin_family = AF_INET, s_addr = 0, sin_port = 0\<rparr>, Nanosleep 1,
       Connect 3 \<lparr>sin_family = AF_INET, s_addr = 0, sin_port = 0\<rparr>]"
proof -
  let ?w = "boot (crew (resting 0) (resting 1) 2)"
  have "accepts_after reluctant 3 \<lparr>sin_family = AF_INET, s_addr = 0, sin_port = 0\<rparr> (Suc (Suc 0)) (trace ?w)"
    by (simp add: reluctant_def Let_def)
  from connect_loop_waits [OF this] show ?thesis by auto
qed

text \<open>
  C32: a host that refuses forever keeps the client in that loop forever; no other address of the
  host is tried, since \<open>ECONNREFUSED\<close> never leaves the loop.
\<close>

theorem refusing_host_blocks_client:
  assumes "local_discovery (hnd w) = False" and "r_ret (sys E (trace w) (Getaddrinfo name)) = 0"
    and "server_hostname (hnd w) = Some name"
    and "r_addrs (sys E (trace w) (Getaddrinfo name)) = ai # ais"
    and "\<And>tr. r_ret (sys E tr (Socket (ai_family ai) (ai_socktype ai) (ai_protocol ai))) \<noteq> -1"
    and "\<And>tr fd. r_ret (sys E tr (Connect fd (ai_addr ai))) = -1 \<and> r_errno (sys E tr (Connect fd (ai_addr ai))) = ECONNREFUSED"
  shows "client_start_connection E w = None"
proof -
  have "loop (connect_round E fd (ai_addr ai)) w' = None" for fd and w' :: "client world"
    by (rule connect_refused_forever) (use assms(6) in blast)
  then have "try_address E ai w' = None" for w'
    using assms(5) by (simp add: try_address_def bind_def call_def Let_def)
  then have "connect_distant E w = None"
    using assms(2-4) by (simp add: connect_distant_def bind_def get_def call_def Let_def andthen_def fail_if_def return_def)
  then show ?thesis
    using assms(1) by (simp add: client_start_connection_def bind_def get_def andthen_def)
qed

text \<open>The kernel of the witness: one address, which refuses.\<close>

definition nobody_home :: env where
  "nobody_home = scripted (\<lambda>c. case c of
     Getaddrinfo s \<Rightarrow> (answer 0)\<lparr>r_addrs := [\<lparr>ai_family = AF_INET, ai_socktype = SOCK_STREAM, ai_protocol = 0,
       ai_addr = \<lparr>sin_family = AF_INET, s_addr = 0, sin_port = 0\<rparr>\<rparr>]\<rparr>
   | Connect fd a \<Rightarrow> (answer (-1))\<lparr>r_errno := ECONNREFUSED\<rparr>
   | _ \<Rightarrow> answer 0)"

theorem refusing_host_blocks_client_witness:
  "client_start_connection nobody_home (boot ((crew (resting 0) (resting 1) 2)
     \<lparr>local_discovery := False, server_hostname := Some ''host''\<rparr>)) = None"
  by (rule refusing_host_blocks_client [where name = "''host''" and ais = "[]" and
        ai = "\<lparr>ai_family = AF_INET, ai_socktype = SOCK_STREAM, ai_protocol = 0,
          ai_addr = \<lparr>sin_family = AF_INET, s_addr = 0, sin_port = 0\<rparr>\<rparr>"])
    (simp_all add: nobody_home_def answer_def)


text \<open>The kernel of the witness: of two addresses only the second can be connected.\<close>

definition address :: "int \<Rightarrow> u32 \<Rightarrow> addrinfo" where
  "address proto a = \<lparr>ai_family = AF_INET, ai_socktype = SOCK_STREAM, ai_protocol = proto,
     ai_addr = \<lparr>sin_family = AF_INET, s_addr = a, sin_port = 0\<rparr>\<rparr>"

definition two_addresses :: "syscall \<Rightarrow> sysret" where
  "two_addresses c = (case c of
     Getaddrinfo s \<Rightarrow> (answer 0)\<lparr>r_addrs := [address 0 1, address 6 2]\<rparr>
   | Socket d t p \<Rightarrow> answer (20 + p)
   | Connect fd a \<Rightarrow> answer (if s_addr a = 1 then -1 else 0)
   | _ \<Rightarrow> answer 0)"


text \<open>
  C34: on a readable discovery socket the client takes the queued datagrams one after the other;
  the first that is the server's "I am here" makes it connect to the datagram's sender, watch that
  connection, and take the discovery socket and timer out of the event loop, whose timer it
  disarms. Other datagrams change nothing, and the reading ends on every finite queue.
\<close>

theorem catch_joins_first_server:
  assumes "sets_up E" and "local_discovery (hnd w)"
    and "incoming E (trace w) (discovery_socket_fd (hnd w)) (of_nat SERVERS_DISCOVERY_DATAGRAM_SIZE) rs"
  shows "\<exists>w'. catch_servers_discovery_datagram E w = Some (Inr (), w') \<and>
     (case find (is_datagram SERVERS_DISCOVERY_DATAGRAM) rs of
        None \<Rightarrow> hnd w' = hnd w
      | Some r \<Rightarrow> \<exists>fd. hnd w' = joined (r_addr r) fd (hnd w) \<and>
          connected_to (hnd w) (r_addr r) fd (calls w'))"
  using catch_loop_incoming [OF assms] assms(2)
  by (simp add: catch_servers_discovery_datagram_def bind_def get_def andthen_def bug_on_def return_def)

text \<open>The kernel of the witness: a short datagram, then the server's, from the address 9.\<close>

definition here_i_am :: env where
  "here_i_am = (scripted obliging)\<lparr>sys := \<lambda>tr c. (case c of
     Recvfrom fd n fl \<Rightarrow> if length tr = 0 then (answer 2)\<lparr>r_data := [1, 2]\<rparr>
       else if length tr = 1 then (answer 27)\<lparr>r_data := SERVERS_DISCOVERY_DATAGRAM,
         r_addr := \<lparr>sin_family = AF_INET, s_addr = 9, sin_port = 0\<rparr>\<rparr> else answer (-1)
   | _ \<Rightarrow> answer 0)\<rparr>"

theorem catch_joins_first_server_witness:
  "\<exists>w' fd. catch_servers_discovery_datagram here_i_am (boot (crew (resting 0) (resting 1) 2)) = Some (Inr (), w') \<and>
     server_addr (hnd w') = \<lparr>sin_family = AF_INET, s_addr = 9, sin_port = 0\<rparr> \<and>
     Connect fd \<lparr>sin_family = AF_INET, s_addr = 9, sin_port = 0\<rparr> \<in> calls w'"
proof -
  let ?w = "boot (crew (resting 0) (resting 1) 2)"
  let ?r = "(answer 27)\<lparr>r_data := SERVERS_DISCOVERY_DATAGRAM, r_addr := \<lparr>sin_family = AF_INET, s_addr = 9, sin_port = 0\<rparr>\<rparr>"
  let ?rs = "[(answer 2)\<lparr>r_data := [1, 2]\<rparr>, ?r]"
  have k: "sets_up here_i_am" by (simp add: sets_up_def here_i_am_def)
  have q: "incoming here_i_am (trace ?w) (discovery_socket_fd (hnd ?w)) (of_nat SERVERS_DISCOVERY_DATAGRAM_SIZE) ?rs"
    by (simp add: here_i_am_def)
  have loc: "local_discovery (hnd ?w)" by simp
  have f: "find (is_datagram SERVERS_DISCOVERY_DATAGRAM) ?rs = Some ?r" by code_simp
  from catch_joins_first_server [OF k loc q, unfolded f option.case] obtain w' fd where
    "catch_servers_discovery_datagram here_i_am ?w = Some (Inr (), w')" "hnd w' = joined (r_addr ?r) fd (hnd ?w)"
    "connected_to (hnd ?w) (r_addr ?r) fd (calls w')" by blast
  then show ?thesis by (intro exI [of _ w'] exI [of _ fd]) (simp add: joined_def set_server_conn_def connected_to_def)
qed

section \<open>Initialisation\<close>


text \<open>The kernel of the witness, with a cache line of 64 bytes.\<close>

fun workstation :: "syscall \<Rightarrow> sysret" where
  "workstation FscanfInt = (answer 1)\<lparr>r_value := 64\<rparr>"
| "workstation (Fopen p) = answer 1"
| "workstation GetNprocs = answer 4"
| "workstation c = obliging c"


text \<open>
  C36: the same function divides by zero when the handle's uninitialised \<open>max_cpu\<close> is zero: the
  field is read in the loop over the threads, and set only after it.
\<close>

theorem init_divides_by_uninitialised_max_cpu:
  assumes "max_cpu (hnd w) = 0" and "max_threads (hnd w) \<noteq> 0"
    and "\<And>tr b n. r_ret (sys E tr (Malloc b n)) \<noteq> 0" and "\<And>tr b n k. r_ret (sys E tr (Calloc b n k)) \<noteq> 0"
  shows "\<exists>w'. client_init_task_management E raw w = Some (Inl (Undef ''division by zero''), w')"
proof -
  let ?S = "\<lambda>e _. e = Undef ''division by zero''"
  let ?P = "\<lambda>w'. max_cpu (hnd w') = 0 \<and> max_threads (hnd w') = max_threads (hnd w)"
  have loop: "wpg False (for_each (thread_indices (hnd w')) (init_thread E)) Q ?S w'"
    if "?P w'" for w' Q
  proof -
    have "0 < unat (max_threads (hnd w))" using assms(2) by (simp add: unat_gt_0)
    then have "[0..<unat (max_threads (hnd w))] = 0 # [Suc 0..<unat (max_threads (hnd w))]"
      by (rule upt_conv_Cons)
    then have "thread_indices (hnd w') = 0 # [Suc 0..<unat (max_threads (hnd w))]"
      using that by (simp only: thread_indices_def)
    then show ?thesis using that by (simp add: wp init_thread_def)
  qed
  have ok: "answers E w' (Malloc b n) r \<Longrightarrow> r_ret r \<noteq> 0" "answers E w' (Calloc b n k) r \<Longrightarrow> r_ret r \<noteq> 0"
    for w' :: "client world" and b n k r using assms(3,4) by (auto simp: answers_def)
  have "wpg False (client_init_task_management E raw) (\<lambda>_ _. False) ?S w"
    unfolding client_init_task_management_def
    by (subst append_take_drop_id [where n = "Suc (Suc (Suc (Suc (Suc 0))))", symmetric],
        rule wpg_block_append [where P = ?P])
      (use assms(1) in \<open>auto simp: wp ok simp del: block.simps intro!: loop dest: ok\<close>)
  then show ?thesis by (auto dest!: wpg_stopped)
qed

theorem init_divides_by_uninitialised_max_cpu_witness:
  "\<exists>w'. client_init_task_management (scripted workstation) (resting 0)
     (boot ((crew (resting 0) (resting 1) 0)\<lparr>max_cpu := 0\<rparr>)) = Some (Inl (Undef ''division by zero''), w')"
  by (rule init_divides_by_uninitialised_max_cpu) simp_all

section \<open>What the loop gets wrong\<close>

text \<open>
  C37: the loop over the threads compares with the descriptor of the first event of the batch,
  not of the event it handles. When the first event is the end of a computation and the second is
  the end of another, the first thread's descriptor is read again, which fails, as its counter is
  zero: the client exits although nothing is wrong.
\<close>

theorem two_ends_in_a_batch_are_fatal:
  assumes inv: "client_inv (hnd w)" and i: "i < unat (max_threads (hnd w))"
    and distinct: "\<forall>k < unat (max_threads (hnd w)). event_fd (thread (hnd w) k) = fd \<longrightarrow> k = i"
    and efd: "event_fd (thread (hnd w) i) = fd"
    and other: "\<forall>x \<in> {fd, fd'}. x \<noteq> discovery_timer_fd (hnd w) \<and> x \<noteq> discovery_socket_fd (hnd w) \<and>
      x \<noteq> socket_fd (server_conn (hnd w))"
    and first: "r_ret (sys E (trace w) (Read fd 8)) \<noteq> -1" and epoll: "\<And>tr ep op x. r_ret (sys E tr (EpollCtl ep op x)) \<noteq> -1"
    and drained: "\<And>tr. Read fd 8 \<in> fst ` set tr \<Longrightarrow> r_ret (sys E tr (Read fd 8)) = -1"
  shows "\<exists>w'. for_until [(fd, EPOLLIN), (fd', EPOLLIN)] (client_process_event E fd) w =
    Some (Inl (Fatal ''Unable to read from event-fd''), w')"
proof -
  have only: "only_thread (hnd w) i fd" "length (thread_manager (hnd w)) = unat (max_threads (hnd w))"
    using i distinct efd client_inv_parts(1) [OF inv] unfolding only_thread_def by blast+
  obtain w1 where w1: "for_each [0..<unat (max_threads (hnd w))] (finish_computation E fd EPOLLIN) w = Some (Inr (), w1)"
    "hnd w1 = finished i (hnd w)" "Read fd 8 \<in> fst ` set (trace w1)"
    using collect_once [OF only first epoll] by blast
  obtain w2 where w2: "for_each [0..<unat (max_threads (hnd w))] (finish_computation E fd EPOLLIN) w1 =
      Some (Inl (Fatal ''Unable to read from event-fd''), w2)"
    using collect_again [OF only w1(2,3) drained] by blast
  have same: "max_threads (hnd w1) = max_threads (hnd w)" "discovery_timer_fd (hnd w1) = discovery_timer_fd (hnd w)"
    "discovery_socket_fd (hnd w1) = discovery_socket_fd (hnd w)" "server_conn (hnd w1) = server_conn (hnd w)"
    by (simp_all only: w1(2) finished_same)
  have fd: "fd \<noteq> discovery_timer_fd (hnd w)" "fd \<noteq> discovery_socket_fd (hnd w)" "fd \<noteq> socket_fd (server_conn (hnd w))"
    and fd': "fd' \<noteq> discovery_timer_fd (hnd w1)" "fd' \<noteq> discovery_socket_fd (hnd w1)" "fd' \<noteq> socket_fd (server_conn (hnd w1))"
    using other by (simp_all only: same) simp_all
  have "client_process_event E fd (fd, EPOLLIN) w = Some (Inr None, w1)"
    by (subst thread_event [OF fd]) (auto simp only: w1(1) same option.inject prod.inject sum.inject option.case sum.case prod.case)
  moreover have "client_process_event E fd (fd', EPOLLIN) w1 = Some (Inl (Fatal ''Unable to read from event-fd''), w2)"
    by (subst thread_event [OF fd']) (auto simp only: w2 same option.inject prod.inject sum.simps option.case prod.case)
  ultimately show ?thesis by (simp add: bind_def)
qed

text \<open>The kernel of the witness: an event descriptor can be read once.\<close>

definition counters :: env where
  "counters = (scripted obliging)\<lparr>sys := \<lambda>tr c.
     if c \<in> fst ` set tr \<and> (case c of Read fd n \<Rightarrow> True | _ \<Rightarrow> False) then answer (-1) else answer 0\<rparr>"

theorem two_ends_in_a_batch_are_fatal_witness:
  "\<exists>w'. for_until [(10, EPOLLIN), (11, EPOLLIN)] (client_process_event counters 10)
     (boot (crew (computing 0 6) (computing 1 9) 0)) = Some (Inl (Fatal ''Unable to read from event-fd''), w')"
  by (rule two_ends_in_a_batch_are_fatal [where i = 0])
    (auto simp: crew_invs less_2_cases_iff counters_def)

text \<open>
  C38: the test before a send compares the size of a task with the send buffer, but what is
  copied is a result: with results of more than 251 bytes already the first request runs past
  the end of the 256 bytes.
\<close>

theorem result_size_overflows_send_buffer:
  assumes inv: "client_inv (hnd w)" and "initial_requests (hnd w) \<noteq> 0"
    and "unat (task_size (hnd w)) < 251" and "251 < unat (ret_size (hnd w))"
  shows "request_round E w = Some (Inl (Undef ''send_buffer overflow''), w)"
proof -
  let ?hdr = "\<lparr>cmd = CMD_REQUEST_FOR_DATA, task_id = htobe32 (host E) (-1)\<rparr>"
  have ci: "\<And>k. None = Some k \<Longrightarrow> k < unat (max_threads (hnd w))" by simp
  have c: "cmd ?hdr = CMD_REQUEST_FOR_DATA \<or> cmd ?hdr = CMD_RESULT" by simp
  have "unat (of_nat sizeof_header + task_size (hnd w)) = sizeof_header + unat (task_size (hnd w))"
    using assms(3) by (simp add: sizeof_header_def unat_word_ariths)
  then have size: "\<not> 256 \<le> of_nat sizeof_header + task_size (hnd w)"
    using assms(3) by (simp add: word_le_nat_alt sizeof_header_def)
  have "wpg False (request_round E) (\<lambda>_ _. False) (\<lambda>e w'. e = Undef ''send_buffer overflow'' \<and> w' = w) w"
    using assms(2,4) size
    by (simp add: request_round_def wpg_bind wpg_get wpg_if wpg_client_put_data [OF inv ci c] Let_def)
  then show ?thesis by (auto dest!: wpg_stopped)
qed

text \<open>A client for results of 300 bytes with one thread.\<close>

definition wide :: client where
  "wide = (crew (resting 0) (resting 1) 1)\<lparr>thread_manager := [resting 0], max_threads := 1,
     ret_buffer := replicate 300 0, ret_size := 300\<rparr>"

theorem result_size_overflows_send_buffer_witness:
  "request_round (scripted obliging) (boot wide) = Some (Inl (Undef ''send_buffer overflow''), boot wide)"
proof (rule result_size_overflows_send_buffer)
  have "buffers_ok wide"
    by (simp add: buffers_ok_def regions_ok_def data_offsets_def ret_offsets_def wide_def) (simp add: crew_def worker_def)
  moreover have "recv_ok wide" by (simp add: recv_ok_def wide_def crew_def sizeof_header_def)
  moreover have "thread_ok wide (resting 0)" by (simp add: thread_ok_def worker_def wide_def crew_def)
  ultimately show "client_inv (hnd (boot wide))" by (simp add: client_inv_def) (simp add: wide_def thread_def)
qed (simp_all add: wide_def)

end
