(* ===== verification/Protocol.thy ===== *)
theory Protocol
  imports ServerPool ClientSteps "HOL-Library.Multiset"
begin

text \<open>
  The contract of the whole cluster: the task pool of the server, and one link for each
  connection, with the messages under way in both directions and the slots of the client at its
  other end. The steps are those of the two programs; the invariant says that every message
  under way is accounted for on both sides, so that no result is lost, doubled or mixed up, and
  no task is sent to a client that has no idle thread for it.
\<close>

section \<open>State and steps\<close>

text \<open>A request carries bytes that nobody reads.\<close>

datatype up_message = Request "u8 list" | Result u32 "u8 list"

record link =
  asking :: nat
  work :: "slot list"
  up :: "up_message list"
  wanted :: nat
  down :: "(u32 \<times> u8 list) list"

definition fresh_link :: "nat \<Rightarrow> link" where
  "fresh_link n = \<lparr>asking = n, work = replicate n Idle, up = [], wanted = 0, down = []\<rparr>"

type_synonym cluster = "phase list \<times> (nat \<Rightarrow> link option)"

text \<open>What the client at one end of a link does; \<open>f\<close> is the computation.\<close>

inductive link_step :: "(u8 list \<Rightarrow> u8 list) \<Rightarrow> link \<Rightarrow> link \<Rightarrow> bool" for f where
  ask: "asking l = Suc n \<Longrightarrow> link_step f l (l\<lparr>asking := n, up := up l @ [Request m]\<rparr>)"
| start: "down l = (x, bs) # ms \<Longrightarrow> find_index (\<lambda>s. s = Idle) (work l) = Some k \<Longrightarrow>
     link_step f l (l\<lparr>down := ms, work := (work l)[k := Running x bs]\<rparr>)"
| finish: "k < length (work l) \<Longrightarrow> work l ! k = Running x bs \<Longrightarrow>
     link_step f l (l\<lparr>work := (work l)[k := Ready x bs]\<rparr>)"
| answer: "k < length (work l) \<Longrightarrow> work l ! k = Ready x bs \<Longrightarrow>
     link_step f l (l\<lparr>work := (work l)[k := Idle], up := up l @ [Result x (f bs)]\<rparr>)"

text \<open>
  What a cluster with fixed clients does; \<open>d t\<close> is the data of the task \<open>t\<close>. The server counts
  a request, stores a result, or gives a task to a connection that waits for one.
\<close>

inductive cluster_work :: "(u8 list \<Rightarrow> u8 list) \<Rightarrow> (nat \<Rightarrow> u8 list) \<Rightarrow> cluster \<Rightarrow> cluster \<Rightarrow> bool"
  for f d where
  client: "L i = Some l \<Longrightarrow> link_step f l l' \<Longrightarrow> cluster_work f d (p, L) (p, L(i \<mapsto> l'))"
| count: "L i = Some l \<Longrightarrow> up l = Request m # ms \<Longrightarrow>
     cluster_work f d (p, L) (p, L(i \<mapsto> l\<lparr>up := ms, wanted := Suc (wanted l)\<rparr>))"
| store: "L i = Some l \<Longrightarrow> up l = Result x bs # ms \<Longrightarrow> unat x < length p \<Longrightarrow> p ! unat x = Held i \<Longrightarrow>
     cluster_work f d (p, L) (p[unat x := Done bs], L(i \<mapsto> l\<lparr>up := ms, wanted := Suc (wanted l)\<rparr>))"
| assign: "L i = Some l \<Longrightarrow> wanted l = Suc n \<Longrightarrow> t < length p \<Longrightarrow> p ! t = Todo \<Longrightarrow>
     cluster_work f d (p, L) (p[t := Held i], L(i \<mapsto> l\<lparr>wanted := n, down := down l @ [(of_nat t, d t)]\<rparr>))"

text \<open>
  Clients come and go: a client joins with all its slots idle and one request to make for each;
  when it leaves, its link is cut and its tasks are to do again.
\<close>

inductive cluster_step :: "(u8 list \<Rightarrow> u8 list) \<Rightarrow> (nat \<Rightarrow> u8 list) \<Rightarrow> cluster \<Rightarrow> cluster \<Rightarrow> bool"
  for f d where
  join: "L i = None \<Longrightarrow> cluster_step f d (p, L) (p, L(i \<mapsto> fresh_link n))"
| works: "cluster_work f d c c' \<Longrightarrow> cluster_step f d c c'"
| leave: "L i = Some l \<Longrightarrow>
     cluster_step f d (p, L) (map (\<lambda>x. if x = Held i then Todo else x) p, L(i := None))"

section \<open>The invariant\<close>

text \<open>The ids of the tasks that a link accounts for: under way, in a slot, or on the way back.\<close>

fun slot_tasks :: "slot \<Rightarrow> u32 list" where
  "slot_tasks Idle = []"
| "slot_tasks (Running x bs) = [x]"
| "slot_tasks (Ready x bs) = [x]"

fun up_tasks :: "up_message \<Rightarrow> u32 list" where
  "up_tasks (Request m) = []"
| "up_tasks (Result x bs) = [x]"

definition outstanding :: "link \<Rightarrow> u32 list" where
  "outstanding l = map fst (down l) @ concat (map slot_tasks (work l)) @ concat (map up_tasks (up l))"

fun slot_ok :: "(nat \<Rightarrow> u8 list) \<Rightarrow> slot \<Rightarrow> bool" where
  "slot_ok d Idle = True"
| "slot_ok d (Running x bs) = (bs = d (unat x))"
| "slot_ok d (Ready x bs) = (bs = d (unat x))"

fun up_ok :: "(u8 list \<Rightarrow> u8 list) \<Rightarrow> (nat \<Rightarrow> u8 list) \<Rightarrow> up_message \<Rightarrow> bool" where
  "up_ok f d (Request m) = True"
| "up_ok f d (Result x bs) = (bs = f (d (unat x)))"

text \<open>
  Every request of a client is somewhere: not yet made, under way, waiting at the server, or
  answered by a task that is under way or in a slot. The tasks that the link accounts for are
  exactly those the server has given to this connection, once each, with the right data.
\<close>

definition balanced :: "link \<Rightarrow> bool" where
  "balanced l \<longleftrightarrow> asking l + length (up l) + wanted l + length (down l) + busy (work l) = length (work l)"

definition holds_out :: "phase list \<Rightarrow> nat \<Rightarrow> link \<Rightarrow> bool" where
  "holds_out p i l \<longleftrightarrow> distinct (outstanding l) \<and>
     (\<forall>x. x \<in> set (outstanding l) \<longleftrightarrow> unat x < length p \<and> p ! unat x = Held i)"

definition contents_ok :: "(u8 list \<Rightarrow> u8 list) \<Rightarrow> (nat \<Rightarrow> u8 list) \<Rightarrow> link \<Rightarrow> bool" where
  "contents_ok f d l \<longleftrightarrow> (\<forall>(x, bs) \<in> set (down l). bs = d (unat x)) \<and>
     (\<forall>s \<in> set (work l). slot_ok d s) \<and> (\<forall>m \<in> set (up l). up_ok f d m)"

definition link_ok :: "(u8 list \<Rightarrow> u8 list) \<Rightarrow> (nat \<Rightarrow> u8 list) \<Rightarrow> phase list \<Rightarrow> nat \<Rightarrow> link \<Rightarrow> bool" where
  "link_ok f d p i l \<longleftrightarrow> balanced l \<and> holds_out p i l \<and> contents_ok f d l"

definition pool_ok :: "(u8 list \<Rightarrow> u8 list) \<Rightarrow> (nat \<Rightarrow> u8 list) \<Rightarrow> phase list \<Rightarrow> bool" where
  "pool_ok f d p \<longleftrightarrow> length p < 2 ^ 32 \<and> (\<forall>t bs. t < length p \<and> p ! t = Done bs \<longrightarrow> bs = f (d t))"

definition cluster_inv :: "(u8 list \<Rightarrow> u8 list) \<Rightarrow> (nat \<Rightarrow> u8 list) \<Rightarrow> cluster \<Rightarrow> bool" where
  "cluster_inv f d c \<longleftrightarrow> pool_ok f d (fst c) \<and>
     (\<forall>i. case snd c i of None \<Rightarrow> Held i \<notin> set (fst c) | Some l \<Rightarrow> link_ok f d (fst c) i l)"

section \<open>Preservation\<close>

lemma cluster_invD:
  assumes "cluster_inv f d (p, L)"
  shows "pool_ok f d p" and "L i = Some l \<Longrightarrow> link_ok f d p i l" and "L i = None \<Longrightarrow> Held i \<notin> set p"
proof -
  have "pool_ok f d p" "\<And>i. case L i of None \<Rightarrow> Held i \<notin> set p | Some l \<Rightarrow> link_ok f d p i l"
    using assms unfolding cluster_inv_def fst_conv snd_conv by blast+
  from this(1) this(2) [of i] show "pool_ok f d p" and "L i = Some l \<Longrightarrow> link_ok f d p i l"
    and "L i = None \<Longrightarrow> Held i \<notin> set p" by auto
qed

lemma cluster_invI:
  assumes "pool_ok f d p" and "\<And>i l. L i = Some l \<Longrightarrow> link_ok f d p i l"
    and "\<And>i. L i = None \<Longrightarrow> Held i \<notin> set p"
  shows "cluster_inv f d (p, L)"
  using assms by (auto simp: cluster_inv_def split: option.splits)

text \<open>A link depends on the pool only through the tasks its connection holds.\<close>

lemma link_ok_pool:
  assumes "link_ok f d p i l" and "length q = length p"
    and "\<And>t. t < length p \<Longrightarrow> q ! t = Held i \<longleftrightarrow> p ! t = Held i"
  shows "link_ok f d q i l"
proof -
  have "(unat x < length q \<and> q ! unat x = Held i) = (unat x < length p \<and> p ! unat x = Held i)" for x :: u32
    using assms(2,3) by auto
  then show ?thesis using assms(1) by (simp add: link_ok_def holds_out_def)
qed

lemma mset_slots_update:
  "k < length ss \<Longrightarrow> mset (concat (map slot_tasks (ss[k := s]))) + mset (slot_tasks (ss ! k)) =
     mset (concat (map slot_tasks ss)) + mset (slot_tasks s)"
proof (induction ss arbitrary: k)
  case (Cons a ss)
  then show ?case by (cases k) (auto simp: union_assoc union_commute add.left_commute)
qed simp

lemma busy_update:
  "k < length ss \<Longrightarrow> busy (ss[k := s]) + (if ss ! k = Idle then 0 else 1) = busy ss + (if s = Idle then 0 else 1)"
  using countp_update [of k ss "\<lambda>s. s \<noteq> Idle" s] by (simp add: busy_def split: if_splits)

text \<open>A client's step keeps the account; only where the tasks are changes.\<close>

lemma link_step_outstanding:
  assumes "link_step f l l'"
  shows "mset (outstanding l') = mset (outstanding l)"
  using assms
proof cases
  case (start x bs ms k)
  have k: "k < length (work l)" "work l ! k = Idle" using start(3) by (auto simp: find_index_Some)
  show ?thesis using mset_slots_update [OF k(1), of "Running x bs"] k(2) start(1,2) by (simp add: outstanding_def)
next
  case (finish k x bs)
  show ?thesis using mset_slots_update [OF finish(2), of "Ready x bs"] finish(1,3) by (simp add: outstanding_def)
next
  case (answer k x bs)
  show ?thesis using mset_slots_update [OF answer(2), of Idle] answer(1,3) by (simp add: outstanding_def)
qed (simp add: outstanding_def)

lemma contents_ok_step:
  assumes step: "link_step f l l'" and ok: "contents_ok f d l"
  shows "contents_ok f d l'"
proof -
  have slots: "slot_ok d (work l ! k)" if "k < length (work l)" for k
    using ok that by (simp add: contents_ok_def)
  have upd: "\<forall>s \<in> set ((work l)[k := s']). slot_ok d s" if "slot_ok d s'" for k s'
    using ok that set_update_subset_insert [of "work l" k s'] by (auto simp: contents_ok_def)
  show ?thesis using step
  proof cases
    case (start x bs ms k)
    then show ?thesis using ok upd [of "Running x bs" k] by (simp add: contents_ok_def)
  next
    case (finish k x bs)
    then show ?thesis using ok slots [of k] upd [of "Ready x bs" k] by (simp add: contents_ok_def)
  next
    case (answer k x bs)
    then show ?thesis using ok slots [of k] upd [of Idle k] by (auto simp: contents_ok_def)
  qed (use ok in \<open>auto simp: contents_ok_def\<close>)
qed

lemma link_step_ok:
  assumes step: "link_step f l l'" and ok: "link_ok f d p i l"
  shows "link_ok f d p i l'"
proof -
  note o = link_step_outstanding [OF step]
  have "distinct (outstanding l')" "set (outstanding l') = set (outstanding l)"
    using ok mset_eq_imp_distinct_iff [OF o] mset_eq_setD [OF o] by (simp_all add: link_ok_def holds_out_def)
  then have "holds_out p i l'" using ok by (simp add: link_ok_def holds_out_def)
  moreover have "balanced l'" using step
  proof cases
    case (start x bs ms k)
    then show ?thesis
      using ok busy_update [of k "work l" "Running x bs"] by (simp add: link_ok_def balanced_def find_index_Some)
  next
    case (finish k x bs)
    then show ?thesis using ok busy_update [of k "work l" "Ready x bs"] by (simp add: link_ok_def balanced_def)
  next
    case (answer k x bs)
    then show ?thesis using ok busy_update [of k "work l" Idle] by (simp add: link_ok_def balanced_def)
  qed (use ok in \<open>simp add: link_ok_def balanced_def\<close>)
  moreover have "contents_ok f d l'"
    using step contents_ok_step ok by (auto simp: link_ok_def)
  ultimately show ?thesis by (simp add: link_ok_def)
qed

text \<open>What the server does with one message of a link, or by giving it a task.\<close>

lemma link_ok_count:
  "link_ok f d p i l \<Longrightarrow> up l = Request m # ms \<Longrightarrow> link_ok f d p i (l\<lparr>up := ms, wanted := Suc (wanted l)\<rparr>)"
  by (simp add: link_ok_def balanced_def holds_out_def contents_ok_def outstanding_def)

lemma link_ok_store:
  assumes ok: "link_ok f d p i l" and up: "up l = Result x bs # ms" and x: "unat x < length p"
  shows "link_ok f d (p[unat x := Done bs]) i (l\<lparr>up := ms, wanted := Suc (wanted l)\<rparr>)"
proof -
  let ?l = "l\<lparr>up := ms, wanted := Suc (wanted l)\<rparr>"
  have eq: "mset (outstanding l) = add_mset x (mset (outstanding ?l))" by (simp add: outstanding_def up)
  have d: "distinct (x # outstanding ?l)"
    using ok mset_eq_imp_distinct_iff [of "outstanding l" "x # outstanding ?l"] eq
    by (simp add: link_ok_def holds_out_def)
  have s: "set (outstanding l) = insert x (set (outstanding ?l))"
    using mset_eq_setD [of "outstanding l" "x # outstanding ?l"] eq by simp
  have "y \<in> set (outstanding ?l) \<longleftrightarrow> unat y < length p \<and> p[unat x := Done bs] ! unat y = Held i" for y
  proof (cases "y = x")
    case True
    then show ?thesis using d x by simp
  next
    case False
    then have "unat y \<noteq> unat x" by (simp add: word_unat_eq_iff)
    then show ?thesis using ok s False by (auto simp: link_ok_def holds_out_def)
  qed
  then have "holds_out (p[unat x := Done bs]) i ?l" using d by (simp add: holds_out_def)
  then show ?thesis using ok up by (simp add: link_ok_def balanced_def contents_ok_def)
qed

lemma link_ok_assign:
  assumes ok: "link_ok f d p i l" and w: "wanted l = Suc n" and t: "t < length p" "p ! t = Todo"
    and small: "length p < 2 ^ 32"
  shows "link_ok f d (p[t := Held i]) i (l\<lparr>wanted := n, down := down l @ [(of_nat t, d t)]\<rparr>)"
proof -
  let ?l = "l\<lparr>wanted := n, down := down l @ [(of_nat t, d t)]\<rparr>" and ?x = "of_nat t :: u32"
  have x: "unat ?x = t" using t small by simp
  have eq: "mset (outstanding ?l) = add_mset ?x (mset (outstanding l))" by (simp add: outstanding_def)
  have new: "?x \<notin> set (outstanding l)" using ok x t by (simp add: link_ok_def holds_out_def)
  have d: "distinct (outstanding ?l)"
    using ok new mset_eq_imp_distinct_iff [of "outstanding ?l" "?x # outstanding l"] eq
    by (simp add: link_ok_def holds_out_def)
  have s: "set (outstanding ?l) = insert ?x (set (outstanding l))"
    using mset_eq_setD [of "outstanding ?l" "?x # outstanding l"] eq by simp
  have "y \<in> set (outstanding ?l) \<longleftrightarrow> unat y < length p \<and> p[t := Held i] ! unat y = Held i" for y
  proof (cases "y = ?x")
    case True
    then show ?thesis using s x t by simp
  next
    case False
    then have "unat y \<noteq> t" using x by (metis word_unat_eq_iff)
    then show ?thesis using ok s False by (auto simp: link_ok_def holds_out_def)
  qed
  then have "holds_out (p[t := Held i]) i ?l" using d by (simp add: holds_out_def)
  then show ?thesis using ok w x by (auto simp: link_ok_def balanced_def contents_ok_def)
qed

lemma link_ok_fresh: "Held i \<notin> set p \<Longrightarrow> link_ok f d p i (fresh_link n)"
  by (auto simp: link_ok_def balanced_def holds_out_def contents_ok_def outstanding_def fresh_link_def busy_def
      in_set_conv_nth)

lemma cluster_work_inv:
  assumes step: "cluster_work f d c c'" and inv: "cluster_inv f d c"
  shows "cluster_inv f d c'"
  using step
proof cases
  case (client L i l l' p)
  note i = cluster_invD [OF inv [unfolded client(1)]]
  show ?thesis unfolding client(2)
    by (rule cluster_invI) (use i link_step_ok [OF client(4)] client(3) in \<open>auto split: if_splits\<close>)
next
  case (count L i l m ms p)
  note i = cluster_invD [OF inv [unfolded count(1)]]
  show ?thesis unfolding count(2)
    by (rule cluster_invI) (use i link_ok_count [OF _ count(4)] count(3) in \<open>auto split: if_splits\<close>)
next
  case (store L i l x bs ms p)
  note i = cluster_invD [OF inv [unfolded store(1)]]
  have "bs = f (d (unat x))" using i(2) [OF store(3)] store(4) by (simp add: link_ok_def contents_ok_def)
  then have "pool_ok f d (p[unat x := Done bs])"
    using i(1) store(5) by (auto simp: pool_ok_def nth_list_update split: if_splits)
  moreover have "link_ok f d (p[unat x := Done bs]) j k" if "L j = Some k" "j \<noteq> i" for j k
    by (rule link_ok_pool [OF i(2) [OF that(1)]]) (use store(5,6) that in \<open>auto simp: nth_list_update\<close>)
  moreover have "Held j \<notin> set (p[unat x := Done bs])" if "L j = None" for j
    using i(3) [OF that] set_update_subset_insert [of p "unat x" "Done bs"] by auto
  ultimately show ?thesis unfolding store(2)
    by (intro cluster_invI) (use link_ok_store [OF i(2) [OF store(3)] store(4,5)] in \<open>auto split: if_splits\<close>)
next
  case (assign L i l n t p)
  note i = cluster_invD [OF inv [unfolded assign(1)]]
  have small: "length p < 2 ^ 32" using i(1) by (simp add: pool_ok_def)
  have "pool_ok f d (p[t := Held i])"
    using i(1) assign(5) by (auto simp: pool_ok_def nth_list_update split: if_splits)
  moreover have "link_ok f d (p[t := Held i]) j k" if "L j = Some k" "j \<noteq> i" for j k
    by (rule link_ok_pool [OF i(2) [OF that(1)]]) (use assign(5,6) that in \<open>auto simp: nth_list_update\<close>)
  moreover have "Held j \<notin> set (p[t := Held i])" if "L j = None" "j \<noteq> i" for j
    using i(3) [OF that(1)] that(2) set_update_subset_insert [of p t "Held i"] by auto
  ultimately show ?thesis unfolding assign(2)
    by (intro cluster_invI) (use link_ok_assign [OF i(2) [OF assign(3)] assign(4-6) small] in \<open>auto split: if_splits\<close>)
qed

lemma cluster_step_inv:
  assumes step: "cluster_step f d c c'" and inv: "cluster_inv f d c"
  shows "cluster_inv f d c'"
  using step
proof cases
  case (join L i p n)
  note i = cluster_invD [OF inv [unfolded join(1)]]
  show ?thesis unfolding join(2)
    by (rule cluster_invI) (use i join(3) link_ok_fresh in \<open>auto split: if_splits\<close>)
next
  case works
  then show ?thesis using cluster_work_inv inv by blast
next
  case (leave L i l p)
  note i = cluster_invD [OF inv [unfolded leave(1)]]
  let ?q = "map (\<lambda>x. if x = Held i then Todo else x) p"
  have "pool_ok f d ?q" using i(1) by (auto simp: pool_ok_def split: if_splits)
  moreover have "link_ok f d ?q j k" if "L j = Some k" "j \<noteq> i" for j k
    by (rule link_ok_pool [OF i(2) [OF that(1)]]) (use that in auto)
  moreover have "Held j \<notin> set ?q" if "L j = None \<or> j = i" for j
    using i(3) [of j] that by auto
  ultimately show ?thesis unfolding leave(2)
    by (intro cluster_invI) (auto split: if_splits)
qed

section \<open>What the invariant excludes\<close>

text \<open>
  A task under way finds an idle slot, a result under way belongs to a task its connection
  holds, and a connection that waits for a task holds fewer tasks than its client has slots.
\<close>

lemma link_ok_idle:
  assumes "link_ok f d p i l" and "down l = m # ms"
  shows "\<exists>k. find_index (\<lambda>s. s = Idle) (work l) = Some k"
proof -
  have "busy (work l) \<noteq> length (work l)" using assms by (simp add: link_ok_def balanced_def)
  then have "find_index (\<lambda>s. s = Idle) (work l) \<noteq> None"
    by (auto simp: busy_def find_index_None countp_all_iff)
  then show ?thesis by auto
qed

lemma link_ok_result:
  "link_ok f d p i l \<Longrightarrow> up l = Result x bs # ms \<Longrightarrow>
   unat x < length p \<and> p ! unat x = Held i \<and> bs = f (d (unat x))"
  by (auto simp: link_ok_def holds_out_def contents_ok_def outstanding_def)

lemma length_slot_tasks: "length (concat (map slot_tasks ss)) = busy ss"
proof -
  have "length (slot_tasks s) = (if s = Idle then 0 else 1)" for s by (cases s) auto
  then show ?thesis by (induction ss) (auto simp: busy_def)
qed

lemma length_up_tasks: "length (concat (map up_tasks ms)) \<le> length ms"
proof (induction ms)
  case (Cons m ms)
  then show ?case by (cases m) auto
qed simp

lemma link_ok_held:
  assumes ok: "link_ok f d p i l" and small: "length p < 2 ^ 32"
  shows "countp (\<lambda>x. x = Held i) p + wanted l \<le> length (work l)"
proof -
  have "{t. t < length p \<and> p ! t = Held i} = unat ` set (outstanding l)"
  proof (intro set_eqI iffI)
    fix t assume "t \<in> {t. t < length p \<and> p ! t = Held i}"
    then have t: "t < length p" "p ! t = Held i" by auto
    then have "unat (of_nat t :: u32) = t" using small by simp
    moreover have "(of_nat t :: u32) \<in> set (outstanding l)"
      using ok t calculation by (simp add: link_ok_def holds_out_def)
    ultimately show "t \<in> unat ` set (outstanding l)" by (metis imageI)
  qed (use ok in \<open>auto simp: link_ok_def holds_out_def\<close>)
  moreover have "countp (\<lambda>x. x = Held i) p = card {t. t < length p \<and> p ! t = Held i}"
    by (simp add: countp_def length_filter_conv_card)
  moreover have "card (unat ` set (outstanding l)) \<le> length (outstanding l)"
    by (meson card_image_le card_length finite_set le_trans)
  moreover have "length (outstanding l) \<le> length (down l) + busy (work l) + length (up l)"
    using length_up_tasks [of "up l"] by (simp add: outstanding_def length_slot_tasks)
  ultimately show ?thesis using ok by (simp add: link_ok_def balanced_def)
qed

end
