(* ===== verification/ServerEnd.thy ===== *)
theory ServerEnd
  imports ServerStream ServerSend
begin

text \<open>
  The server as one party of the cluster: what the bytes that arrive on a connection, a task
  that is sent, a client that joins and a client that leaves do to the task pool and to the
  table of connections. Of a connection the other party can only tell how many tasks it still
  waits for and which bytes of a message have been read.
\<close>

definition conn_view :: "server \<Rightarrow> nat \<Rightarrow> (nat \<times> u8 list) option" where
  "conn_view h i = (if i < length (client_conns h) \<and> socket_fd (conn h i) \<noteq> -1
     then Some (unat (requested_tasks (conn h i)), buffered h i) else None)"

definition conn_socket :: "server \<Rightarrow> nat \<Rightarrow> int" where
  "conn_socket h i = socket_fd (conn h i)"

text \<open>The server went from \<open>h\<close> to \<open>h'\<close>, with the pool \<open>p\<close> and the connections \<open>V\<close> afterwards.\<close>

definition server_moves :: "server \<Rightarrow> server \<Rightarrow> phase list \<Rightarrow> (nat \<Rightarrow> (nat \<times> u8 list) option) \<Rightarrow> bool" where
  "server_moves h h' p V \<longleftrightarrow> server_inv h' \<and> caller h' = caller h \<and> pool h' = p \<and> conn_view h' = V"

definition server_sizes :: "server \<Rightarrow> size_t \<times> size_t" where
  "server_sizes h = (task_size h, ret_size h)"

definition server_task_size :: "server \<Rightarrow> nat" where
  "server_task_size h = unat (task_size h)"

lemma server_moves_caller:
  assumes "server_moves h h' p V"
  shows "server_sizes h' = server_sizes h" and "message_size h' = message_size h" and "task_bytes h' = task_bytes h"
    and "length (pool h') = length (pool h)"
  using assms by (auto simp: server_moves_def server_sizes_def caller_def message_size_def task_bytes_def fun_eq_iff)

lemma conn_view_Some:
  "conn_view h i = Some (n, xs) \<longleftrightarrow> i < length (client_conns h) \<and> socket_fd (conn h i) \<noteq> -1 \<and>
     n = unat (requested_tasks (conn h i)) \<and> xs = buffered h i"
  by (auto simp: conn_view_def)

lemma conn_view_set_conn:
  assumes "i < length (client_conns h)"
  shows "conn_view (set_conn i f h) = (conn_view h)(i := if socket_fd (f (conn h i)) \<noteq> -1
    then Some (unat (requested_tasks (f (conn h i))),
      take (unat (bytes_recieved (f (conn h i)))) (recv_buffer (f (conn h i)))) else None)"
  using assms by (auto simp: fun_eq_iff conn_view_def conn_set_conn buffered_def)

lemma conn_view_cong:
  "length (client_conns h') = length (client_conns h) \<Longrightarrow>
   (\<And>k. k < length (client_conns h) \<Longrightarrow> requested_tasks (conn h' k) = requested_tasks (conn h k) \<and>
      socket_fd (conn h' k) = socket_fd (conn h k) \<and> bytes_recieved (conn h' k) = bytes_recieved (conn h k) \<and>
      recv_buffer (conn h' k) = recv_buffer (conn h k)) \<Longrightarrow>
   conn_view h' = conn_view h"
  by (auto simp: fun_eq_iff conn_view_def buffered_def)

lemma server_inv_table: "server_inv h \<longleftrightarrow> table_inv (length (client_conns h)) h h"
  by (simp add: table_inv_def)

lemma server_inv_core: "server_inv h \<Longrightarrow> core_inv h"
  by (simp add: server_inv_def)

section \<open>Reading\<close>

text \<open>A kernel that lets the server change what it watches.\<close>

definition watches :: "env \<Rightarrow> bool" where
  "watches E \<longleftrightarrow> (\<forall>tr ep op fd. r_ret (sys E tr (EpollCtl ep op fd)) \<noteq> -1)"

lemma receive_decomposed:
  "receive_on_connection E (conn_socket (hnd w) i) i w =
   (case read_data_on_connection E i \<lparr>cmd = fit sizeof_header (junk E (trace w) sizeof_header) ! 0,
        task_id = u32_of_mem (host E) (slice 1 4 (fit sizeof_header (junk E (trace w) sizeof_header)))\<rparr> w of
      None \<Rightarrow> None | Some (Inl e, w') \<Rightarrow> Some (Inl e, w') | Some (Inr hdr, w') \<Rightarrow> handle_request E i hdr w')"
  by (simp add: receive_on_connection_def conn_socket_def bind_def get_def uninitialised_header_def
      uninitialised_def return_def split: option.split sum.split)

lemma server_reads:
  assumes inv: "server_inv (hnd w)" and v: "conn_view (hnd w) i = Some (n, xs)"
    and r: "delivers (sys E (trace w) (recv_call (hnd w) i)) bs" "bs \<noteq> []"
    and fits: "length (xs @ bs) \<le> message_size (hnd w)"
  shows "\<exists>hdr0 hdr w1. receive_on_connection E (conn_socket (hnd w) i) i w = handle_request E i hdr w1 \<and>
    (if length (xs @ bs) < message_size (hnd w)
     then hdr = hdr0\<lparr>cmd := ERR_NOT_READY\<rparr> \<and>
       server_moves (hnd w) (hnd w1) (pool (hnd w)) ((conn_view (hnd w))(i \<mapsto> (n, xs @ bs)))
     else hdr = parse_header (host E) (xs @ bs) \<and> payload (hnd w1) i = drop sizeof_header (xs @ bs) \<and>
       server_moves (hnd w) (hnd w1) (pool (hnd w)) ((conn_view (hnd w))(i \<mapsto> (n, []))))"
proof -
  let ?h = "hnd w"
  have i: "i < length (client_conns ?h)" "socket_fd (conn ?h i) \<noteq> -1"
    and n: "n = unat (requested_tasks (conn ?h i))" and xs: "xs = buffered ?h i"
    using v by (simp_all add: conn_view_Some)
  define hdr0 where "hdr0 = \<lparr>cmd = fit sizeof_header (junk E (trace w) sizeof_header) ! 0,
    task_id = u32_of_mem (host E) (slice 1 4 (fit sizeof_header (junk E (trace w) sizeof_header)))\<rparr>"
  obtain hdr w1 buf m where w1: "read_data_on_connection E i hdr0 w = Some (Inr hdr, w1)"
    and ref: "hnd w1 = refill i buf m ?h" "length buf = message_size ?h" "unat m < message_size ?h"
    and res: "if length (xs @ bs) < message_size ?h
      then hdr = hdr0\<lparr>cmd := ERR_NOT_READY\<rparr> \<and> buffered (hnd w1) i = xs @ bs
      else hdr = parse_header (host E) (xs @ bs) \<and> buffered (hnd w1) i = [] \<and>
        payload (hnd w1) i = drop sizeof_header (xs @ bs)"
    using read_data_appends [OF server_inv_core [OF inv] i(1) r fits [unfolded xs], of hdr0] unfolding xs by blast
  have "server_inv (hnd w1)"
    using table_inv_refill [OF inv [unfolded server_inv_table] i(1)] ref by (simp add: table_inv_def message_size_def)
  moreover have "conn_view (hnd w1) = (conn_view ?h)(i \<mapsto> (n, buffered (hnd w1) i))"
    using i ref(1) n by (simp add: refill_def conn_view_set_conn buffered_def conn_set_conn)
  ultimately have "server_moves ?h (hnd w1) (pool ?h) ((conn_view ?h)(i \<mapsto> (n, buffered (hnd w1) i)))"
    using i(1) ref(1) by (simp add: server_moves_def) (simp add: refill_def)
  moreover have "receive_on_connection E (conn_socket ?h i) i w = handle_request E i hdr w1"
    unfolding receive_decomposed hdr0_def [symmetric] w1 by simp
  ultimately show ?thesis using res by (intro exI [of _ hdr0] exI [of _ hdr] exI [of _ w1]) (auto split: if_splits)
qed

section \<open>Handling a message\<close>

lemma enable_write_ok:
  "watches E \<Longrightarrow> wpg False (enable_write E i) (\<lambda>_ w'. hnd w' = hnd w) (\<lambda>_ _. False) w"
  by (simp add: enable_write_def update_connection_management_def wp watches_def answers_def)

text \<open>The connection waits for one more task.\<close>

definition counted :: "nat \<Rightarrow> server \<Rightarrow> server" where
  "counted i = set_conn i (\<lambda>c. c\<lparr>requested_tasks := requested_tasks c + 1\<rparr>)"

lemma counted_moves:
  assumes inv: "server_inv h" and v: "conn_view h i = Some (n, xs)" and small: "Suc n < 2 ^ 64"
  shows "server_moves h (counted i h) (pool h) ((conn_view h)(i \<mapsto> (Suc n, xs)))"
proof -
  have i: "i < length (client_conns h)" "socket_fd (conn h i) \<noteq> -1"
    and n: "n = unat (requested_tasks (conn h i))" and xs: "xs = buffered h i"
    using v by (simp_all add: conn_view_Some)
  have "server_inv (counted i h)"
    using table_inv_count_request [OF inv [unfolded server_inv_table] i(1)] by (simp add: counted_def table_inv_def)
  moreover have "unat (requested_tasks (conn h i) + 1) = Suc n"
    using small n by (subst unat_plus_1) simp_all
  ultimately show ?thesis
    using i xs by (simp add: server_moves_def counted_def conn_view_set_conn buffered_def pool_set_conn)
qed

lemma handles_request:
  assumes "watches E"
  shows "\<exists>w'. handle_request E i \<lparr>cmd = CMD_REQUEST_FOR_DATA, task_id = x\<rparr> w = Some (Inr (), w') \<and>
    hnd w' = counted i (hnd w)"
proof -
  have "wpg False (handle_request E i \<lparr>cmd = CMD_REQUEST_FOR_DATA, task_id = x\<rparr>)
      (\<lambda>_ w'. hnd w' = counted i (hnd w)) (\<lambda>_ _. False) w"
    by (simp add: handle_request_def count_request_def wp)
      (rule wpg_mono [OF enable_write_ok [OF assms]], simp_all add: counted_def)
  then show ?thesis by (auto dest!: wpg_outcome)
qed

lemma handles_result:
  assumes k: "watches E" and inv: "server_inv (hnd w)" and v: "conn_view (hnd w) i = Some (n, xs)"
    and x: "unat x < length (pool (hnd w))" "pool (hnd w) ! unat x = Held i" and small: "Suc n < 2 ^ 64"
  shows "\<exists>w'. handle_request E i \<lparr>cmd = CMD_RESULT, task_id = x\<rparr> w = Some (Inr (), w') \<and>
    server_moves (hnd w) (hnd w') ((pool (hnd w))[unat x := Done (payload (hnd w) i)])
      ((conn_view (hnd w))(i \<mapsto> (Suc n, xs)))"
proof -
  let ?h = "hnd w" let ?hdr = "\<lparr>cmd = CMD_RESULT, task_id = x\<rparr>"
  have core: "core_inv ?h" and i: "i < length (client_conns ?h)"
    using inv v by (simp_all add: server_inv_def conn_view_Some)
  have t: "unat x < unat (num_tasks ?h)" using x(1) by simp
  note len = core_inv_length_task_list [OF core i]
  obtain j where h: "holds (cells ?h) i j (of_nat (unat x))"
    using x(2) t phase_held_iff [OF core t] by auto
  then have "j < MAX_TASKS_PER_CLIENT" "task_list (conn ?h i) ! j = x" using i len by (auto simp: holds_def)
  then obtain j' where j': "find_index (\<lambda>t. t = x) (take MAX_TASKS_PER_CLIENT (task_list (conn ?h i))) = Some j'"
    using len find_index_None [of "\<lambda>t. t = x" "task_list (conn ?h i)"]
    by (cases "find_index (\<lambda>t. t = x) (task_list (conn ?h i))") auto
  then have cell: "j' < MAX_TASKS_PER_CLIENT" "task_list (conn ?h i) ! j' = x" using len by (auto simp: find_index_Some)
  let ?h1 = "complete_task i j' (unat x) ?h"
  have "wpg False (handle_request E i ?hdr) (\<lambda>_ w'. hnd w' = counted i ?h1) (\<lambda>_ _. False) w"
    using t j' by (simp add: handle_request_def count_request_def wp wpg_push_return_value [OF core i] Let_def cmd_defs)
      (rule wpg_mono [OF enable_write_ok [OF k]], simp_all add: counted_def)
  then obtain w' where w': "handle_request E i ?hdr w = Some (Inr (), w')" "hnd w' = counted i ?h1"
    by (auto dest!: wpg_outcome)
  have inv1: "server_inv ?h1"
    using table_inv_complete_task [OF inv [unfolded server_inv_table] i t cell] by (simp add: table_inv_def)
  have v1: "conn_view ?h1 = conn_view ?h" by (rule conn_view_cong) (simp_all add: conn_complete_task i)
  have "server_moves ?h1 (hnd w') (pool ?h1) ((conn_view ?h1)(i \<mapsto> (Suc n, xs)))"
    unfolding w'(2) by (rule counted_moves [OF inv1 _ small]) (simp add: v1 v)
  then show ?thesis
    using w'(1) pool_complete_task(1) [OF core i t cell] by (simp add: server_moves_def v1)
qed

section \<open>Giving out a task, and the table of connections\<close>

lemma conn_task_sent:
  assumes "i < length (client_conns h)" and "k < length (client_conns h)"
  shows "conn (task_sent i (start_sending i j h)) k = (if k = i then (conn h i)\<lparr>
     task_list := (task_list (conn h i))[j := of_nat (next_task h)], now_sending_task_i := -1,
     requested_tasks := requested_tasks (conn h i) - 1\<rparr> else conn h k)"
  using assms by (simp add: task_sent_def start_sending_def conn_set_conn conn_assign_task)

lemma sends_task:
  assumes k: "takes_all E" and inv: "server_inv (hnd w)" and v: "conn_view (hnd w) i = Some (Suc n, xs)"
    and more: "num_not_resolved (hnd w) \<noteq> 0" and room: "0 < room (hnd w) i"
    and size: "server_task_size (hnd w) < 251"
  shows "\<exists>w' t. send_round E i w = Some (Inr None, w') \<and> t < length (pool (hnd w)) \<and> pool (hnd w) ! t = Todo \<and>
    server_moves (hnd w) (hnd w') ((pool (hnd w))[t := Held i]) ((conn_view (hnd w))(i \<mapsto> (n, xs))) \<and>
    sent_on (conn_socket (hnd w) i) (trace w') = sent_on (conn_socket (hnd w) i) (trace w) @ [task_message (hnd w) t]"
proof -
  let ?h = "hnd w" let ?t = "next_task ?h"
  have i: "i < length (client_conns ?h)" "socket_fd (conn ?h i) \<noteq> -1"
    and n: "Suc n = unat (requested_tasks (conn ?h i))" and xs: "xs = buffered ?h i"
    using v by (simp_all add: conn_view_Some)
  have req: "requested_tasks (conn ?h i) \<noteq> 0" using n by auto
  have core: "core_inv ?h" by (rule server_inv_core [OF inv])
  have t: "?t < unat (num_tasks ?h)" "statuses ?h ! ?t = NOT_RESOLVED"
    using next_task_cases [OF core] next_task_runs_out [OF core] more by auto
  obtain w' j where w': "send_round E i w = Some (Inr None, w')" "table_inv (length (client_conns ?h)) ?h (hnd w')"
    "pool (hnd w') = (pool ?h)[?t := Held i]" "hnd w' = task_sent i (start_sending i j ?h)"
    "sent_on (conn_socket ?h i) (trace w') = sent_on (conn_socket ?h i) (trace w) @ [task_message ?h ?t]"
    using send_round_obliged [OF k inv [unfolded server_inv_table] i(1) refl i(2) req more room size [unfolded server_task_size_def]]
    unfolding conn_socket_def by blast
  have len: "length (client_conns (hnd w')) = length (client_conns ?h)" using w'(2) by (simp add: table_inv_def)
  have "unat (requested_tasks (conn ?h i) - 1) = n" using unat_minus_1 [OF req] n by simp
  then have "conn_view (hnd w') k = ((conn_view ?h)(i \<mapsto> (n, xs))) k" for k
    using conn_task_sent [OF i(1), of k j] i xs len by (auto simp: conn_view_def buffered_def w'(4))
  then have "conn_view (hnd w') = (conn_view ?h)(i \<mapsto> (n, xs))" by blast
  moreover have "server_inv (hnd w')" "caller (hnd w') = caller ?h"
    using w'(2) by (simp_all add: table_inv_def evolved_def)
  ultimately have "server_moves ?h (hnd w') ((pool ?h)[?t := Held i]) ((conn_view ?h)(i \<mapsto> (n, xs)))"
    using w'(3) by (simp add: server_moves_def)
  moreover have "pool ?h ! ?t = Todo" using t by (simp add: phase_def)
  ultimately show ?thesis using w'(1,5) t(1) by (intro exI [of _ w'] exI [of _ ?t]) simp
qed

text \<open>A round that goes on has sent something: there was a request, a task, and a cell for it.\<close>

lemma send_round_returns:
  assumes inv: "server_inv (hnd w)" and v: "conn_view (hnd w) i = Some (n, xs)"
    and run: "send_round E i w = Some (Inr None, w')"
  shows "n \<noteq> 0" and "num_not_resolved (hnd w) \<noteq> 0" and "0 < room (hnd w) i"
proof -
  let ?h = "hnd w"
  have i: "i < length (client_conns ?h)" "socket_fd (conn ?h i) \<noteq> -1" "n = unat (requested_tasks (conn ?h i))"
    using v by (simp_all add: conn_view_Some)
  have core: "core_inv ?h" by (rule server_inv_core [OF inv])
  have now: "now_sending_task_i (conn ?h i) = -1" using inv i by (auto simp: server_inv_def quiet_def)
  show req: "n \<noteq> 0"
  proof
    assume "n = 0"
    then have "send_round E i w = Some (Inr (Some ()), w)"
      using i(3) by (simp add: send_round_def bind_def get_def return_def unat_eq_0)
    then show False using run by simp
  qed
  then have req: "requested_tasks (conn ?h i) \<noteq> 0" using i(3) by auto
  have stop: False if fails: "wpg False (pick_task E i) (\<lambda>_ _. False) (\<lambda>_ _. True) w"
  proof -
    obtain e w1 where "pick_task E i w = Some (Inl e, w1)"
      using wpg_stopped [OF fails] by auto
    then show False using run req by (simp add: send_round_def bind_def get_def andthen_def)
  qed
  show more: "num_not_resolved ?h \<noteq> 0"
    using stop by (auto simp: wpg_pick_task [OF core] now Let_def)
  show "0 < room ?h i"
  proof (rule ccontr)
    assume "\<not> 0 < room ?h i"
    then have "find_index (\<lambda>t. t = -1) (take MAX_TASKS_PER_CLIENT (task_list (conn ?h i))) = None"
      using core_inv_length_task_list [OF core i(1)] by (simp add: room_def find_index_None countp_zero_iff)
    then show False using stop more by (simp add: wpg_pick_task [OF core] now Let_def)
  qed
qed

text \<open>The cells of a task list that are taken are the tasks the connection holds.\<close>

lemma room_held:
  assumes inv: "core_inv h" and i: "i < length (client_conns h)"
  shows "room h i + countp (\<lambda>p. p = Held i) (pool h) = MAX_TASKS_PER_CLIENT"
proof -
  let ?tl = "task_list (conn h i)" and ?n = "unat (num_tasks h)"
  note len = core_inv_length_task_list [OF inv i]
  have ok: "cells_ok (statuses h) (cells h)" using inv by (simp add: core_inv_def)
  have hold: "holds (cells h) i j x \<longleftrightarrow> j < MAX_TASKS_PER_CLIENT \<and> ?tl ! j = x \<and> x \<noteq> -1" for j x
    using i len by (auto simp: holds_def)
  have bij: "bij_betw (\<lambda>j. unat (?tl ! j)) {j. j < length ?tl \<and> ?tl ! j \<noteq> -1} {t. t < ?n \<and> pool h ! t = Held i}"
  proof (rule bij_betw_imageI)
    show "inj_on (\<lambda>j. unat (?tl ! j)) {j. j < length ?tl \<and> ?tl ! j \<noteq> -1}"
    proof (rule inj_onI)
      fix a b assume ab: "a \<in> {j. j < length ?tl \<and> ?tl ! j \<noteq> -1}" "b \<in> {j. j < length ?tl \<and> ?tl ! j \<noteq> -1}"
        "unat (?tl ! a) = unat (?tl ! b)"
      then have "holds (cells h) i a (?tl ! a)" "holds (cells h) i b (?tl ! a)"
        using len by (auto simp: hold word_unat_eq_iff)
      then show "a = b" using ok unfolding cells_ok_def by blast
    qed
    show "(\<lambda>j. unat (?tl ! j)) ` {j. j < length ?tl \<and> ?tl ! j \<noteq> -1} = {t. t < ?n \<and> pool h ! t = Held i}"
    proof (intro set_eqI iffI)
      fix t assume "t \<in> (\<lambda>j. unat (?tl ! j)) ` {j. j < length ?tl \<and> ?tl ! j \<noteq> -1}"
      then obtain j where j: "j < length ?tl" "?tl ! j \<noteq> -1" "t = unat (?tl ! j)" by auto
      then have h: "holds (cells h) i j (?tl ! j)" using len by (simp add: hold)
      then have "unat (?tl ! j) < length (statuses h)" using ok unfolding cells_ok_def by blast
      then have "t < ?n" using core_inv_tasks [OF inv] j(3) by simp
      then show "t \<in> {t. t < ?n \<and> pool h ! t = Held i}" using phase_held [OF inv] h j(3) by simp
    next
      fix t assume "t \<in> {t. t < ?n \<and> pool h ! t = Held i}"
      then have t: "t < ?n" "phase h t = Held i" by auto
      then obtain j where j: "holds (cells h) i j (of_nat t)" using phase_held_iff [OF inv t(1)] by auto
      then have "?tl ! j = of_nat t" "j < length ?tl" "?tl ! j \<noteq> -1" using len by (auto simp: hold)
      then show "t \<in> (\<lambda>j. unat (?tl ! j)) ` {j. j < length ?tl \<and> ?tl ! j \<noteq> -1}"
        using assign_task_cell(2) [OF inv t(1)] by (intro image_eqI [of _ _ j]) simp_all
    qed
  qed
  have "countp (\<lambda>p. p = Held i) (pool h) = card {t. t < ?n \<and> pool h ! t = Held i}"
    by (simp add: countp_def length_filter_conv_card)
  also have "\<dots> = countp (\<lambda>t. t \<noteq> -1) ?tl"
    using bij_betw_same_card [OF bij] by (simp add: countp_def length_filter_conv_card)
  moreover have "countp (\<lambda>t. t = -1) ts + countp (\<lambda>t. t \<noteq> -1) ts = length ts" for ts :: "u32 list"
    by (induction ts) auto
  ultimately show ?thesis using len by (simp add: room_def)
qed

lemma length_task_bytes_pool:
  "server_inv h \<Longrightarrow> t < length (pool h) \<Longrightarrow> length (task_bytes h t) = server_task_size h"
  using length_task_bytes [OF server_inv_core] by (simp add: server_task_size_def)

lemma client_joins:
  assumes inv: "server_inv (hnd w)" and acc: "accept_incoming_connection_request E w = Some (Inr 0, w')"
  shows "\<exists>i. find_index (\<lambda>c. socket_fd c = -1) (client_conns (hnd w)) = Some i \<and> conn_view (hnd w) i = None \<and>
    server_moves (hnd w) (hnd w') (pool (hnd w)) ((conn_view (hnd w))(i \<mapsto> (0, [])))"
proof -
  let ?h = "hnd w"
  have a: "accepted ?h 0 (hnd w')" by (rule wpg_returns [OF wpg_accept [OF server_inv_core [OF inv]] acc])
  then obtain fd i where f: "fd \<noteq> -1" "find_index (\<lambda>c. socket_fd c = -1) (client_conns ?h) = Some i"
    "hnd w' = add_connection fd i ?h" by (auto simp: accepted_def)
  have i: "i < length (client_conns ?h)" "socket_fd (conn ?h i) = -1"
    using f(2) by (auto simp: find_index_Some conn_def)
  have "table_inv (length (client_conns ?h)) ?h (hnd w')"
    by (rule table_inv_accepted [OF inv [unfolded server_inv_table] a])
  moreover have "pool (hnd w') = pool ?h"
    unfolding f(3) by (rule pool_frame) (simp_all add: add_connection_def cells_set_conn_same i open_connection_def)
  moreover have "conn_view (h\<lparr>num_clients := x\<rparr>) = conn_view h" for h x
    by (rule conn_view_cong) (simp_all add: conn_def)
  then have "conn_view (hnd w') = (conn_view ?h)(i \<mapsto> (0, []))"
    unfolding f(3) add_connection_def using i f(1) by (simp add: conn_view_set_conn open_connection_def)
  ultimately show ?thesis
    using f(2) i by (auto simp: server_moves_def table_inv_def evolved_def conn_view_def)
qed

lemma client_leaves:
  assumes inv: "server_inv (hnd w)" and v: "conn_view (hnd w) i = Some (n, xs)"
    and gone: "hangup_connection E (conn_socket (hnd w) i) i w = Some (Inr (), w')"
  shows "server_moves (hnd w) (hnd w') (map (\<lambda>p. if p = Held i then Todo else p) (pool (hnd w))) ((conn_view (hnd w))(i := None))"
proof -
  let ?h = "hnd w" let ?h1 = "remove_connection i (drop_tasks i ?h)"
  have i: "i < length (client_conns ?h)" "socket_fd (conn ?h i) \<noteq> -1" using v by (simp_all add: conn_view_Some)
  have core: "core_inv ?h" by (rule server_inv_core [OF inv])
  have "wpg True (hangup_connection E (conn_socket ?h i) i) (\<lambda>_ w'. hnd w' = ?h1) (\<lambda>_ _. True) w"
    by (auto simp: hangup_connection_def wp conn_socket_def intro!: wpg_lose_connection [OF core i(1)])
  from wpg_returns [OF this gone] have w': "hnd w' = ?h1" .
  have inv1: "table_inv (length (client_conns ?h)) ?h ?h1"
    by (rule table_inv_lose [OF inv [unfolded server_inv_table] i])
  have frame: "pool (h\<lparr>num_clients := x\<rparr>) = pool h" for h x
    by (rule pool_frame) (simp_all add: statuses_def cells_def)
  have "pool ?h1 = pool (drop_tasks i ?h)"
    using drop_tasks_effect [OF core i(1)] i by (simp add: remove_connection_def pool_set_conn frame)
  moreover note pool_drop_tasks(1) [OF core i(1)]
  moreover have "conn_view ?h1 k = ((conn_view ?h)(i := None)) k" for k
    using drop_and_delete [OF core i] by (auto simp: conn_view_def buffered_def)
  then have "conn_view ?h1 = (conn_view ?h)(i := None)" by blast
  ultimately show ?thesis using inv1 by (simp add: server_moves_def table_inv_def evolved_def w')
qed

end
