(* ===== verification/ClientEnd.thy ===== *)
theory ClientEnd
  imports ClientStream ClientSend ClientRun ClientBatch
begin

text \<open>
  A client as one party of the cluster: what the bytes that arrive, a computation that ends, a
  result and a request that are sent do to its slots.
\<close>

text \<open>The client went from \<open>h\<close> to \<open>h'\<close>, with the view \<open>v\<close> and the bytes \<open>xs\<close> of a message read.\<close>

definition client_moves :: "client \<Rightarrow> client \<Rightarrow> nat \<times> slot list \<Rightarrow> u8 list \<Rightarrow> bool" where
  "client_moves h h' v xs \<longleftrightarrow> client_inv h' \<and> settings h' = settings h \<and>
     socket_fd (server_conn h') = socket_fd (server_conn h) \<and> view h' = v \<and> client_buffered h' = xs"

definition server_socket :: "client \<Rightarrow> int" where
  "server_socket h = socket_fd (server_conn h)"

definition client_sizes :: "client \<Rightarrow> size_t \<times> size_t" where
  "client_sizes h = (task_size h, ret_size h)"

lemma client_moves_settings:
  assumes "client_moves h h' v xs"
  shows "client_sizes h' = client_sizes h" and "max_threads h' = max_threads h"
    and "computed h' = computed h" and "small_sizes h' = small_sizes h" and "server_socket h' = server_socket h"
    and "task_message_size h' = task_message_size h"
  using assms by (auto simp: client_moves_def settings_def computed_def small_sizes_def server_socket_def
      client_sizes_def task_message_size_def fun_eq_iff)

lemma length_work: "client_inv h \<Longrightarrow> length (slots h) = unat (max_threads h)"
  by (simp add: client_inv_parts(1))

lemma nth_view:
  assumes "client_inv h" and "k < length (slots h)"
  shows "slots h ! k = Running x bs \<Longrightarrow> running (thread h k) \<and> x = thread_task (thread h k) \<and> bs = data_of h (thread h k)"
    and "slots h ! k = Ready x bs \<Longrightarrow> waiting_to_be_sent (thread h k) \<and> x = thread_task (thread h k) \<and> bs = data_of h (thread h k)"
  using assms by (auto simp: nth_slots slot_def running_def split: if_splits)

section \<open>Reading\<close>

lemma receive_from_server_decomposed:
  "receive_from_server E w =
   (case client_read_data E \<lparr>cmd = fit sizeof_header (junk E (trace w) sizeof_header) ! 0,
        task_id = u32_of_mem (host E) (slice 1 4 (fit sizeof_header (junk E (trace w) sizeof_header)))\<rparr> w of
      None \<Rightarrow> None | Some (Inl e, w') \<Rightarrow> Some (Inl e, w') | Some (Inr hdr, w') \<Rightarrow> handle_command E hdr w')"
  by (simp add: receive_from_server_def bind_def uninitialised_header_def uninitialised_def return_def
      split: option.split sum.split)

lemma client_receives:
  assumes inv: "client_inv (hnd w)"
    and r: "\<And>n. delivers (sys E (trace w) (Recv (server_socket (hnd w)) n 0)) bs" "bs \<noteq> []"
    and fits: "length (client_buffered (hnd w) @ bs) \<le> task_message_size (hnd w)"
  shows "\<exists>hdr0 hdr w1. receive_from_server E w = handle_command E hdr w1 \<and>
    (if length (client_buffered (hnd w) @ bs) < task_message_size (hnd w)
     then hdr = hdr0\<lparr>cmd := ERR_NOT_READY\<rparr> \<and>
       client_moves (hnd w) (hnd w1) (view (hnd w)) (client_buffered (hnd w) @ bs)
     else hdr = parse_header (host E) (client_buffered (hnd w) @ bs) \<and>
       received_task (hnd w1) = drop sizeof_header (client_buffered (hnd w) @ bs) \<and>
       client_moves (hnd w) (hnd w1) (view (hnd w)) [])"
proof -
  define hdr0 where "hdr0 = \<lparr>cmd = fit sizeof_header (junk E (trace w) sizeof_header) ! 0,
    task_id = u32_of_mem (host E) (slice 1 4 (fit sizeof_header (junk E (trace w) sizeof_header)))\<rparr>"
  obtain hdr w1 buf m where w1: "client_read_data E hdr0 w = Some (Inr hdr, w1)" "client_inv (hnd w1)"
    "hnd w1 = client_refill buf m (hnd w)"
    and res: "if length (client_buffered (hnd w) @ bs) < task_message_size (hnd w)
      then hdr = hdr0\<lparr>cmd := ERR_NOT_READY\<rparr> \<and> client_buffered (hnd w1) = client_buffered (hnd w) @ bs
      else hdr = parse_header (host E) (client_buffered (hnd w) @ bs) \<and> client_buffered (hnd w1) = [] \<and>
        received_task (hnd w1) = drop sizeof_header (client_buffered (hnd w) @ bs)"
    using client_read_appends [OF inv r(1) [unfolded server_socket_def] r(2) fits, of hdr0] by blast
  have "client_moves (hnd w) (hnd w1) (view (hnd w)) (client_buffered (hnd w1))"
    using w1(2) by (simp add: client_moves_def w1(3))
  moreover have "receive_from_server E w = handle_command E hdr w1"
    unfolding receive_from_server_decomposed hdr0_def [symmetric] w1(1) by simp
  ultimately show ?thesis using res by (intro exI [of _ hdr0] exI [of _ hdr] exI [of _ w1]) (auto split: if_splits)
qed

lemma starts_task:
  assumes k: "spawns E" and inv: "client_inv (hnd w)"
    and free: "find_index (\<lambda>s. s = Idle) (slots (hnd w)) = Some i"
  shows "\<exists>w'. handle_command E \<lparr>cmd = CMD_TASK, task_id = x\<rparr> w = Some (Inr None, w') \<and>
    client_moves (hnd w) (hnd w')
      (fst (view (hnd w)), (slots (hnd w))[i := Running x (received_task (hnd w))]) (client_buffered (hnd w))"
proof -
  have f: "find_index empty (thread_manager (hnd w)) = Some i" using free by (simp add: find_idle)
  then have i: "i < unat (max_threads (hnd w))" using client_inv_parts(1) [OF inv] by (simp add: find_index_Some)
  obtain w' where w': "start_computation E x w = Some (Inr (), w')" "hnd w' = started i x (hnd w)"
    using start_computation_spawned [OF k inv f] by blast
  have "handle_command E \<lparr>cmd = CMD_TASK, task_id = x\<rparr> w = Some (Inr None, w')"
    using w'(1) by (simp add: handle_command_def goes_on_def andthen_def bind_def return_def)
  then show ?thesis
    using client_inv_started [OF inv f] slots_started [OF inv f] settings_started [OF inv i]
    by (simp add: client_moves_def w'(2) view_def client_buffered_def)
qed

section \<open>Computing and sending\<close>

lemma finishes_task:
  assumes k: "\<And>tr fd n. r_ret (sys E tr (Read fd n)) \<noteq> -1" "\<And>tr ep op fd. r_ret (sys E tr (EpollCtl ep op fd)) \<noteq> -1"
    and inv: "client_inv (hnd w)" and i: "i < length (slots (hnd w))" and s: "slots (hnd w) ! i = Running x bs"
  shows "\<exists>w'. finish_computation E (event_fd (thread (hnd w) i)) EPOLLIN i w = Some (Inr (), w') \<and>
    client_moves (hnd w) (hnd w') (fst (view (hnd w)), (slots (hnd w))[i := Ready x bs]) (client_buffered (hnd w))"
proof -
  let ?h = "hnd w"
  have t: "running (thread ?h i)" "x = thread_task (thread ?h i)" "bs = data_of ?h (thread ?h i)"
    using nth_view(1) [OF inv i s] by simp_all
  have n: "i < unat (max_threads ?h)" "i < length (thread_manager ?h)"
    using i length_work [OF inv] by simp_all
  have "wpg False (finish_computation E (event_fd (thread ?h i)) EPOLLIN i) (\<lambda>_ w'. hnd w' = finished i ?h) (\<lambda>_ _. False) w"
    using k by (simp add: finish_computation_def mark_computation_as_ready_def client_update_connection_def wp answers_def
        finished_def)
  then obtain w' where w': "finish_computation E (event_fd (thread ?h i)) EPOLLIN i w = Some (Inr (), w')"
    "hnd w' = finished i ?h" by (auto dest!: wpg_outcome)
  have "slots (finished i ?h) = (slots ?h)[i := Ready x bs]"
    using t n by (simp add: finished_def slots_set_thread slot_def running_def data_of_def)
  then show ?thesis
    using w' step_finished(1,3) [OF inv n(1) t(1)]
    by (simp add: client_moves_def view_def) (simp add: finished_def client_buffered_def)
qed

lemma sends_result:
  assumes k: "takes_all E" and inv: "client_inv (hnd w)" and sz: "small_sizes (hnd w)"
    and i: "i < length (slots (hnd w))" and s: "slots (hnd w) ! i = Ready x bs"
  shows "\<exists>w'. send_result_of E i w = Some (Inr None, w') \<and>
    client_moves (hnd w) (hnd w') (fst (view (hnd w)), (slots (hnd w))[i := Idle]) (client_buffered (hnd w)) \<and>
    sent_on (server_socket (hnd w)) (trace w') = sent_on (server_socket (hnd w)) (trace w) @
      [CMD_RESULT # be_bytes x @ computed (hnd w) bs]"
proof -
  let ?h = "hnd w"
  have t: "waiting_to_be_sent (thread ?h i)" "x = thread_task (thread ?h i)" "bs = data_of ?h (thread ?h i)"
    using nth_view(2) [OF inv i s] by simp_all
  have n: "i < unat (max_threads ?h)" "i < length (thread_manager ?h)" using i length_work [OF inv] by simp_all
  obtain w' where w': "send_result_of E i w = Some (Inr None, w')" "hnd w' = result_sent i ?h"
    "sent_on (server_socket ?h) (trace w') = sent_on (server_socket ?h) (trace w) @ [result_message ?h i]"
    using send_result_obliged [OF k inv n(1) sz t(1)] unfolding server_socket_def by blast
  have "slots (result_sent i ?h) = (slots ?h)[i := Idle]"
    using n by (simp add: result_sent_def slots_set_thread slot_def)
  then show ?thesis
    using w' step_result_sent(1,3) [OF inv n(1) t(1)] t(2,3)
    by (simp add: client_moves_def view_def result_message_def) (simp add: client_buffered_def)
qed

lemma makes_request:
  assumes k: "takes_all E" and inv: "client_inv (hnd w)" and sz: "small_sizes (hnd w)"
    and n: "view (hnd w) = (Suc n, ss)"
  shows "\<exists>w' m. request_round E w = Some (Inr None, w') \<and> length m = unat (ret_size (hnd w)) \<and>
    client_moves (hnd w) (hnd w') (n, ss) (client_buffered (hnd w)) \<and>
    sent_on (server_socket (hnd w)) (trace w') = sent_on (server_socket (hnd w)) (trace w) @
      [CMD_REQUEST_FOR_DATA # be_bytes (-1) @ m]"
proof -
  let ?h = "hnd w"
  have some: "initial_requests ?h \<noteq> 0" using n by (auto simp: view_def)
  obtain w' m where w': "request_round E w = Some (Inr None, w')" "hnd w' = asked ?h" "request_message ?h m"
    "sent_on (server_socket ?h) (trace w') = sent_on (server_socket ?h) (trace w) @ [m]"
    using request_round_obliged [OF k inv sz some] unfolding server_socket_def by blast
  have "unat (initial_requests ?h - 1) = n" using n unat_minus_1 [OF some] by (simp add: view_def)
  moreover have "slot (asked ?h) = slot ?h" by (auto simp: fun_eq_iff slot_def data_of_def asked_def)
  ultimately have "view (asked ?h) = (n, ss)" using n by (simp add: view_def slots_def)
  moreover have "m = CMD_REQUEST_FOR_DATA # be_bytes (-1) @ drop sizeof_header m"
    using w'(3) append_take_drop_id [of sizeof_header m] by (simp add: request_message_def)
  moreover have "length (drop sizeof_header m) = unat (ret_size ?h)" using w'(3) by (simp add: request_message_def)
  moreover have "client_buffered (asked ?h) = client_buffered ?h" by (simp add: client_buffered_def)
  ultimately show ?thesis
    using w' step_asked(1,3) [OF inv some]
    by (intro exI [of _ w'] exI [of _ "drop sizeof_header m"]) (auto simp: client_moves_def)
qed

end
