(* ===== verification/System.thy ===== *)
theory System
  imports Protocol ServerEnd ClientEnd
begin

text \<open>
  The two programs together: one server, the clients behind the cells of its connection table,
  and a byte stream in each direction between them. Each step runs an operation of the code on
  the handle of its program, over a kernel that hands it a piece of the stream or appends what it
  sends to the stream; pieces may be cut anywhere. The steps simulate those of the protocol.
\<close>

section \<open>The system\<close>

record system =
  srv :: server
  peer :: "nat \<Rightarrow> client option"
  upstream :: "nat \<Rightarrow> u8 list"
  downstream :: "nat \<Rightarrow> u8 list"

text \<open>The system after a step that concerns one connection.\<close>

definition put_link :: "system \<Rightarrow> server \<Rightarrow> nat \<Rightarrow> client option \<Rightarrow> u8 list \<Rightarrow> u8 list \<Rightarrow> system" where
  "put_link s h i c us ds = \<lparr>srv = h, peer = (peer s)(i := c), upstream = (upstream s)(i := us),
     downstream = (downstream s)(i := ds)\<rparr>"

lemma put_link_simps [simp]:
  "srv (put_link s h i c us ds) = h" "peer (put_link s h i c us ds) = (peer s)(i := c)"
  "upstream (put_link s h i c us ds) = (upstream s)(i := us)"
  "downstream (put_link s h i c us ds) = (downstream s)(i := ds)"
  by (simp_all add: put_link_def)

text \<open>A kernel on which no call of the two event loops fails and every message is taken whole.\<close>

definition smooth :: "env \<Rightarrow> bool" where
  "smooth E \<longleftrightarrow> takes_all E \<and> spawns E \<and> (\<forall>tr fd n. r_ret (sys E tr (Read fd n)) \<noteq> -1)"

lemma smooth_parts:
  assumes "smooth E"
  shows "takes_all E" and "spawns E" and "watches E" and "r_ret (sys E tr (Read fd n)) \<noteq> -1"
    and "r_ret (sys E tr (EpollCtl ep op fd)) \<noteq> -1"
  using assms by (simp_all add: smooth_def watches_def takes_all_def)

text \<open>A client that has been initialised for the tasks of the server \<open>h\<close>, and computes \<open>f\<close>.\<close>

definition newcomer :: "(u8 list \<Rightarrow> u8 list) \<Rightarrow> server \<Rightarrow> client \<Rightarrow> bool" where
  "newcomer f h c \<longleftrightarrow> client_inv c \<and> small_sizes c \<and> client_sizes c = server_sizes h \<and> computed c = f \<and>
     client_buffered c = [] \<and> view c = (unat (max_threads c), replicate (unat (max_threads c)) Idle)"

text \<open>What the programs do with the clients that are connected.\<close>

inductive work_step :: "(u8 list \<Rightarrow> u8 list) \<Rightarrow> system \<Rightarrow> system \<Rightarrow> bool" for f where
  server_takes: "peer s i = Some c \<Longrightarrow> hnd w = srv s \<Longrightarrow> smooth E \<Longrightarrow> upstream s i = bs @ rest \<Longrightarrow> bs \<noteq> [] \<Longrightarrow>
     length (buffered (srv s) i @ bs) \<le> message_size (srv s) \<Longrightarrow>
     delivers (sys E (trace w) (recv_call (srv s) i)) bs \<Longrightarrow>
     receive_on_connection E (conn_socket (srv s) i) i w = Some (Inr (), w') \<Longrightarrow>
     work_step f s (put_link s (hnd w') i (Some c) rest (downstream s i))"
| server_gives: "peer s i = Some c \<Longrightarrow> hnd w = srv s \<Longrightarrow> smooth E \<Longrightarrow>
     send_round E i w = Some (Inr None, w') \<Longrightarrow>
     sent_on (conn_socket (srv s) i) (trace w') = sent_on (conn_socket (srv s) i) (trace w) @ ms \<Longrightarrow>
     work_step f s (put_link s (hnd w') i (Some c) (upstream s i) (downstream s i @ concat ms))"
| client_takes: "peer s i = Some (hnd w) \<Longrightarrow> smooth E \<Longrightarrow> downstream s i = bs @ rest \<Longrightarrow> bs \<noteq> [] \<Longrightarrow>
     length (client_buffered (hnd w) @ bs) \<le> task_message_size (hnd w) \<Longrightarrow>
     (\<And>n. delivers (sys E (trace w) (Recv (server_socket (hnd w)) n 0)) bs) \<Longrightarrow>
     receive_from_server E w = Some (Inr None, w') \<Longrightarrow>
     work_step f s (put_link s (srv s) i (Some (hnd w')) (upstream s i) rest)"
| client_ends: "peer s i = Some (hnd w) \<Longrightarrow> smooth E \<Longrightarrow> k < unat (max_threads (hnd w)) \<Longrightarrow>
     running (thread (hnd w) k) \<Longrightarrow>
     finish_computation E (event_fd (thread (hnd w) k)) EPOLLIN k w = Some (Inr (), w') \<Longrightarrow>
     work_step f s (put_link s (srv s) i (Some (hnd w')) (upstream s i) (downstream s i))"
| client_answers: "peer s i = Some (hnd w) \<Longrightarrow> smooth E \<Longrightarrow> k < unat (max_threads (hnd w)) \<Longrightarrow>
     waiting_to_be_sent (thread (hnd w) k) \<Longrightarrow> send_result_of E k w = Some (Inr None, w') \<Longrightarrow>
     sent_on (server_socket (hnd w)) (trace w') = sent_on (server_socket (hnd w)) (trace w) @ ms \<Longrightarrow>
     work_step f s (put_link s (srv s) i (Some (hnd w')) (upstream s i @ concat ms) (downstream s i))"
| client_asks: "peer s i = Some (hnd w) \<Longrightarrow> smooth E \<Longrightarrow> request_round E w = Some (Inr None, w') \<Longrightarrow>
     sent_on (server_socket (hnd w)) (trace w') = sent_on (server_socket (hnd w)) (trace w) @ ms \<Longrightarrow>
     work_step f s (put_link s (srv s) i (Some (hnd w')) (upstream s i @ concat ms) (downstream s i))"

text \<open>Besides, clients join and leave.\<close>

inductive system_step :: "(u8 list \<Rightarrow> u8 list) \<Rightarrow> system \<Rightarrow> system \<Rightarrow> bool" for f where
  joins: "hnd w = srv s \<Longrightarrow> accept_incoming_connection_request E w = Some (Inr 0, w') \<Longrightarrow>
     conn_view (srv s) i = None \<Longrightarrow> conn_view (hnd w') i \<noteq> None \<Longrightarrow> newcomer f (srv s) c \<Longrightarrow>
     system_step f s (put_link s (hnd w') i (Some c) [] [])"
| leaves: "peer s i = Some c \<Longrightarrow> hnd w = srv s \<Longrightarrow>
     hangup_connection E (conn_socket (srv s) i) i w = Some (Inr (), w') \<Longrightarrow>
     system_step f s (put_link s (hnd w') i None [] [])"
| works: "work_step f s s' \<Longrightarrow> system_step f s s'"

text \<open>At the start no client is connected and every task is to do.\<close>

definition system_start :: "system \<Rightarrow> bool" where
  "system_start s \<longleftrightarrow> server_inv (srv s) \<and> conn_view (srv s) = (\<lambda>_. None) \<and> peer s = (\<lambda>_. None) \<and>
     (\<forall>x \<in> set (pool (srv s)). x = Todo)"

abbreviation system_steps :: "(u8 list \<Rightarrow> u8 list) \<Rightarrow> system \<Rightarrow> system \<Rightarrow> bool" where
  "system_steps f \<equiv> (system_step f)\<^sup>*\<^sup>*"

section \<open>The protocol state that a system state stands for\<close>

fun up_bytes :: "up_message \<Rightarrow> u8 list" where
  "up_bytes (Request m) = CMD_REQUEST_FOR_DATA # be_bytes (-1) @ m"
| "up_bytes (Result x bs) = CMD_RESULT # be_bytes x @ bs"

definition down_bytes :: "u32 \<times> u8 list \<Rightarrow> u8 list" where
  "down_bytes m = CMD_TASK # be_bytes (fst m) @ snd m"

text \<open>The bytes under way, with those already read at the other end, are whole messages.\<close>

definition in_step :: "(u8 list \<Rightarrow> u8 list) \<Rightarrow> server \<Rightarrow> nat \<Rightarrow> client \<Rightarrow> u8 list \<Rightarrow> u8 list \<Rightarrow> link \<Rightarrow> bool" where
  "in_step f h i c us ds l \<longleftrightarrow> client_inv c \<and> small_sizes c \<and> client_sizes c = server_sizes h \<and> computed c = f \<and>
     view c = (asking l, work l) \<and>
     (\<exists>xs. conn_view h i = Some (wanted l, xs) \<and> xs @ us = concat (map up_bytes (up l))) \<and>
     client_buffered c @ ds = concat (map down_bytes (down l)) \<and>
     (\<forall>m \<in> set (up l). length (up_bytes m) = message_size h) \<and>
     (\<forall>m \<in> set (down l). length (down_bytes m) = task_message_size c)"

definition represents :: "(u8 list \<Rightarrow> u8 list) \<Rightarrow> (nat \<Rightarrow> u8 list) \<Rightarrow> system \<Rightarrow> cluster \<Rightarrow> bool" where
  "represents f d s c \<longleftrightarrow> server_inv (srv s) \<and> pool (srv s) = fst c \<and> task_bytes (srv s) = d \<and>
     (\<forall>i. case peer s i of
        None \<Rightarrow> snd c i = None \<and> conn_view (srv s) i = None
      | Some x \<Rightarrow> \<exists>l. snd c i = Some l \<and> in_step f (srv s) i x (upstream s i) (downstream s i) l)"

lemma representsD:
  assumes "represents f d s (p, L)"
  shows "server_inv (srv s)" and "pool (srv s) = p" and "task_bytes (srv s) = d" and "peer s i = None \<Longrightarrow> L i = None \<and> conn_view (srv s) i = None"
    and "peer s i = Some c \<Longrightarrow> \<exists>l. L i = Some l \<and> in_step f (srv s) i c (upstream s i) (downstream s i) l"
proof -
  have r: "server_inv (srv s)" "pool (srv s) = p" "task_bytes (srv s) = d"
    "\<And>i. case peer s i of None \<Rightarrow> L i = None \<and> conn_view (srv s) i = None
      | Some x \<Rightarrow> \<exists>l. L i = Some l \<and> in_step f (srv s) i x (upstream s i) (downstream s i) l"
    using assms unfolding represents_def fst_conv snd_conv by blast+
  show "server_inv (srv s)" "pool (srv s) = p" "task_bytes (srv s) = d" by (rule r)+
  show "peer s i = None \<Longrightarrow> L i = None \<and> conn_view (srv s) i = None"
    and "peer s i = Some c \<Longrightarrow> \<exists>l. L i = Some l \<and> in_step f (srv s) i c (upstream s i) (downstream s i) l"
    using r(4) [of i] by auto
qed

text \<open>A move of the server that concerns one connection leaves the other links alone.\<close>

lemma represents_update:
  assumes rep: "represents f d s (p, L)" and move: "server_moves (srv s) h p' ((conn_view (srv s))(i := v))"
    and new: "case c of None \<Rightarrow> l = None \<and> v = None | Some x \<Rightarrow> \<exists>k. l = Some k \<and> in_step f h i x us ds k"
  shows "represents f d (put_link s h i c us ds) (p', L(i := l))"
proof -
  note same = server_moves_caller [OF move]
  have m: "server_inv h" "pool h = p'" "conn_view h = (conn_view (srv s))(i := v)" "task_bytes h = d"
    using move same(3) representsD(3) [OF rep] by (simp_all add: server_moves_def)
  have other: "case peer s j of None \<Rightarrow> L j = None \<and> conn_view h j = None
      | Some x \<Rightarrow> \<exists>l. L j = Some l \<and> in_step f h j x (upstream s j) (downstream s j) l" if "j \<noteq> i" for j
    using representsD(4,5) [OF rep, of j] that m(3) same by (auto simp: in_step_def split: option.split)
  have each: "case ((peer s)(i := c)) j of None \<Rightarrow> (L(i := l)) j = None \<and> conn_view h j = None
      | Some x \<Rightarrow> \<exists>k. (L(i := l)) j = Some k \<and>
          in_step f h j x (((upstream s)(i := us)) j) (((downstream s)(i := ds)) j) k" for j
    using other [of j] new m(3) by (cases "j = i") (simp_all split: option.splits)
  show ?thesis
    unfolding represents_def put_link_simps fst_conv snd_conv using m(1,2,4) each by blast
qed

lemma server_moves_same: "server_inv h \<Longrightarrow> server_moves h h (pool h) ((conn_view h)(i := conn_view h i))"
  by (simp add: server_moves_def)

text \<open>A step of one client, over its own link.\<close>

lemma represents_client:
  assumes rep: "represents f d s (p, L)" and l: "in_step f (srv s) i c us ds l"
  shows "represents f d (put_link s (srv s) i (Some c) us ds) (p, L(i \<mapsto> l))"
  using represents_update [OF rep server_moves_same [OF representsD(1) [OF rep]], where c = "Some c" and l = "Some l"] l
    representsD(2) [OF rep] by simp

section \<open>Messages in the streams\<close>

lemma first_message:
  assumes "xs @ ys = concat (map e ms)" and "\<forall>m \<in> set ms. length (e m) = n" and "length xs = n" and "0 < n"
  shows "\<exists>m ms'. ms = m # ms' \<and> xs = e m \<and> ys = concat (map e ms')"
  using assms by (cases ms) auto

end
