(* ===== verification/Simulation.thy ===== *)
theory Simulation
  imports Main
begin

text \<open>
  The contract between an implementation and its specification, both given by a step relation:
  whatever step the implementation makes from a state that matches, the specification makes one
  too, or stands still. It carries over to any number of steps.
\<close>

locale simulation =
  fixes step :: "'a \<Rightarrow> 'a \<Rightarrow> bool" and spec :: "'b \<Rightarrow> 'b \<Rightarrow> bool" and match :: "'a \<Rightarrow> 'b \<Rightarrow> bool"
  assumes simulated: "match s c \<Longrightarrow> step s s' \<Longrightarrow> \<exists>c'. match s' c' \<and> (c' = c \<or> spec c c')"
begin

lemma simulated_steps: "step\<^sup>*\<^sup>* s s' \<Longrightarrow> match s c \<Longrightarrow> \<exists>c'. match s' c' \<and> spec\<^sup>*\<^sup>* c c'"
proof (induction rule: rtranclp_induct)
  case (step s1 s2)
  then obtain c1 where c1: "match s1 c1" "spec\<^sup>*\<^sup>* c c1" by blast
  from simulated [OF c1(1) step.hyps(2)] obtain c2 where "match s2 c2" "c2 = c1 \<or> spec c1 c2" by blast
  then show ?case using c1(2) by (metis rtranclp.rtrancl_into_rtrancl)
qed blast

lemma reaches_matching: "step\<^sup>*\<^sup>* s s' \<Longrightarrow> match s c \<Longrightarrow> \<exists>c'. match s' c'"
  using simulated_steps by blast

end

text \<open>
  Where each step of the specification makes its state lighter, and the implementation makes
  something smaller whenever the specification stands still, no run goes on forever.
\<close>

locale measured_simulation =
  fixes step :: "'a \<Rightarrow> 'a \<Rightarrow> bool" and spec :: "'b \<Rightarrow> 'b \<Rightarrow> bool" and match :: "'a \<Rightarrow> 'b \<Rightarrow> bool"
    and weight :: "'b \<Rightarrow> nat" and rest :: "'a \<Rightarrow> nat"
  assumes proceeds: "match s c \<Longrightarrow> step s s' \<Longrightarrow>
    \<exists>c'. match s' c' \<and> (spec c c' \<and> weight c' < weight c \<or> c' = c \<and> rest s' < rest s)"

sublocale measured_simulation \<subseteq> simulation
  by unfold_locales (use proceeds in blast)

context measured_simulation
begin

lemma no_endless_run:
  assumes "match (run 0) c"
  shows "\<exists>n. \<not> step (run n) (run (Suc n))"
  using assms
proof (induction "(weight c, rest (run 0))" arbitrary: c run rule: wf_induct_rule [OF wf_lex_prod [OF wf_less_than wf_less_than]])
  case 1
  show ?case
  proof (cases "step (run 0) (run (Suc 0))")
    case True
    then obtain c' where c': "match (run (Suc 0)) c'"
      "weight c' < weight c \<or> c' = c \<and> rest (run (Suc 0)) < rest (run 0)"
      using proceeds 1(2) by blast
    have "\<exists>n. \<not> step (run (Suc n)) (run (Suc (Suc n)))"
      by (rule 1(1) [of c' "\<lambda>n. run (Suc n)"]) (use c' in auto)
    then show ?thesis by blast
  next
    case False
    then show ?thesis by blast
  qed
qed

lemma reaches_end: "match s c \<Longrightarrow> \<exists>s'. step\<^sup>*\<^sup>* s s' \<and> \<not> (\<exists>s''. step s' s'')"
proof (induction "(weight c, rest s)" arbitrary: c s rule: wf_induct_rule [OF wf_lex_prod [OF wf_less_than wf_less_than]])
  case 1
  show ?case
  proof (cases "\<exists>s''. step s s''")
    case True
    then obtain s1 c1 where s1: "step s s1" "match s1 c1" "weight c1 < weight c \<or> c1 = c \<and> rest s1 < rest s"
      using proceeds 1(2) by blast
    have "\<exists>s'. step\<^sup>*\<^sup>* s1 s' \<and> \<not> (\<exists>s''. step s' s'')"
      by (rule 1(1) [of c1 s1]) (use s1 in auto)
    then show ?thesis using s1(1) by (blast intro: converse_rtranclp_into_rtranclp)
  next
    case False
    then show ?thesis by blast
  qed
qed

end

end
