(* ===== verification/SystemSim.thy ===== *)
theory SystemSim
  imports System Simulation
begin

text \<open>
  Every step of the system simulates a step of the protocol, or none while a message is only
  partly read. The receiving programs never stop: the lemmas on them also say that they return.
\<close>

section \<open>The server's side\<close>

lemma server_moves_trans:
  "server_moves h h1 p1 V1 \<Longrightarrow> server_moves h1 h2 p2 V2 \<Longrightarrow> server_moves h h2 p2 V2"
  by (simp add: server_moves_def)

lemma handles_not_ready: "handle_request E i (hdr\<lparr>cmd := ERR_NOT_READY\<rparr>) w = Some (Inr (), w)"
  by (simp add: handle_request_def cmd_defs bug_on_def return_def)

lemma message_split:
  "drop sizeof_header (c # be_bytes x @ bs) = bs" "length (c # be_bytes x @ bs) = sizeof_header + length bs"
  by (simp_all add: sizeof_header_def be_bytes_def)

lemma message_size_pos: "0 < message_size h" "0 < task_message_size c"
  by (simp_all add: message_size_def task_message_size_def sizeof_header_def)

lemma wanted_small:
  assumes "in_step f h i c us ds l" and "link_ok f d p i l" and "up l \<noteq> []"
  shows "Suc (wanted l) < 2 ^ 64"
proof -
  have "length (work l) = unat (max_threads c)"
    using assms(1) length_work [of c] by (auto simp: in_step_def view_def)
  moreover have "Suc (wanted l) \<le> length (work l)"
    using assms(2,3) by (cases "up l") (simp_all add: link_ok_def balanced_def)
  moreover have "unat (max_threads c) < 2 ^ 64" using unsigned_less [of "max_threads c"] by simp
  ultimately show ?thesis by linarith
qed

text \<open>The server handles one whole message of a link.\<close>

lemma server_handles_message:
  assumes k: "watches E" and inv: "server_inv (hnd w)" and v: "conn_view (hnd w) i = Some (wanted l, [])"
    and ok: "link_ok f d (pool (hnd w)) i l" and small: "Suc (wanted l) < 2 ^ 64" and up: "up l = m # ms"
    and hdr: "hdr = parse_header e (up_bytes m)" and pay: "payload (hnd w) i = drop sizeof_header (up_bytes m)"
    and L: "L i = Some l"
  shows "\<exists>w' q. handle_request E i hdr w = Some (Inr (), w') \<and>
    server_moves (hnd w) (hnd w') q ((conn_view (hnd w))(i \<mapsto> (Suc (wanted l), []))) \<and>
    cluster_work f d (pool (hnd w), L) (q, L(i \<mapsto> l\<lparr>up := ms, wanted := Suc (wanted l)\<rparr>))"
proof (cases m)
  case (Request y)
  have h: "hdr = \<lparr>cmd = CMD_REQUEST_FOR_DATA, task_id = -1\<rparr>" using hdr Request by (simp add: parse_header_be)
  obtain w' where w': "handle_request E i hdr w = Some (Inr (), w')" "hnd w' = counted i (hnd w)"
    using handles_request [OF k] h by blast
  have "server_moves (hnd w) (hnd w') (pool (hnd w)) ((conn_view (hnd w))(i \<mapsto> (Suc (wanted l), [])))"
    unfolding w'(2) by (rule counted_moves [OF inv v small])
  moreover have "cluster_work f d (pool (hnd w), L) (pool (hnd w), L(i \<mapsto> l\<lparr>up := ms, wanted := Suc (wanted l)\<rparr>))"
    using L up Request by (intro cluster_work.count) simp_all
  ultimately show ?thesis using w'(1) by blast
next
  case (Result x bs)
  have h: "hdr = \<lparr>cmd = CMD_RESULT, task_id = x\<rparr>" using hdr Result by (simp add: parse_header_be)
  have x: "unat x < length (pool (hnd w))" "pool (hnd w) ! unat x = Held i"
    using link_ok_result [OF ok] up Result by auto
  have pl: "payload (hnd w) i = bs" using pay Result by (simp add: message_split)
  obtain w' where w': "handle_request E i hdr w = Some (Inr (), w')"
    "server_moves (hnd w) (hnd w') ((pool (hnd w))[unat x := Done bs]) ((conn_view (hnd w))(i \<mapsto> (Suc (wanted l), [])))"
    using handles_result [OF k inv v x small] unfolding pl h by blast
  moreover have "cluster_work f d (pool (hnd w), L)
      ((pool (hnd w))[unat x := Done bs], L(i \<mapsto> l\<lparr>up := ms, wanted := Suc (wanted l)\<rparr>))"
    using L up Result x by (intro cluster_work.store) simp_all
  ultimately show ?thesis by blast
qed

lemma server_receives_sim:
  assumes rep: "represents f d s (p, L)" and cinv: "cluster_inv f d (p, L)"
    and peer: "peer s i = Some c" and w: "hnd w = srv s" and k: "smooth E"
    and us: "upstream s i = bs @ rest" "bs \<noteq> []" and fits: "length (buffered (srv s) i @ bs) \<le> message_size (srv s)"
    and r: "delivers (sys E (trace w) (recv_call (srv s) i)) bs"
  shows "\<exists>w' c'. receive_on_connection E (conn_socket (srv s) i) i w = Some (Inr (), w') \<and>
    represents f d (put_link s (hnd w') i (Some c) rest (downstream s i)) c' \<and>
    (c' = (p, L) \<or> cluster_work f d (p, L) c')"
proof -
  let ?h = "srv s"
  note inv = representsD(1) [OF rep] and pool = representsD(2) [OF rep]
  obtain l where L: "L i = Some l" and st: "in_step f ?h i c (upstream s i) (downstream s i) l"
    using representsD(5) [OF rep peer] by blast
  note ok = cluster_invD(2) [OF cinv L]
  obtain xs where v: "conn_view ?h i = Some (wanted l, xs)" and cat: "xs @ upstream s i = concat (map up_bytes (up l))"
    using st by (auto simp: in_step_def)
  have xs: "xs = buffered ?h i" using v by (simp add: conn_view_Some)
  obtain hdr0 hdr w1 where w1: "receive_on_connection E (conn_socket ?h i) i w = handle_request E i hdr w1"
    and res: "if length (xs @ bs) < message_size ?h
     then hdr = hdr0\<lparr>cmd := ERR_NOT_READY\<rparr> \<and>
       server_moves ?h (hnd w1) (pool ?h) ((conn_view ?h)(i \<mapsto> (wanted l, xs @ bs)))
     else hdr = parse_header (host E) (xs @ bs) \<and> payload (hnd w1) i = drop sizeof_header (xs @ bs) \<and>
       server_moves ?h (hnd w1) (pool ?h) ((conn_view ?h)(i \<mapsto> (wanted l, [])))"
    using server_reads [of w i "wanted l" xs E bs] inv v r us(2) fits unfolding w xs by blast
  show ?thesis
  proof (cases "length (xs @ bs) < message_size ?h")
    case True
    then have hdr: "hdr = hdr0\<lparr>cmd := ERR_NOT_READY\<rparr>"
      and mv: "server_moves ?h (hnd w1) (pool ?h) ((conn_view ?h)(i \<mapsto> (wanted l, xs @ bs)))" using res by simp_all
    have "in_step f (hnd w1) i c rest (downstream s i) l"
      using st cat us(1) mv server_moves_caller [OF mv] by (simp add: in_step_def server_moves_def)
    then have "represents f d (put_link s (hnd w1) i (Some c) rest (downstream s i)) (pool ?h, L(i := Some l))"
      by (intro represents_update [OF rep mv]) simp
    then show ?thesis
      using w1 hdr L pool fun_upd_triv [of L i] by (auto simp: handles_not_ready)
  next
    case False
    then have hdr: "hdr = parse_header (host E) (xs @ bs)" "payload (hnd w1) i = drop sizeof_header (xs @ bs)"
      and mv: "server_moves ?h (hnd w1) (pool ?h) ((conn_view ?h)(i \<mapsto> (wanted l, [])))" using res by simp_all
    have "length (xs @ bs) = message_size ?h" using False fits xs by simp
    moreover have "(xs @ bs) @ rest = concat (map up_bytes (up l))" using cat us(1) by simp
    moreover have "\<forall>m \<in> set (up l). length (up_bytes m) = message_size ?h" using st by (simp add: in_step_def)
    ultimately obtain m ms where m: "up l = m # ms" "xs @ bs = up_bytes m" "rest = concat (map up_bytes ms)"
      using first_message [of "xs @ bs" rest up_bytes "up l"] message_size_pos(1) by blast
    have at1: "server_inv (hnd w1)" "pool (hnd w1) = p" "conn_view (hnd w1) i = Some (wanted l, [])"
      "conn_view (hnd w1) = (conn_view ?h)(i \<mapsto> (wanted l, []))"
      using mv pool by (simp_all add: server_moves_def)
    have small: "Suc (wanted l) < 2 ^ 64" by (rule wanted_small [OF st ok]) (simp add: m)
    let ?l = "l\<lparr>up := ms, wanted := Suc (wanted l)\<rparr>"
    obtain w' q where w': "handle_request E i hdr w1 = Some (Inr (), w')"
      "server_moves (hnd w1) (hnd w') q ((conn_view (hnd w1))(i \<mapsto> (Suc (wanted l), [])))"
      "cluster_work f d (p, L) (q, L(i \<mapsto> ?l))"
      using server_handles_message [OF smooth_parts(3) [OF k] at1(1,3) _ small m(1), of f d hdr "host E" L]
        ok hdr m(2) L at1(2) by auto
    have mv': "server_moves ?h (hnd w') q ((conn_view ?h)(i \<mapsto> (Suc (wanted l), [])))"
      using server_moves_trans [OF mv w'(2)] by (simp add: at1(4))
    have "in_step f (hnd w') i c rest (downstream s i) ?l"
      using st m mv' server_moves_caller [OF mv'] by (simp add: in_step_def server_moves_def)
    then have "represents f d (put_link s (hnd w') i (Some c) rest (downstream s i)) (q, L(i \<mapsto> ?l))"
      by (intro represents_update [OF rep mv']) simp
    then show ?thesis using w1 w'(1,3) by auto
  qed
qed

text \<open>Giving out a task; the message is that of the least task that is to do.\<close>

lemma down_bytes_task: "task_message h t = down_bytes (of_nat t, task_bytes h t)"
  by (simp add: task_message_def down_bytes_def)

lemma server_sends_sim:
  assumes rep: "represents f d s (p, L)" and cinv: "cluster_inv f d (p, L)"
    and peer: "peer s i = Some c" and w: "hnd w = srv s" and k: "smooth E"
    and run: "send_round E i w = Some (Inr None, w')"
    and sent: "sent_on (conn_socket (srv s) i) (trace w') = sent_on (conn_socket (srv s) i) (trace w) @ ms"
  shows "\<exists>c'. represents f d (put_link s (hnd w') i (Some c) (upstream s i) (downstream s i @ concat ms)) c' \<and>
    cluster_work f d (p, L) c'"
proof -
  let ?h = "srv s"
  note inv = representsD(1) [OF rep] and pool = representsD(2) [OF rep] and d = representsD(3) [OF rep]
  obtain l where L: "L i = Some l" and st: "in_step f ?h i c (upstream s i) (downstream s i) l"
    using representsD(5) [OF rep peer] by blast
  obtain xs where v: "conn_view ?h i = Some (wanted l, xs)" and cat: "xs @ upstream s i = concat (map up_bytes (up l))"
    using st by (auto simp: in_step_def)
  note ret = send_round_returns [of w i "wanted l" xs, unfolded w, OF inv v run]
  obtain n where n: "wanted l = Suc n" using ret(1) by (cases "wanted l") auto
  have size: "server_task_size ?h < 251" "task_message_size c = sizeof_header + server_task_size ?h"
    using st by (auto simp: in_step_def client_sizes_def server_sizes_def small_sizes_def task_message_size_def
        server_task_size_def)
  obtain t where t: "t < length p" "p ! t = Todo"
    "server_moves ?h (hnd w') (p[t := Held i]) ((conn_view ?h)(i \<mapsto> (n, xs)))" "ms = [task_message ?h t]"
    using sends_task [of E w i n xs, unfolded w, OF smooth_parts(1) [OF k] inv _ ret(2,3) size(1)] v run sent
    unfolding n pool by auto
  let ?l = "l\<lparr>wanted := n, down := down l @ [(of_nat t, task_bytes ?h t)]\<rparr>"
  have len: "length (task_bytes ?h t) = server_task_size ?h"
    using t(1) pool by (intro length_task_bytes_pool [OF inv]) auto
  have "in_step f (hnd w') i c (upstream s i) (downstream s i @ concat ms) ?l"
    using st cat t(3) server_moves_caller [OF t(3)] len size(2)
    by (simp add: in_step_def server_moves_def t(4) down_bytes_task) (simp add: down_bytes_def sizeof_header_def)
  then have "represents f d (put_link s (hnd w') i (Some c) (upstream s i) (downstream s i @ concat ms))
      (p[t := Held i], L(i \<mapsto> ?l))"
    by (intro represents_update [OF rep t(3)]) simp
  moreover have "cluster_work f d (p, L) (p[t := Held i], L(i \<mapsto> ?l))"
    unfolding d using L n t(1,2) by (rule cluster_work.assign)
  ultimately show ?thesis by blast
qed

lemma joins_sim:
  assumes rep: "represents f d s (p, L)" and w: "hnd w = srv s"
    and run: "accept_incoming_connection_request E w = Some (Inr 0, w')"
    and i: "conn_view (srv s) i = None" "conn_view (hnd w') i \<noteq> None" and c: "newcomer f (srv s) c"
  shows "\<exists>c'. represents f d (put_link s (hnd w') i (Some c) [] []) c' \<and> cluster_step f d (p, L) c'"
proof -
  note inv = representsD(1) [OF rep] and pool = representsD(2) [OF rep]
  obtain j where j: "server_moves (srv s) (hnd w') p ((conn_view (srv s))(j \<mapsto> (0, [])))"
    using client_joins [of w, unfolded w, OF inv run] pool by blast
  then have "i = j" using i by (auto simp: server_moves_def split: if_splits)
  then have mv: "server_moves (srv s) (hnd w') p ((conn_view (srv s))(i \<mapsto> (0, [])))" using j by simp
  have "peer s i = None" using representsD(5) [OF rep, of i] i(1) by (cases "peer s i") (auto simp: in_step_def)
  then have L: "L i = None" using representsD(4) [OF rep] by blast
  let ?l = "fresh_link (unat (max_threads c))"
  have "in_step f (hnd w') i c [] [] ?l"
    using c mv server_moves_caller [OF mv]
    by (simp add: in_step_def newcomer_def server_moves_def fresh_link_def)
  then have "represents f d (put_link s (hnd w') i (Some c) [] []) (p, L(i \<mapsto> ?l))"
    by (intro represents_update [OF rep mv]) simp
  moreover have "cluster_step f d (p, L) (p, L(i \<mapsto> ?l))" using L by (rule cluster_step.join)
  ultimately show ?thesis by blast
qed

lemma leaves_sim:
  assumes rep: "represents f d s (p, L)" and peer: "peer s i = Some c" and w: "hnd w = srv s"
    and run: "hangup_connection E (conn_socket (srv s) i) i w = Some (Inr (), w')"
  shows "\<exists>c'. represents f d (put_link s (hnd w') i None [] []) c' \<and> cluster_step f d (p, L) c'"
proof -
  note inv = representsD(1) [OF rep] and pool = representsD(2) [OF rep]
  obtain l where L: "L i = Some l" and st: "in_step f (srv s) i c (upstream s i) (downstream s i) l"
    using representsD(5) [OF rep peer] by blast
  obtain xs where v: "conn_view (srv s) i = Some (wanted l, xs)" using st by (auto simp: in_step_def)
  have mv: "server_moves (srv s) (hnd w') (map (\<lambda>x. if x = Held i then Todo else x) p) ((conn_view (srv s))(i := None))"
    using client_leaves [of w, unfolded w, OF inv v run] pool by simp
  have "represents f d (put_link s (hnd w') i None [] []) (map (\<lambda>x. if x = Held i then Todo else x) p, L(i := None))"
    by (intro represents_update [OF rep mv]) simp
  moreover have "cluster_step f d (p, L) (map (\<lambda>x. if x = Held i then Todo else x) p, L(i := None))"
    using L by (rule cluster_step.leave)
  ultimately show ?thesis by blast
qed

section \<open>The clients' side\<close>

text \<open>A client that moved, with what it took from one stream and put into the other.\<close>

lemma in_step_client:
  assumes st: "in_step f h i c us ds l" and mv: "client_moves c c' (asking l', work l') xs"
    and "wanted l' = wanted l" and "up l' = up l @ ms" and "\<forall>m \<in> set ms. length (up_bytes m) = message_size h"
    and "xs @ ds' = concat (map down_bytes (down l'))" and "set (down l') \<subseteq> set (down l)"
  shows "in_step f h i c' (us @ concat (map up_bytes ms)) ds' l'"
  using st assms(3-7) mv client_moves_settings [OF mv]
  by (auto simp: in_step_def client_moves_def append_assoc [symmetric] simp del: append_assoc)

lemma handles_not_ready_client: "handle_command E (hdr\<lparr>cmd := ERR_NOT_READY\<rparr>) w = Some (Inr None, w)"
  by (simp add: handle_command_def cmd_defs bug_on_def goes_on_def andthen_def bind_def return_def)

lemma view_slots: "view c = (n, ss) \<longleftrightarrow> n = fst (view c) \<and> ss = slots c"
  by (auto simp: view_def)

lemma client_receives_sim:
  assumes rep: "represents f d s (p, L)" and cinv: "cluster_inv f d (p, L)"
    and peer: "peer s i = Some (hnd w)" and k: "smooth E"
    and ds: "downstream s i = bs @ rest" "bs \<noteq> []"
    and fits: "length (client_buffered (hnd w) @ bs) \<le> task_message_size (hnd w)"
    and r: "\<And>n. delivers (sys E (trace w) (Recv (server_socket (hnd w)) n 0)) bs"
  shows "\<exists>w' c'. receive_from_server E w = Some (Inr None, w') \<and>
    represents f d (put_link s (srv s) i (Some (hnd w')) (upstream s i) rest) c' \<and>
    (c' = (p, L) \<or> cluster_work f d (p, L) c')"
proof -
  let ?c = "hnd w" let ?xs = "client_buffered ?c"
  obtain l where L: "L i = Some l" and st: "in_step f (srv s) i ?c (upstream s i) (downstream s i) l"
    using representsD(5) [OF rep peer] by blast
  note ok = cluster_invD(2) [OF cinv L]
  have inv: "client_inv ?c" and v: "view ?c = (asking l, work l)"
    and cat: "?xs @ downstream s i = concat (map down_bytes (down l))"
    and len: "\<forall>m \<in> set (down l). length (down_bytes m) = task_message_size ?c"
    using st by (simp_all add: in_step_def)
  obtain hdr0 hdr w1 where w1: "receive_from_server E w = handle_command E hdr w1"
    and res: "if length (?xs @ bs) < task_message_size ?c
     then hdr = hdr0\<lparr>cmd := ERR_NOT_READY\<rparr> \<and> client_moves ?c (hnd w1) (view ?c) (?xs @ bs)
     else hdr = parse_header (host E) (?xs @ bs) \<and> received_task (hnd w1) = drop sizeof_header (?xs @ bs) \<and>
       client_moves ?c (hnd w1) (view ?c) []"
    using client_receives [OF inv r ds(2) fits] by blast
  show ?thesis
  proof (cases "length (?xs @ bs) < task_message_size ?c")
    case True
    then have hdr: "hdr = hdr0\<lparr>cmd := ERR_NOT_READY\<rparr>" and mv: "client_moves ?c (hnd w1) (view ?c) (?xs @ bs)"
      using res by simp_all
    have "in_step f (srv s) i (hnd w1) (upstream s i @ concat (map up_bytes [])) rest l"
      by (rule in_step_client [OF st mv [unfolded v]]) (use cat ds(1) in simp_all)
    then have "represents f d (put_link s (srv s) i (Some (hnd w1)) (upstream s i) rest) (p, L(i \<mapsto> l))"
      by (intro represents_client [OF rep]) simp
    then show ?thesis
      using w1 hdr L fun_upd_triv [of L i] by (auto simp: handles_not_ready_client)
  next
    case False
    then have hdr: "hdr = parse_header (host E) (?xs @ bs)" "received_task (hnd w1) = drop sizeof_header (?xs @ bs)"
      and mv: "client_moves ?c (hnd w1) (view ?c) []" using res by simp_all
    have "length (?xs @ bs) = task_message_size ?c" using False fits by simp
    moreover have "(?xs @ bs) @ rest = concat (map down_bytes (down l))" using cat ds(1) by simp
    ultimately obtain m ms where m: "down l = m # ms" "?xs @ bs = down_bytes m" "rest = concat (map down_bytes ms)"
      using first_message [of "?xs @ bs" rest down_bytes "down l"] len message_size_pos(2) by blast
    obtain x ys where x: "m = (x, ys)" by (cases m)
    have h: "hdr = \<lparr>cmd = CMD_TASK, task_id = x\<rparr>" "received_task (hnd w1) = ys"
      using hdr m(2) x by (simp_all add: down_bytes_def parse_header_be message_split)
    have inv1: "client_inv (hnd w1)" "slots (hnd w1) = work l" "fst (view (hnd w1)) = asking l" "client_buffered (hnd w1) = []"
      using mv v by (simp_all add: client_moves_def view_def)
    obtain j where j: "find_index (\<lambda>s. s = Idle) (work l) = Some j"
      using link_ok_idle [OF ok] m(1) by blast
    obtain w' where w': "handle_command E hdr w1 = Some (Inr None, w')"
      "client_moves (hnd w1) (hnd w') (asking l, (work l)[j := Running x ys]) []"
      using starts_task [OF smooth_parts(2) [OF k] inv1(1), of j x] j unfolding h inv1 by blast
    let ?l = "l\<lparr>down := ms, work := (work l)[j := Running x ys]\<rparr>"
    have "client_moves ?c (hnd w') (asking ?l, work ?l) []" using mv w'(2) by (simp add: client_moves_def)
    then have "in_step f (srv s) i (hnd w') (upstream s i @ concat (map up_bytes [])) rest ?l"
      by (rule in_step_client [OF st]) (use m in auto)
    then have "represents f d (put_link s (srv s) i (Some (hnd w')) (upstream s i) rest) (p, L(i \<mapsto> ?l))"
      by (intro represents_client [OF rep]) simp
    moreover have "link_step f l ?l" using m(1) [unfolded x] j by (rule link_step.start)
    then have "cluster_work f d (p, L) (p, L(i \<mapsto> ?l))" by (rule cluster_work.client [of L, OF L])
    ultimately show ?thesis using w1 w'(1) by auto
  qed
qed

lemma client_finishes_sim:
  assumes rep: "represents f d s (p, L)" and peer: "peer s i = Some (hnd w)" and E: "smooth E"
    and k: "k < unat (max_threads (hnd w))" "running (thread (hnd w) k)"
    and run: "finish_computation E (event_fd (thread (hnd w) k)) EPOLLIN k w = Some (Inr (), w')"
  shows "\<exists>c'. represents f d (put_link s (srv s) i (Some (hnd w')) (upstream s i) (downstream s i)) c' \<and>
    cluster_work f d (p, L) c'"
proof -
  let ?c = "hnd w"
  obtain l where L: "L i = Some l" and st: "in_step f (srv s) i ?c (upstream s i) (downstream s i) l"
    using representsD(5) [OF rep peer] by blast
  have inv: "client_inv ?c" and v: "asking l = fst (view ?c)" "work l = slots ?c"
    using st by (simp_all add: in_step_def view_def)
  have n: "k < length (slots ?c)" "k < length (thread_manager ?c)" using k(1) length_work [OF inv] by simp_all
  obtain x ys where x: "slots ?c ! k = Running x ys"
    using k(2) n(2) by (auto simp: nth_slots slot_def running_def)
  let ?l = "l\<lparr>work := (work l)[k := Ready x ys]\<rparr>"
  have mv: "client_moves ?c (hnd w') (asking ?l, work ?l) (client_buffered ?c)"
    using finishes_task [OF smooth_parts(4) [OF E] smooth_parts(5) [OF E] inv n(1) x] run by (auto simp: v)
  have "in_step f (srv s) i (hnd w') (upstream s i @ concat (map up_bytes [])) (downstream s i) ?l"
    by (rule in_step_client [OF st mv]) (use st in \<open>auto simp: in_step_def\<close>)
  then have "represents f d (put_link s (srv s) i (Some (hnd w')) (upstream s i) (downstream s i)) (p, L(i \<mapsto> ?l))"
    by (intro represents_client [OF rep]) simp
  moreover have "cluster_work f d (p, L) (p, L(i \<mapsto> ?l))"
    using n(1) x by (intro cluster_work.client [of L, OF L] link_step.finish) (simp_all add: v)
  ultimately show ?thesis by blast
qed

lemma message_size_sizes:
  "client_sizes c = server_sizes h \<Longrightarrow> message_size h = sizeof_header + unat (client.ret_size c)"
  by (simp add: client_sizes_def server_sizes_def message_size_def)

lemma client_answers_sim:
  assumes rep: "represents f d s (p, L)" and peer: "peer s i = Some (hnd w)" and E: "smooth E"
    and k: "k < unat (max_threads (hnd w))" "waiting_to_be_sent (thread (hnd w) k)"
    and run: "send_result_of E k w = Some (Inr None, w')"
    and sent: "sent_on (server_socket (hnd w)) (trace w') = sent_on (server_socket (hnd w)) (trace w) @ ms"
  shows "\<exists>c'. represents f d (put_link s (srv s) i (Some (hnd w')) (upstream s i @ concat ms) (downstream s i)) c' \<and>
    cluster_work f d (p, L) c'"
proof -
  let ?c = "hnd w"
  obtain l where L: "L i = Some l" and st: "in_step f (srv s) i ?c (upstream s i) (downstream s i) l"
    using representsD(5) [OF rep peer] by blast
  have inv: "client_inv ?c" and v: "asking l = fst (view ?c)" "work l = slots ?c" and sz: "small_sizes ?c"
    and f: "computed ?c = f" using st by (simp_all add: in_step_def view_def)
  have n: "k < length (slots ?c)" "k < length (thread_manager ?c)" using k(1) length_work [OF inv] by simp_all
  have "\<not> empty (thread ?c k)" using client_inv_parts(4) [OF inv k(1)] k(2) by (simp add: thread_ok_def)
  then obtain x ys where x: "slots ?c ! k = Ready x ys" using k(2) n(2) by (auto simp: nth_slots slot_def)
  let ?l = "l\<lparr>work := (work l)[k := Idle], up := up l @ [Result x (f ys)]\<rparr>"
  have mv: "client_moves ?c (hnd w') (asking ?l, work ?l) (client_buffered ?c)"
    and ms: "concat ms = concat (map up_bytes [Result x (f ys)])"
    using sends_result [OF smooth_parts(1) [OF E] inv sz n(1) x] run sent by (auto simp: v f)
  have "length (up_bytes (Result x (f ys))) = message_size (srv s)"
    using st message_size_sizes [of ?c "srv s"] by (simp add: in_step_def sizeof_header_def f [symmetric])
  then have "in_step f (srv s) i (hnd w') (upstream s i @ concat (map up_bytes [Result x (f ys)])) (downstream s i) ?l"
    by (intro in_step_client [OF st mv]) (use st in \<open>auto simp: in_step_def\<close>)
  then have "represents f d (put_link s (srv s) i (Some (hnd w')) (upstream s i @ concat ms) (downstream s i)) (p, L(i \<mapsto> ?l))"
    unfolding ms by (intro represents_client [OF rep])
  moreover have "cluster_work f d (p, L) (p, L(i \<mapsto> ?l))"
    using n(1) x by (intro cluster_work.client [of L, OF L] link_step.answer) (simp_all add: v)
  ultimately show ?thesis by blast
qed

lemma client_asks_sim:
  assumes rep: "represents f d s (p, L)" and peer: "peer s i = Some (hnd w)" and E: "smooth E"
    and run: "request_round E w = Some (Inr None, w')"
    and sent: "sent_on (server_socket (hnd w)) (trace w') = sent_on (server_socket (hnd w)) (trace w) @ ms"
  shows "\<exists>c'. represents f d (put_link s (srv s) i (Some (hnd w')) (upstream s i @ concat ms) (downstream s i)) c' \<and>
    cluster_work f d (p, L) c'"
proof -
  let ?c = "hnd w"
  obtain l where L: "L i = Some l" and st: "in_step f (srv s) i ?c (upstream s i) (downstream s i) l"
    using representsD(5) [OF rep peer] by blast
  have inv: "client_inv ?c" and v: "view ?c = (asking l, work l)" and sz: "small_sizes ?c"
    using st by (simp_all add: in_step_def)
  obtain n where n: "asking l = Suc n"
    using run v by (cases "asking l") (auto simp: request_round_def bind_def get_def return_def view_def unat_eq_0)
  obtain m where m: "length m = unat (client.ret_size ?c)" "client_moves ?c (hnd w') (n, work l) (client_buffered ?c)"
    "ms = [CMD_REQUEST_FOR_DATA # be_bytes (-1) @ m]"
    using makes_request [OF smooth_parts(1) [OF E] inv sz v [unfolded n]] run sent by auto
  let ?l = "l\<lparr>asking := n, up := up l @ [Request m]\<rparr>"
  have mv: "client_moves ?c (hnd w') (asking ?l, work ?l) (client_buffered ?c)" using m(2) by simp
  have ms: "concat ms = concat (map up_bytes [Request m])" using m(3) by simp
  have "length (up_bytes (Request m)) = message_size (srv s)"
    using st m(1) message_size_sizes [of ?c "srv s"] by (simp add: in_step_def sizeof_header_def)
  then have "in_step f (srv s) i (hnd w') (upstream s i @ concat (map up_bytes [Request m])) (downstream s i) ?l"
    by (intro in_step_client [OF st mv]) (use st in \<open>auto simp: in_step_def\<close>)
  then have "represents f d (put_link s (srv s) i (Some (hnd w')) (upstream s i @ concat ms) (downstream s i)) (p, L(i \<mapsto> ?l))"
    unfolding ms by (intro represents_client [OF rep])
  moreover have "cluster_work f d (p, L) (p, L(i \<mapsto> ?l))"
    by (intro cluster_work.client [of L, OF L] link_step.ask) (rule n)
  ultimately show ?thesis by blast
qed

section \<open>The simulation\<close>

text \<open>The bytes under way: a piece that does not complete a message still makes them fewer.\<close>

definition unread :: "system \<Rightarrow> nat" where
  "unread s = (\<Sum>i \<in> dom (peer s). length (upstream s i) + length (downstream s i))"

lemma unread_put_link:
  assumes "finite (dom (peer s))" and "peer s i = Some c"
  shows "unread (put_link s h i (Some c') us ds) + (length (upstream s i) + length (downstream s i)) =
    unread s + (length us + length ds)"
proof -
  have i: "i \<in> dom (peer s)" and "dom ((peer s)(i \<mapsto> c')) = dom (peer s)" using assms(2) by auto
  moreover have "(\<Sum>j \<in> dom (peer s) - {i}. length (((upstream s)(i := us)) j) + length (((downstream s)(i := ds)) j)) =
      (\<Sum>j \<in> dom (peer s) - {i}. length (upstream s j) + length (downstream s j))"
    by (rule sum.cong) auto
  ultimately show ?thesis
    unfolding unread_def by (simp add: sum.remove [OF assms(1) i])
qed

lemma represents_finite:
  assumes "represents f d s (p, L)"
  shows "finite (dom (peer s))" and "finite (dom L)"
proof -
  have "i < length (client_conns (srv s))" if "peer s i = Some c" for i c
    using representsD(5) [OF assms that] by (auto simp: in_step_def conn_view_Some)
  then have "dom (peer s) \<subseteq> {..<length (client_conns (srv s))}" by auto
  then show fin: "finite (dom (peer s))" using finite_subset by blast
  have "dom L \<subseteq> dom (peer s)" using representsD(4) [OF assms] by fastforce
  then show "finite (dom L)" using fin finite_subset by blast
qed

lemma work_step_sim:
  assumes step: "work_step f s s'" and rep: "represents f d s (p, L)" and cinv: "cluster_inv f d (p, L)"
  shows "\<exists>c'. represents f d s' c' \<and> (cluster_work f d (p, L) c' \<or> c' = (p, L) \<and> unread s' < unread s)"
  using step
proof cases
  case (server_takes i c w E bs rest w')
  then have "unread s' < unread s"
    using unread_put_link [OF represents_finite(1) [OF rep] server_takes(2), of "hnd w'" c rest "downstream s i"]
    by (simp flip: length_greater_0_conv)
  then show ?thesis using server_receives_sim [OF rep cinv server_takes(2-8)] server_takes(1,9) by auto
next
  case (server_gives i c w E w' ms)
  then show ?thesis using server_sends_sim [OF rep cinv] by blast
next
  case (client_takes i w E bs rest w')
  then have "unread s' < unread s"
    using unread_put_link [OF represents_finite(1) [OF rep] client_takes(2), of "srv s" "hnd w'" "upstream s i" rest]
    by (simp flip: length_greater_0_conv)
  then show ?thesis using client_receives_sim [OF rep cinv client_takes(2-7)] client_takes(1,8) by auto
next
  case (client_ends i w E k w')
  then show ?thesis using client_finishes_sim [OF rep] by blast
next
  case (client_answers i w E k w' ms)
  then show ?thesis using client_answers_sim [OF rep] by blast
next
  case (client_asks i w E w' ms)
  then show ?thesis using client_asks_sim [OF rep] by blast
qed

lemma system_step_sim:
  assumes step: "system_step f s s'" and rep: "represents f d s c" and cinv: "cluster_inv f d c"
  shows "\<exists>c'. represents f d s' c' \<and> (c' = c \<or> cluster_step f d c c')"
proof -
  obtain p L where c: "c = (p, L)" by (cases c)
  note rep = rep [unfolded c] and cinv = cinv [unfolded c]
  have "\<exists>c'. represents f d s' c' \<and> (c' = (p, L) \<or> cluster_step f d (p, L) c')" using step
  proof cases
    case (joins w E w' i c)
    then show ?thesis using joins_sim [OF rep] by blast
  next
    case (leaves i c w E w')
    then show ?thesis using leaves_sim [OF rep] by blast
  next
    case works
    then show ?thesis using work_step_sim [OF _ rep cinv] cluster_step.works by blast
  qed
  then show ?thesis unfolding c .
qed

text \<open>The relation between a system state and a state of the protocol in which all is well.\<close>

definition tracks :: "(u8 list \<Rightarrow> u8 list) \<Rightarrow> (nat \<Rightarrow> u8 list) \<Rightarrow> system \<Rightarrow> cluster \<Rightarrow> bool" where
  "tracks f d s c \<longleftrightarrow> represents f d s c \<and> cluster_inv f d c"

interpretation sys: simulation "system_step f" "cluster_step f d" "tracks f d" for f d
  by unfold_locales (use system_step_sim cluster_step_inv in \<open>unfold tracks_def, blast\<close>)

lemma system_start_tracks:
  assumes "system_start s"
  shows "tracks f (task_bytes (srv s)) s (pool (srv s), \<lambda>_. None)"
proof -
  have todo: "\<forall>x \<in> set (pool (srv s)). x = Todo" and inv: "server_inv (srv s)"
    using assms by (simp_all add: system_start_def)
  have none: "pool (srv s) ! t \<noteq> Done bs" if "t < length (pool (srv s))" for t bs
    using todo nth_mem [OF that] by auto
  have "length (pool (srv s)) < 2 ^ 32"
    using core_inv_small [OF server_inv_core [OF inv]] by simp
  then have "cluster_inv f (task_bytes (srv s)) (pool (srv s), \<lambda>_. None)"
    using todo none by (intro cluster_invI) (auto simp: pool_ok_def simp del: pool_nth)
  then show ?thesis using assms by (simp add: tracks_def represents_def system_start_def)
qed

end
