(* ===== verification/ServerScenario.thy ===== *)
theory ServerScenario
  imports ServerEnd Scenarios
begin

text \<open>
  The server's part in a run of the whole system: a client joins, its request arrives in two
  pieces, the task goes out, the result comes back.
\<close>

text \<open>The server with its client on the socket 0, at one moment of the run.\<close>

definition moment :: "u8 list \<Rightarrow> size_t \<Rightarrow> size_t \<Rightarrow> u32 \<Rightarrow> task_status \<Rightarrow> u8 \<Rightarrow> server" where
  "moment buf n req t st r = (solo 0 0 st)\<lparr>client_conns := [\<lparr>socket_fd = 0, recv_buffer = buf, bytes_recieved = n,
     now_sending_task_i = -1, requested_tasks = req, task_list = t # replicate 15 (-1)\<rparr>], user_rets := [r]\<rparr>"

lemma server_run:
  "ends_in (accept_incoming_connection_request (handing [])) (solo (-1) 0 NOT_RESOLVED) 0
     (moment [0, 0, 0, 0, 0, 0] 0 0 (-1) NOT_RESOLVED 0)"
  "ends_in (receive_on_connection (handing [2, 255]) 0 0) (moment [0, 0, 0, 0, 0, 0] 0 0 (-1) NOT_RESOLVED 0) ()
     (moment [2, 255, 0, 0, 0, 0] 2 0 (-1) NOT_RESOLVED 0)"
  "ends_in (receive_on_connection (handing [255, 255, 255, 0]) 0 0) (moment [2, 255, 0, 0, 0, 0] 2 0 (-1) NOT_RESOLVED 0) ()
     (moment [2, 255, 255, 255, 255, 0] 0 1 (-1) NOT_RESOLVED 0)"
  "ends_in (receive_on_connection (handing [3, 0, 0, 0, 0, 18]) 0 0) (moment [2, 255, 255, 255, 255, 0] 0 0 0 RESOLVING 0) ()
     (moment [3, 0, 0, 0, 0, 18] 0 1 (-1) COMPLETED 18)"
  by (rule ends_in_eval, code_simp)+

lemma server_send:
  "\<exists>w'. send_round (handing []) 0 (boot (moment [2, 255, 255, 255, 255, 0] 0 1 (-1) NOT_RESOLVED 0)) = Some (Inr None, w') \<and>
     hnd w' = moment [2, 255, 255, 255, 255, 0] 0 0 0 RESOLVING 0 \<and> sent_on 0 (trace w') = [[4, 0, 0, 0, 0, 9]]"
proof -
  have "map_option (\<lambda>(r, w). (r, hnd w, sent_on 0 (trace w)))
      (send_round (handing []) 0 (boot (moment [2, 255, 255, 255, 255, 0] 0 1 (-1) NOT_RESOLVED 0))) =
    Some (Inr None, moment [2, 255, 255, 255, 255, 0] 0 0 0 RESOLVING 0, [[4, 0, 0, 0, 0, 9]])" by code_simp
  then show ?thesis by auto
qed

end
