(* ===== verification/ClientScenario.thy ===== *)
theory ClientScenario
  imports ClientEnd
begin

text \<open>
  The client's part in a run of the whole system: it has one thread and doubles the bytes of its
  tasks; it asks for a task, gets one, computes and sends the result.
\<close>

definition tiny :: client where
  "tiny = \<lparr>epoll_fd = 4, server_hostname = None, local_discovery = True, discovery_socket_fd = 7,
     discovery_timer_fd = 8, broadcast_addr = \<lparr>sin_family = AF_INET, s_addr = 0, sin_port = 0\<rparr>,
     server_conn = \<lparr>socket_fd = 5, recv_buffer = [0, 0, 0, 0, 0, 0], bytes_recieved = 0\<rparr>,
     server_addr = \<lparr>sin_family = AF_INET, s_addr = 0, sin_port = 0\<rparr>, initial_requests = 1,
     thread_manager = [\<lparr>empty = True, in_args = \<lparr>data_pack = 0, ret_pack = 0\<rparr>, thread_func = map (\<lambda>b. b + b),
       thread_id = 0, cpu = 0, thread_task = -1, event_fd = 10, waiting_to_be_sent = False\<rparr>],
     max_threads = 1, task_buffer = [0], task_size = 1, ret_buffer = [0], ret_size = 1, max_cpu = 4,
     cache_line_size = 0, computation_func = map (\<lambda>b. b + b)\<rparr>"

lemma smooth_handing: "takes_all (handing bs)" "spawns (handing bs)" "r_ret (sys (handing bs) tr (Read fd n)) = 0"
  "r_ret (sys (handing bs) tr (EpollCtl ep op fd)) = 0"
  by (simp_all add: handing_def takes_all_def spawns_def)

lemma delivers_handing: "delivers (sys (handing bs) tr (Recv fd n fl)) bs"
  by (simp add: handing_def delivers_def)

lemma tiny_inv: "client_inv tiny" "small_sizes tiny" "view tiny = (1, [Idle])" "client_buffered tiny = []"
proof -
  have o: "data_offsets tiny = [0]" "ret_offsets tiny = [0]" by (simp_all add: data_offsets_def ret_offsets_def tiny_def)
  have "buffers_ok tiny" unfolding buffers_ok_def o by (simp add: regions_ok_def) (simp add: tiny_def)
  moreover have "recv_ok tiny" by (simp add: recv_ok_def tiny_def sizeof_header_def)
  ultimately show "client_inv tiny" by (simp add: client_inv_def) (simp add: tiny_def thread_def thread_ok_def)
qed (simp_all add: small_sizes_def view_def slots_def slot_def client_buffered_def tiny_def)

text \<open>What stays the same in the run.\<close>

definition like_tiny :: "client \<Rightarrow> nat \<times> slot list \<Rightarrow> bool" where
  "like_tiny c v \<longleftrightarrow> client_inv c \<and> small_sizes c \<and> view c = v \<and> client_buffered c = [] \<and> server_socket c = 5 \<and>
     task_message_size c = 6 \<and> max_threads c = 1 \<and> computed c = computed tiny"

lemma like_tiny_moves: "like_tiny c v \<Longrightarrow> client_moves c c' v' [] \<Longrightarrow> like_tiny c' v'"
  using client_moves_settings [of c c' v' "[]"] by (simp add: like_tiny_def client_moves_def)

lemma tiny_like: "like_tiny tiny (1, [Idle])"
  using tiny_inv by (simp add: like_tiny_def server_socket_def task_message_size_def) (simp add: tiny_def sizeof_header_def)

lemma tiny_asks: "\<exists>w'. request_round (handing []) (boot tiny) = Some (Inr None, w') \<and> like_tiny (hnd w') (0, [Idle]) \<and>
  sent_on 5 (trace w') = [[2, 255, 255, 255, 255, 0]]"
proof -
  have v: "view (hnd (boot tiny)) = (Suc 0, [Idle])" by (simp add: tiny_inv)
  have "map_option (\<lambda>(r, w). sent_on 5 (trace w)) (request_round (handing []) (boot tiny)) =
      Some [[2, 255, 255, 255, 255, 0]]" by code_simp
  moreover obtain w' where "request_round (handing []) (boot tiny) = Some (Inr None, w')"
    "client_moves tiny (hnd w') (0, [Idle]) []"
    using makes_request [OF smooth_handing(1) _ _ v, of "[]"] tiny_inv by auto
  ultimately show ?thesis using like_tiny_moves [OF tiny_like] by auto
qed

lemma tiny_takes:
  assumes "like_tiny c (0, [Idle])"
  shows "\<exists>w'. receive_from_server (handing [4, 0, 0, 0, 0, 9]) (boot c) = Some (Inr None, w') \<and>
    like_tiny (hnd w') (0, [Running 0 [9]])"
proof -
  let ?bs = "[4, 0, 0, 0, 0, 9]" let ?E = "handing ?bs"
  have c: "client_inv (hnd (boot c))" "client_buffered (hnd (boot c)) = []" "task_message_size (hnd (boot c)) = 6"
    using assms by (simp_all add: like_tiny_def)
  have "?bs = CMD_TASK # be_bytes 0 @ [9]" by code_simp
  then have hdr: "parse_header (host ?E) ?bs = \<lparr>cmd = CMD_TASK, task_id = 0\<rparr>" by (simp only: parse_header_be)
  obtain hdr w1 where w1: "receive_from_server ?E (boot c) = handle_command ?E hdr w1"
    "hdr = parse_header (host ?E) ?bs" "received_task (hnd w1) = [9]" "client_moves c (hnd w1) (view c) []"
    using client_receives [OF c(1) delivers_handing, of ?bs] c by (auto simp: sizeof_header_def)
  have l1: "like_tiny (hnd w1) (0, [Idle])"
    using like_tiny_moves [OF assms, of "hnd w1" "view c"] w1(4) assms by (simp add: like_tiny_def)
  then have s: "client_inv (hnd w1)" "slots (hnd w1) = [Idle]" "fst (view (hnd w1)) = 0" "client_buffered (hnd w1) = []"
    by (auto simp: like_tiny_def view_def)
  have "find_index (\<lambda>s. s = Idle) (slots (hnd w1)) = Some 0" by (simp add: s)
  from starts_task [OF smooth_handing(2) s(1) this, of ?bs 0] obtain w' where
    "handle_command ?E hdr w1 = Some (Inr None, w')" "client_moves (hnd w1) (hnd w') (0, [Running 0 [9]]) []"
    unfolding w1(2) hdr by (auto simp: s w1(3))
  then show ?thesis using w1(1) like_tiny_moves [OF l1] by auto
qed

lemma tiny_ends:
  assumes "like_tiny c (0, [Running 0 [9]])"
  shows "\<exists>w'. finish_computation (handing []) (event_fd (thread c 0)) EPOLLIN 0 (boot c) = Some (Inr (), w') \<and>
    like_tiny (hnd w') (0, [Ready 0 [9]]) \<and> running (thread c 0)"
proof -
  have c: "client_inv (hnd (boot c))" "slots c = [Running 0 [9]]" "fst (view c) = 0" "client_buffered c = []"
    using assms by (auto simp: like_tiny_def view_def)
  have n: "0 < length (slots (hnd (boot c)))" "slots (hnd (boot c)) ! 0 = Running 0 [9]" by (simp_all only: c boot_simps) simp_all
  show ?thesis
    using finishes_task [of "handing []", OF _ _ c(1) n] nth_view(1) [OF c(1) n(1,2)] like_tiny_moves [OF assms]
    by (auto simp: smooth_handing c)
qed

lemma tiny_answers:
  assumes "like_tiny c (0, [Ready 0 [9]])"
  shows "\<exists>w'. send_result_of (handing []) 0 (boot c) = Some (Inr None, w') \<and> like_tiny (hnd w') (0, [Idle]) \<and>
    sent_on 5 (trace w') = [[3, 0, 0, 0, 0, 18]] \<and> waiting_to_be_sent (thread c 0)"
proof -
  have c: "client_inv (hnd (boot c))" "small_sizes (hnd (boot c))" "slots c = [Ready 0 [9]]" "fst (view c) = 0"
    "client_buffered c = []" "computed c = computed tiny" "server_socket c = 5"
    using assms by (auto simp: like_tiny_def view_def)
  have n: "0 < length (slots (hnd (boot c)))" "slots (hnd (boot c)) ! 0 = Ready 0 [9]" by (simp_all only: c boot_simps) simp_all
  have "CMD_RESULT # be_bytes 0 @ computed tiny [9] = [3, 0, 0, 0, 0, 18]" by code_simp
  then show ?thesis
    using sends_result [OF smooth_handing(1) c(1,2) n, of "[]"] nth_view(2) [OF c(1) n(1,2)] like_tiny_moves [OF assms]
    by (auto simp: c sent_on_def)
qed

end
