(* ===== verification/SystemScenario.thy ===== *)
theory SystemScenario
  imports SystemSim ServerScenario ClientScenario
begin

text \<open>
  A run of the whole system, from the start to the result: one client with one thread joins the
  server with its one task of one byte, asks for it, gets it, doubles the byte and sends it back.
\<close>

definition alone :: system where
  "alone = \<lparr>srv = solo (-1) 0 NOT_RESOLVED, peer = (\<lambda>_. None), upstream = (\<lambda>_. []), downstream = (\<lambda>_. [])\<rparr>"

text \<open>One server, one client, and what is under way between them.\<close>

definition pair :: "server \<Rightarrow> client \<Rightarrow> u8 list \<Rightarrow> u8 list \<Rightarrow> system" where
  "pair h c us ds = put_link alone h 0 (Some c) us ds"

lemma pair_simps [simp]:
  "srv (pair h c us ds) = h" "peer (pair h c us ds) 0 = Some c" "upstream (pair h c us ds) 0 = us"
  "downstream (pair h c us ds) 0 = ds"
  "put_link (pair h c us ds) h' 0 (Some c') us' ds' = pair h' c' us' ds'"
  by (simp_all add: pair_def put_link_def)

abbreviation doubles :: "u8 list \<Rightarrow> u8 list" where
  "doubles \<equiv> computed tiny"

lemma smooth_hands: "smooth (handing bs)"
  by (simp add: smooth_def smooth_handing)

lemma alone_start: "system_start alone"
proof -
  have "conn_view (solo (-1) 0 NOT_RESOLVED) i = None" for i by (cases i) (simp_all add: conn_view_def)
  then have "conn_view (solo (-1) 0 NOT_RESOLVED) = (\<lambda>_. None)" by blast
  moreover have "pool (solo (-1) 0 NOT_RESOLVED) = [Todo]" by code_simp
  ultimately show ?thesis by (simp add: system_start_def alone_def solo_inv)
qed

section \<open>The steps\<close>

lemma step_joins: "system_step doubles alone (pair (moment [0, 0, 0, 0, 0, 0] 0 0 (-1) NOT_RESOLVED 0) tiny [] [])"
proof -
  let ?h = "moment [0, 0, 0, 0, 0, 0] 0 0 (-1) NOT_RESOLVED 0"
  obtain w' where w': "accept_incoming_connection_request (handing []) (boot (srv alone)) = Some (Inr 0, w')"
    "hnd w' = ?h" using server_run(1) by (auto simp: ends_in_def alone_def)
  have "conn_view (solo (-1) 0 NOT_RESOLVED) 0 = None" "conn_view ?h 0 = Some (0, [])"
    "server_sizes (solo (-1) 0 NOT_RESOLVED) = (1, 1)" by code_simp+
  moreover have "client_sizes tiny = (1, 1)" "max_threads tiny = 1" by (simp_all add: client_sizes_def tiny_def)
  ultimately have "newcomer doubles (srv alone) tiny" "conn_view (srv alone) 0 = None" "conn_view (hnd w') 0 \<noteq> None"
    using tiny_inv by (simp_all add: newcomer_def alone_def w'(2))
  with w'(1) have "system_step doubles alone (put_link alone (hnd w') 0 (Some tiny) [] [])"
    by (intro system_step.joins) simp_all
  then show ?thesis by (simp add: pair_def w'(2))
qed

lemma step_server_takes:
  assumes "ends_in (receive_on_connection (handing bs) 0 0) (moment buf n req t st r) () h'"
    and "conn_socket (moment buf n req t st r) 0 = 0" and "bs \<noteq> []"
    and "length (buffered (moment buf n req t st r) 0 @ bs) \<le> message_size (moment buf n req t st r)"
  shows "system_step doubles (pair (moment buf n req t st r) c (bs @ us) ds) (pair h' c us ds)"
proof -
  let ?s = "pair (moment buf n req t st r) c (bs @ us) ds"
  obtain w' where w': "receive_on_connection (handing bs) (conn_socket (srv ?s) 0) 0 (boot (srv ?s)) = Some (Inr (), w')"
    "hnd w' = h'" using assms(1,2) by (auto simp: ends_in_def)
  have "system_step doubles ?s (put_link ?s (hnd w') 0 (Some c) us (downstream ?s 0))"
    by (rule system_step.works, rule work_step.server_takes [where w = "boot (srv ?s)" and E = "handing bs" and bs = bs])
      (use w'(1) assms(3,4) in \<open>simp_all add: smooth_hands recv_call_def delivers_handing\<close>)
  then show ?thesis by (simp add: w'(2))
qed

lemma step_server_gives:
  "system_step doubles (pair (moment [2, 255, 255, 255, 255, 0] 0 1 (-1) NOT_RESOLVED 0) c us [])
     (pair (moment [2, 255, 255, 255, 255, 0] 0 0 0 RESOLVING 0) c us [4, 0, 0, 0, 0, 9])"
proof -
  let ?h = "moment [2, 255, 255, 255, 255, 0] 0 1 (-1) NOT_RESOLVED 0" let ?s = "pair ?h c us []"
  obtain w' where w': "send_round (handing []) 0 (boot ?h) = Some (Inr None, w')"
    "hnd w' = moment [2, 255, 255, 255, 255, 0] 0 0 0 RESOLVING 0" "sent_on 0 (trace w') = [[4, 0, 0, 0, 0, 9]]"
    using server_send by blast
  have "conn_socket ?h 0 = 0" by code_simp
  then have "system_step doubles ?s (put_link ?s (hnd w') 0 (Some c) (upstream ?s 0) (downstream ?s 0 @ concat [[4, 0, 0, 0, 0, 9]]))"
    by (intro system_step.works work_step.server_gives [where w = "boot ?h" and E = "handing []"])
      (use w' in \<open>simp_all add: smooth_hands sent_on_def\<close>)
  then show ?thesis by (simp add: w'(2))
qed

lemma step_client_asks:
  "\<exists>c. like_tiny c (0, [Idle]) \<and> system_step doubles (pair h tiny [] []) (pair h c [2, 255, 255, 255, 255, 0] [])"
proof -
  let ?s = "pair h tiny [] []"
  obtain w' where w': "request_round (handing []) (boot tiny) = Some (Inr None, w')" "like_tiny (hnd w') (0, [Idle])"
    "sent_on 5 (trace w') = [[2, 255, 255, 255, 255, 0]]" using tiny_asks by blast
  have "server_socket tiny = 5" using tiny_like by (simp add: like_tiny_def)
  then have "system_step doubles ?s (put_link ?s (srv ?s) 0 (Some (hnd w')) (upstream ?s 0 @ concat [[2, 255, 255, 255, 255, 0]]) (downstream ?s 0))"
    by (intro system_step.works work_step.client_asks [where w = "boot tiny" and E = "handing []"])
      (use w' in \<open>simp_all add: smooth_hands sent_on_def\<close>)
  then show ?thesis using w'(2) by (intro exI [of _ "hnd w'"]) simp
qed

lemma step_client_takes:
  assumes "like_tiny c (0, [Idle])"
  shows "\<exists>c'. like_tiny c' (0, [Running 0 [9]]) \<and> system_step doubles (pair h c us [4, 0, 0, 0, 0, 9]) (pair h c' us [])"
proof -
  let ?s = "pair h c us [4, 0, 0, 0, 0, 9]"
  obtain w' where w': "receive_from_server (handing [4, 0, 0, 0, 0, 9]) (boot c) = Some (Inr None, w')"
    "like_tiny (hnd w') (0, [Running 0 [9]])" using tiny_takes [OF assms] by blast
  have "system_step doubles ?s (put_link ?s (srv ?s) 0 (Some (hnd w')) (upstream ?s 0) [])"
    by (rule system_step.works, rule work_step.client_takes [where w = "boot c" and E = "handing [4, 0, 0, 0, 0, 9]" and bs = "[4, 0, 0, 0, 0, 9]"])
      (use w'(1) assms in \<open>simp_all add: smooth_hands delivers_handing like_tiny_def\<close>)
  then show ?thesis using w'(2) by (intro exI [of _ "hnd w'"]) simp
qed

lemma step_client_ends:
  assumes "like_tiny c (0, [Running 0 [9]])"
  shows "\<exists>c'. like_tiny c' (0, [Ready 0 [9]]) \<and> system_step doubles (pair h c us ds) (pair h c' us ds)"
proof -
  let ?s = "pair h c us ds"
  obtain w' where w': "finish_computation (handing []) (event_fd (thread c 0)) EPOLLIN 0 (boot c) = Some (Inr (), w')"
    "like_tiny (hnd w') (0, [Ready 0 [9]])" "running (thread c 0)" using tiny_ends [OF assms] by blast
  have "system_step doubles ?s (put_link ?s (srv ?s) 0 (Some (hnd w')) (upstream ?s 0) (downstream ?s 0))"
    by (rule system_step.works, rule work_step.client_ends [where w = "boot c" and E = "handing []" and k = 0])
      (use w'(1,3) assms in \<open>simp_all add: smooth_hands like_tiny_def\<close>)
  then show ?thesis using w'(2) by (intro exI [of _ "hnd w'"]) simp
qed

lemma step_client_answers:
  assumes "like_tiny c (0, [Ready 0 [9]])"
  shows "\<exists>c'. like_tiny c' (0, [Idle]) \<and> system_step doubles (pair h c [] ds) (pair h c' [3, 0, 0, 0, 0, 18] ds)"
proof -
  let ?s = "pair h c [] ds"
  obtain w' where w': "send_result_of (handing []) 0 (boot c) = Some (Inr None, w')" "like_tiny (hnd w') (0, [Idle])"
    "sent_on 5 (trace w') = [[3, 0, 0, 0, 0, 18]]" "waiting_to_be_sent (thread c 0)" using tiny_answers [OF assms] by blast
  have "system_step doubles ?s (put_link ?s (srv ?s) 0 (Some (hnd w')) (upstream ?s 0 @ concat [[3, 0, 0, 0, 0, 18]]) (downstream ?s 0))"
    by (rule system_step.works, rule work_step.client_answers [where w = "boot c" and E = "handing []" and k = 0])
      (use w'(1,3,4) assms in \<open>simp_all add: smooth_hands like_tiny_def sent_on_def\<close>)
  then show ?thesis using w'(2) by (intro exI [of _ "hnd w'"]) simp
qed

section \<open>The run\<close>

lemma takes_sizes:
  "conn_socket (moment [0, 0, 0, 0, 0, 0] 0 0 (-1) NOT_RESOLVED 0) 0 = 0"
  "length (buffered (moment [0, 0, 0, 0, 0, 0] 0 0 (-1) NOT_RESOLVED 0) 0 @ [2, 255]) \<le>
     message_size (moment [0, 0, 0, 0, 0, 0] 0 0 (-1) NOT_RESOLVED 0)"
  "conn_socket (moment [2, 255, 0, 0, 0, 0] 2 0 (-1) NOT_RESOLVED 0) 0 = 0"
  "length (buffered (moment [2, 255, 0, 0, 0, 0] 2 0 (-1) NOT_RESOLVED 0) 0 @ [255, 255, 255, 0]) \<le>
     message_size (moment [2, 255, 0, 0, 0, 0] 2 0 (-1) NOT_RESOLVED 0)"
  "conn_socket (moment [2, 255, 255, 255, 255, 0] 0 0 0 RESOLVING 0) 0 = 0"
  "length (buffered (moment [2, 255, 255, 255, 255, 0] 0 0 0 RESOLVING 0) 0 @ [3, 0, 0, 0, 0, 18]) \<le>
     message_size (moment [2, 255, 255, 255, 255, 0] 0 0 0 RESOLVING 0)"
  by code_simp+

text \<open>After the request has arrived, and after the result has.\<close>

lemma reaches_request:
  "\<exists>c. like_tiny c (0, [Idle]) \<and>
     system_steps doubles alone (pair (moment [2, 255, 255, 255, 255, 0] 0 1 (-1) NOT_RESOLVED 0) c [] [])"
proof -
  obtain c where c: "like_tiny c (0, [Idle])" "system_step doubles
      (pair (moment [0, 0, 0, 0, 0, 0] 0 0 (-1) NOT_RESOLVED 0) tiny [] [])
      (pair (moment [0, 0, 0, 0, 0, 0] 0 0 (-1) NOT_RESOLVED 0) c [2, 255, 255, 255, 255, 0] [])"
    using step_client_asks by blast
  note takes = step_server_takes [OF server_run(2) takes_sizes(1) _ takes_sizes(2), of c "[255, 255, 255, 0]" "[]"]
    step_server_takes [OF server_run(3) takes_sizes(3) _ takes_sizes(4), of c "[]" "[]"]
  have "system_steps doubles alone (pair (moment [2, 255, 255, 255, 255, 0] 0 1 (-1) NOT_RESOLVED 0) c [] [])"
    using step_joins c(2) takes by (auto intro: converse_rtranclp_into_rtranclp)
  then show ?thesis using c(1) by blast
qed

lemma reaches_result:
  "\<exists>c. system_steps doubles alone (pair (moment [3, 0, 0, 0, 0, 18] 0 1 (-1) COMPLETED 18) c [] [])"
proof -
  obtain c1 where c1: "like_tiny c1 (0, [Idle])"
    "system_steps doubles alone (pair (moment [2, 255, 255, 255, 255, 0] 0 1 (-1) NOT_RESOLVED 0) c1 [] [])"
    using reaches_request by blast
  let ?h = "moment [2, 255, 255, 255, 255, 0] 0 0 0 RESOLVING 0"
  obtain c2 where c2: "like_tiny c2 (0, [Running 0 [9]])" "system_step doubles (pair ?h c1 [] [4, 0, 0, 0, 0, 9]) (pair ?h c2 [] [])"
    using step_client_takes [OF c1(1)] by blast
  obtain c3 where c3: "like_tiny c3 (0, [Ready 0 [9]])" "system_step doubles (pair ?h c2 [] []) (pair ?h c3 [] [])"
    using step_client_ends [OF c2(1)] by blast
  obtain c4 where c4: "system_step doubles (pair ?h c3 [] []) (pair ?h c4 [3, 0, 0, 0, 0, 18] [])"
    using step_client_answers [OF c3(1)] by blast
  have "system_step doubles (pair ?h c4 ([3, 0, 0, 0, 0, 18] @ []) []) (pair (moment [3, 0, 0, 0, 0, 18] 0 1 (-1) COMPLETED 18) c4 [] [])"
    by (rule step_server_takes [OF server_run(4) takes_sizes(5) _ takes_sizes(6)]) simp
  then have "system_steps doubles alone (pair (moment [3, 0, 0, 0, 0, 18] 0 1 (-1) COMPLETED 18) c4 [] [])"
    using c1(2) step_server_gives [of c1 "[]"] c2(2) c3(2) c4
    by (auto intro: rtranclp.rtrancl_into_rtrancl)
  then show ?thesis by blast
qed

end
