(* ===== verification/ProtocolLive.thy ===== *)
theory ProtocolLive
  imports Protocol
begin

text \<open>
  The protocol comes to an end: each step of a cluster with fixed clients makes it lighter by
  one, where every task that is to do and every message and slot has a weight; and when nothing
  is under way on any link, no task is held by a connection and every slot waits for a task.
\<close>

section \<open>The weight of a state\<close>

text \<open>A task is given out, reaches its client, is computed, and its result reaches the server.\<close>

fun slot_weight :: "slot \<Rightarrow> nat" where
  "slot_weight Idle = 0"
| "slot_weight (Running x bs) = 3"
| "slot_weight (Ready x bs) = 2"

definition link_weight :: "link \<Rightarrow> nat" where
  "link_weight l = 2 * asking l + length (up l) + 4 * length (down l) + sum_list (map slot_weight (work l))"

definition cluster_weight :: "cluster \<Rightarrow> nat" where
  "cluster_weight c = 5 * countp (\<lambda>x. x = Todo) (fst c) + (\<Sum>i \<in> dom (snd c). link_weight (the (snd c i)))"

lemma slots_weight_update:
  "k < length ss \<Longrightarrow> sum_list (map slot_weight (ss[k := s])) + slot_weight (ss ! k) =
     sum_list (map slot_weight ss) + slot_weight s"
proof (induction ss arbitrary: k)
  case (Cons a ss)
  then show ?case by (cases k) auto
qed simp

lemma link_step_lighter: "link_step f l l' \<Longrightarrow> Suc (link_weight l') = link_weight l"
proof (induction rule: link_step.induct)
  case (start l x bs ms k)
  then show ?case
    using slots_weight_update [of k "work l" "Running x bs"] by (simp add: link_weight_def find_index_Some)
next
  case (finish k l x bs)
  then show ?case using slots_weight_update [of k "work l" "Ready x bs"] by (simp add: link_weight_def)
next
  case (answer k l x bs)
  then show ?case using slots_weight_update [of k "work l" Idle] by (simp add: link_weight_def)
qed (simp add: link_weight_def)

lemma links_weight_update:
  assumes "finite (dom L)" and "L i = Some l"
  shows "(\<Sum>j \<in> dom (L(i \<mapsto> l')). link_weight (the ((L(i \<mapsto> l')) j))) + link_weight l =
    (\<Sum>j \<in> dom L. link_weight (the (L j))) + link_weight l'"
proof -
  have i: "i \<in> dom L" and d: "dom (L(i \<mapsto> l')) = dom L" using assms(2) by auto
  have "(\<Sum>j \<in> dom L - {i}. link_weight (the ((L(i \<mapsto> l')) j))) = (\<Sum>j \<in> dom L - {i}. link_weight (the (L j)))"
    by (rule sum.cong) auto
  then show ?thesis unfolding d by (simp add: sum.remove [OF assms(1) i] assms(2))
qed

lemma cluster_work_lighter:
  assumes "cluster_work f d (p, L) c" and fin: "finite (dom L)"
  shows "Suc (cluster_weight c) = cluster_weight (p, L)"
  using assms(1)
proof cases
  case (client i l l')
  then show ?thesis
    using links_weight_update [OF fin, of i l l'] link_step_lighter [of f l l'] by (simp add: cluster_weight_def)
next
  case (count i l m ms)
  then show ?thesis
    using links_weight_update [OF fin, of i l "l\<lparr>up := ms, wanted := Suc (wanted l)\<rparr>"]
    by (simp add: cluster_weight_def link_weight_def)
next
  case (store i l x bs ms)
  then show ?thesis
    using links_weight_update [OF fin, of i l "l\<lparr>up := ms, wanted := Suc (wanted l)\<rparr>"]
      countp_update_same [of "unat x" p "\<lambda>x. x = Todo" "Done bs"]
    by (simp add: cluster_weight_def link_weight_def)
next
  case (assign i l n t)
  then show ?thesis
    using links_weight_update [OF fin, of i l "l\<lparr>wanted := n, down := down l @ [(of_nat t, d t)]\<rparr>"]
      countp_update [of t p "\<lambda>x. x = Todo" "Held i"]
    by (simp add: cluster_weight_def link_weight_def)
qed

text \<open>The links stay, with their slots.\<close>

lemma cluster_work_slots:
  assumes "cluster_work f d (p, L) (p', L')" and "L i = Some l"
  shows "\<exists>l'. L' i = Some l' \<and> length (work l') = length (work l)"
  using assms(1)
proof cases
  case (client j k k')
  have "length (work k') = length (work k)" using client(4) by cases simp_all
  then show ?thesis using client(2,3) assms(2) by auto
qed (use assms(2) in auto)

section \<open>Links at rest\<close>

definition at_rest :: "link \<Rightarrow> bool" where
  "at_rest l \<longleftrightarrow> asking l = 0 \<and> up l = [] \<and> down l = [] \<and> (\<forall>s \<in> set (work l). s = Idle)"

lemma at_rest_waits:
  assumes "balanced l" and "at_rest l"
  shows "wanted l = length (work l)"
proof -
  have "busy (work l) = 0"
    using assms(2) unfolding busy_def countp_zero_iff by (auto simp: at_rest_def)
  then show ?thesis using assms by (simp add: balanced_def at_rest_def)
qed

lemma at_rest_holds_nothing: "at_rest l \<Longrightarrow> outstanding l = []"
  by (auto simp: at_rest_def outstanding_def)

text \<open>With all links at rest, a task is to do or done.\<close>

lemma cluster_at_rest:
  assumes inv: "cluster_inv f d (p, L)" and rest: "\<And>i l. L i = Some l \<Longrightarrow> at_rest l"
    and t: "t < length p"
  shows "p ! t = Todo \<or> (\<exists>bs. p ! t = Done bs)"
proof (cases "p ! t")
  case (Held i)
  have small: "length p < 2 ^ 32" using cluster_invD(1) [OF inv] by (simp add: pool_ok_def)
  have False
  proof (cases "L i")
    case None
    then show False using cluster_invD(3) [OF inv] Held t nth_mem by metis
  next
    case (Some l)
    have "(of_nat t :: u32) \<in> set (outstanding l)"
      using cluster_invD(2) [OF inv Some] Held t small by (simp add: link_ok_def holds_out_def)
    then show False using at_rest_holds_nothing [OF rest [OF Some]] by simp
  qed
  then show ?thesis ..
qed auto

end
