(* ===== verification/SystemLive.thy ===== *)
theory SystemLive
  imports SystemScenario ProtocolLive
begin

text \<open>
  The cluster comes to an end, and only when its work is done: no run of the programs goes on
  forever while the clients stay the same, and as long as a task is not completed and a client is
  there to take it, one of the programs' operations has something to do and does it.
\<close>

section \<open>No endless run\<close>

interpretation working: measured_simulation "work_step f" "cluster_work f d" "tracks f d" cluster_weight unread for f d
proof
  fix s c s' assume t: "tracks f d s c" and step: "work_step f s s'"
  obtain p L where c: "c = (p, L)" by (cases c)
  have rep: "represents f d s (p, L)" and inv: "cluster_inv f d (p, L)" using t by (simp_all add: tracks_def c)
  obtain c' where c': "represents f d s' c'" "cluster_work f d (p, L) c' \<or> c' = (p, L) \<and> unread s' < unread s"
    using work_step_sim [OF step rep inv] by blast
  moreover have "cluster_inv f d c'" using c'(2) cluster_work_inv inv by blast
  moreover have "cluster_weight c' < cluster_weight (p, L)" if "cluster_work f d (p, L) c'"
    using cluster_work_lighter [OF that represents_finite(2) [OF rep]] by simp
  ultimately show "\<exists>c'. tracks f d s' c' \<and>
      (cluster_work f d c c' \<and> cluster_weight c' < cluster_weight c \<or> c' = c \<and> unread s' < unread s)"
    unfolding c tracks_def by blast
qed

section \<open>What can be done\<close>

lemma buffered_short:
  assumes "server_inv h" and "conn_view h i = Some (n, xs)"
  shows "length xs < message_size h"
proof -
  have i: "i < length (client_conns h)" "xs = buffered h i" using assms(2) by (simp_all add: conn_view_Some)
  show ?thesis
    using core_inv_buffer [OF server_inv_core [OF assms(1)] i(1)] by (simp add: i(2) buffered_def message_size_def)
qed

lemma client_buffered_short:
  assumes "client_inv c"
  shows "length (client_buffered c) < task_message_size c"
  using client_inv_parts(3) [OF assms] by (simp add: recv_ok_def client_buffered_def task_message_size_def)

text \<open>A stream that has nothing left to read, behind less than a message, carries no message.\<close>

lemma nothing_under_way:
  assumes "xs @ [] = concat (map e ms)" and "length xs < n" and "\<forall>m \<in> set ms. length (e m) = n"
  shows "ms = []"
  using assms by (cases ms) auto

text \<open>One connection, with its client and the link that stands for them.\<close>

definition linked :: "(u8 list \<Rightarrow> u8 list) \<Rightarrow> (nat \<Rightarrow> u8 list) \<Rightarrow> system \<Rightarrow> cluster \<Rightarrow> nat \<Rightarrow> client \<Rightarrow> link \<Rightarrow> bool" where
  "linked f d s k i c l \<longleftrightarrow> represents f d s k \<and> cluster_inv f d k \<and> peer s i = Some c \<and> snd k i = Some l \<and>
     in_step f (srv s) i c (upstream s i) (downstream s i) l"

lemma linkedD:
  assumes "linked f d s (p, L) i c l"
  shows "represents f d s (p, L)" and "cluster_inv f d (p, L)" and "peer s i = Some c" and "L i = Some l"
    and "in_step f (srv s) i c (upstream s i) (downstream s i) l"
  using assms by (simp_all add: linked_def)

lemma linked_exists:
  "represents f d s (p, L) \<Longrightarrow> cluster_inv f d (p, L) \<Longrightarrow> peer s i = Some c \<Longrightarrow> \<exists>l. linked f d s (p, L) i c l"
  using representsD(5) [of f d s p L i c] by (auto simp: linked_def)

lemma linked_client:
  assumes "linked f d s (p, L) i c l"
  shows "client_inv c" and "small_sizes c" and "view c = (asking l, work l)" and "slots c = work l"
    and "length (work l) = unat (max_threads c)"
  using linkedD(5) [OF assms] length_work [of c] by (auto simp: in_step_def view_def)

lemma can_ask:
  assumes lk: "linked f d s (p, L) i c l" and some: "asking l \<noteq> 0"
  shows "\<exists>s'. work_step f s s'"
proof -
  note client = linked_client(1-3) [OF lk] and slots_work = linked_client(4,5) [OF lk] and peer = linkedD(3) [OF lk]
  obtain n where "view (hnd (boot c)) = (Suc n, work l)" using some client(3) by (cases "asking l") auto
  from makes_request [OF smooth_parts(1) [OF smooth_hands [of "[]"]] _ _ this] client(1,2) obtain w' m where
    "request_round (handing []) (boot c) = Some (Inr None, w')"
    "sent_on (server_socket (hnd (boot c))) (trace w') = sent_on (server_socket (hnd (boot c))) (trace (boot c)) @ [m]"
    by auto
  from work_step.client_asks [OF _ smooth_hands this] peer show ?thesis by auto
qed

lemma can_answer:
  assumes lk: "linked f d s (p, L) i c l" and some: "Ready x ys \<in> set (work l)"
  shows "\<exists>s'. work_step f s s'"
proof -
  note client = linked_client(1-3) [OF lk] and slots_work = linked_client(4,5) [OF lk] and peer = linkedD(3) [OF lk]
  obtain k where k: "k < length (slots c)" "slots c ! k = Ready x ys"
    using some slots_work by (auto simp: in_set_conv_nth)
  have t: "k < unat (max_threads (hnd (boot c)))" "waiting_to_be_sent (thread (hnd (boot c)) k)"
    using k(1) slots_work nth_view(2) [OF client(1) k] by auto
  from sends_result [OF smooth_parts(1) [OF smooth_hands [of "[]"]], of "boot c" k x ys] client(1,2) k obtain w' m where
    "send_result_of (handing []) k (boot c) = Some (Inr None, w')"
    "sent_on (server_socket (hnd (boot c))) (trace w') = sent_on (server_socket (hnd (boot c))) (trace (boot c)) @ [m]"
    by auto
  from work_step.client_answers [OF _ smooth_hands t this] peer show ?thesis by auto
qed

lemma can_finish:
  assumes lk: "linked f d s (p, L) i c l" and some: "Running x ys \<in> set (work l)"
  shows "\<exists>s'. work_step f s s'"
proof -
  note client = linked_client(1-3) [OF lk] and slots_work = linked_client(4,5) [OF lk] and peer = linkedD(3) [OF lk]
  obtain k where k: "k < length (slots c)" "slots c ! k = Running x ys"
    using some slots_work by (auto simp: in_set_conv_nth)
  have t: "k < unat (max_threads (hnd (boot c)))" "running (thread (hnd (boot c)) k)"
    using k(1) slots_work nth_view(1) [OF client(1) k] by auto
  note E = smooth_hands [of "[]"]
  from finishes_task [OF smooth_parts(4,5) [OF E], of "boot c" k x ys] client(1) k obtain w' where
    "finish_computation (handing []) (event_fd (thread (hnd (boot c)) k)) EPOLLIN k (boot c) = Some (Inr (), w')"
    by auto
  from work_step.client_ends [OF _ E t this] peer show ?thesis by auto
qed

text \<open>A byte that has arrived can be read, by either program.\<close>

lemma can_read_up:
  assumes lk: "linked f d s (p, L) i c l" and some: "up l \<noteq> []"
  shows "\<exists>s'. work_step f s s'"
proof -
  note rep = linkedD(1) [OF lk] and cinv = linkedD(2) [OF lk] and peer = linkedD(3) [OF lk] and st = linkedD(5) [OF lk]
  obtain xs where xs: "conn_view (srv s) i = Some (wanted l, xs)" "xs @ upstream s i = concat (map up_bytes (up l))"
    and len: "\<forall>m \<in> set (up l). length (up_bytes m) = message_size (srv s)"
    using st by (auto simp: in_step_def)
  have short: "length xs < message_size (srv s)" by (rule buffered_short [OF representsD(1) [OF rep] xs(1)])
  then obtain b us where us: "upstream s i = [b] @ us"
    using nothing_under_way [of xs up_bytes "up l"] xs(2) len some by (cases "upstream s i") auto
  have b: "length (buffered (srv s) i @ [b]) \<le> message_size (srv s)" using short xs(1) by (simp add: conn_view_Some)
  have dl: "delivers (sys (handing [b]) (trace (boot (srv s))) (recv_call (srv s) i)) [b]"
    by (simp add: recv_call_def delivers_handing)
  obtain w' where "receive_on_connection (handing [b]) (conn_socket (srv s) i) i (boot (srv s)) = Some (Inr (), w')"
    using server_receives_sim [OF rep cinv peer _ smooth_hands us _ b dl] by auto
  from work_step.server_takes [OF peer _ smooth_hands us _ b dl this] show ?thesis by auto
qed

lemma can_read_down:
  assumes lk: "linked f d s (p, L) i c l" and some: "down l \<noteq> []"
  shows "\<exists>s'. work_step f s s'"
proof -
  note rep = linkedD(1) [OF lk] and cinv = linkedD(2) [OF lk] and peer = linkedD(3) [OF lk] and st = linkedD(5) [OF lk]
  have cat: "client_buffered c @ downstream s i = concat (map down_bytes (down l))"
    and len: "\<forall>m \<in> set (down l). length (down_bytes m) = task_message_size c"
    using st by (auto simp: in_step_def)
  have short: "length (client_buffered c) < task_message_size c" by (rule client_buffered_short [OF linked_client(1) [OF lk]])
  then obtain b ds where ds: "downstream s i = [b] @ ds"
    using nothing_under_way [of "client_buffered c" down_bytes "down l"] cat len some by (cases "downstream s i") auto
  have peer': "peer s i = Some (hnd (boot c))" and b: "length (client_buffered (hnd (boot c)) @ [b]) \<le> task_message_size (hnd (boot c))"
    using peer short by simp_all
  note E = smooth_hands [of "[b]"]
  have dl: "delivers (sys (handing [b]) (trace (boot c)) (Recv (server_socket (hnd (boot c))) n 0)) [b]" for n
    by (rule delivers_handing)
  obtain w' where "receive_from_server (handing [b]) (boot c) = Some (Inr None, w')"
    using client_receives_sim [OF rep cinv peer' E ds _ b dl] by auto
  from work_step.client_takes [OF peer' E ds _ b dl this] show ?thesis by auto
qed

text \<open>So a link on which nothing can be done is at rest.\<close>

lemma idle_at_rest:
  assumes lk: "linked f d s (p, L) i c l" and none: "\<nexists>s'. work_step f s s'"
  shows "at_rest l"
proof -
  have "x = Idle" if "x \<in> set (work l)" for x
  proof (cases x)
    case (Running y bs)
    then show ?thesis using can_finish [OF lk] that none by blast
  next
    case (Ready y bs)
    then show ?thesis using can_answer [OF lk] that none by blast
  qed
  then show ?thesis
    using can_ask [OF lk] can_read_up [OF lk] can_read_down [OF lk] none unfolding at_rest_def by blast
qed

text \<open>A client that waits and has at most 16 threads is given a task.\<close>

lemma can_give:
  assumes lk: "linked f d s (p, L) i c l" and wait: "wanted l \<noteq> 0" and few: "unat (max_threads c) \<le> MAX_TASKS_PER_CLIENT"
    and more: "num_not_resolved (srv s) \<noteq> 0"
  shows "\<exists>w' t. smooth E \<longrightarrow> hnd w = srv s \<longrightarrow> send_round E i w = Some (Inr None, w') \<and>
    t < length p \<and> p ! t = Todo \<and> pool (hnd w') = p[t := Held i] \<and>
    sent_on (conn_socket (srv s) i) (trace w') = sent_on (conn_socket (srv s) i) (trace w) @ [task_message (srv s) t]"
proof -
  note rep = linkedD(1) [OF lk] and cinv = linkedD(2) [OF lk] and link = linkedD(4) [OF lk] and st = linkedD(5) [OF lk]
    and slots_work = linked_client(4,5) [OF lk]
  let ?h = "srv s"
  note inv = representsD(1) [OF rep] and pool = representsD(2) [OF rep]
  obtain n xs where v: "conn_view ?h i = Some (Suc n, xs)" "wanted l = Suc n"
    using st wait by (cases "wanted l") (auto simp: in_step_def)
  have "countp (\<lambda>x. x = Held i) p + wanted l \<le> length (work l)"
    using link_ok_held [OF cluster_invD(2) [OF cinv link]] cluster_invD(1) [OF cinv] by (simp add: pool_ok_def)
  moreover have "room ?h i + countp (\<lambda>x. x = Held i) p = MAX_TASKS_PER_CLIENT"
    using room_held [OF server_inv_core [OF inv]] v(1) pool by (simp add: conn_view_Some)
  ultimately have room: "0 < room ?h i" using few v(2) slots_work(2) by linarith
  have "server_task_size ?h < 251"
    using st by (auto simp: in_step_def client_sizes_def server_sizes_def small_sizes_def server_task_size_def)
  then show ?thesis
    using sends_task [of E w i n xs] smooth_parts(1) [of E] inv v(1) more room pool
    by (cases "smooth E \<and> hnd w = ?h") (auto simp: server_moves_def)
qed

section \<open>Nothing left to do\<close>

lemma all_done_completed:
  assumes inv: "core_inv h" and fin: "\<And>t. t < unat (num_tasks h) \<Longrightarrow> \<exists>bs. pool h ! t = Done bs"
  shows "num_completed h = num_tasks h"
proof -
  have len: "length (statuses h) = unat (num_tasks h)" using core_inv_tasks [OF inv] by simp
  have "statuses h ! t = COMPLETED" if "t < length (statuses h)" for t
    using fin [of t] that len by (auto simp: phase_def split: task_status.splits)
  then have "countp (\<lambda>s. s = COMPLETED) (statuses h) = length (statuses h)" unfolding countp_all_iff by blast
  then have "unat (num_completed h) = unat (num_tasks h)"
    using core_inv_counters [OF inv] len by (simp add: counters_ok_def)
  then show ?thesis by (simp add: word_unat_eq_iff)
qed

text \<open>
  With a client that has between 1 and 16 threads, a state in which no operation can do anything
  is one in which all tasks are completed.
\<close>

lemma stuck_completed:
  assumes rep: "represents f d s (p, L)" and cinv: "cluster_inv f d (p, L)" and none: "\<nexists>s'. work_step f s s'"
    and peer: "peer s i = Some c" and threads: "0 < unat (max_threads c)" "unat (max_threads c) \<le> MAX_TASKS_PER_CLIENT"
  shows "num_completed (srv s) = num_tasks (srv s)"
proof -
  let ?h = "srv s"
  have core: "core_inv ?h" by (rule server_inv_core [OF representsD(1) [OF rep]])
  have rest: "at_rest l" if Lj: "L j = Some l" for j l
  proof -
    obtain c' where "peer s j = Some c'" using representsD(4) [OF rep, of j] Lj by (cases "peer s j") auto
    then show ?thesis using linked_exists [OF rep cinv] idle_at_rest [OF _ none] linkedD(4) Lj by (metis option.inject)
  qed
  obtain l where lk: "linked f d s (p, L) i c l" using linked_exists [OF rep cinv peer] by blast
  have "wanted l \<noteq> 0"
    using at_rest_waits [of l] rest [OF linkedD(4) [OF lk]] cluster_invD(2) [OF cinv linkedD(4) [OF lk]]
      linked_client(5) [OF lk] threads(1) by (simp add: link_ok_def)
  note give = can_give [OF lk this threads(2), where w = "boot ?h" and E = "handing []"]
  have "num_not_resolved ?h = 0"
  proof (rule ccontr)
    assume "num_not_resolved ?h \<noteq> 0"
    then obtain w' m where "send_round (handing []) i (boot ?h) = Some (Inr None, w')"
      "sent_on (conn_socket ?h i) (trace w') = sent_on (conn_socket ?h i) (trace (boot ?h)) @ [m]"
      using give by (auto simp: smooth_hands)
    from work_step.server_gives [OF peer _ smooth_hands this] none show False by auto
  qed
  then have "countp (\<lambda>x. x = Todo) p = 0"
    using count_not_resolved [OF core] representsD(2) [OF rep] by simp
  then have "\<exists>bs. pool ?h ! t = Done bs" if "t < unat (num_tasks ?h)" for t
    using cluster_at_rest [OF cinv rest, where t = t] representsD(2) [OF rep] that
    by (auto simp: countp_zero_iff simp del: pool_nth)
  then show ?thesis by (rule all_done_completed [OF core])
qed

text \<open>The programs at work keep their clients and the clients' numbers of threads.\<close>

lemma tracks_pair: "tracks f d s c \<Longrightarrow> \<exists>p L. c = (p, L) \<and> represents f d s (p, L) \<and> cluster_inv f d (p, L)"
  by (cases c) (simp add: tracks_def)

lemma work_step_threads:
  assumes step: "work_step f s s'" and t: "tracks f d s k" and peer: "peer s i = Some c"
  shows "\<exists>k' c'. tracks f d s' k' \<and> peer s' i = Some c' \<and> unat (max_threads c') = unat (max_threads c)"
proof -
  obtain p L where k: "represents f d s (p, L)" "cluster_inv f d (p, L)" using tracks_pair [OF t] by blast
  obtain k' where k': "represents f d s' k'" "cluster_work f d (p, L) k' \<or> k' = (p, L)"
    using work_step_sim [OF step k] by blast
  obtain p' L' where pl: "k' = (p', L')" by (cases k')
  have inv: "cluster_inv f d (p', L')" using k'(2) cluster_work_inv k(2) pl by blast
  obtain l where lk: "linked f d s (p, L) i c l" using linked_exists [OF k peer] by blast
  obtain l' where l': "L' i = Some l'" "length (work l') = length (work l)"
    using k'(2) cluster_work_slots [of f d p L p' L' i l] linkedD(4) [OF lk] by (auto simp: pl)
  obtain c' where c': "peer s' i = Some c'" using representsD(4) [OF k'(1) [unfolded pl], of i] l'(1)
    by (cases "peer s' i") auto
  obtain l'' where lk': "linked f d s' (p', L') i c' l''"
    using linked_exists [OF k'(1) [unfolded pl] inv c'] by blast
  have "unat (max_threads c') = unat (max_threads c)"
    using linked_client(5) [OF lk] linked_client(5) [OF lk'] linkedD(4) [OF lk'] l' by simp
  then show ?thesis using k'(1) inv c' by (auto simp: tracks_def pl)
qed

lemma work_steps_threads:
  assumes "(work_step f)\<^sup>*\<^sup>* s s'" and "tracks f d s k" and "peer s i = Some c"
  shows "\<exists>k' c'. tracks f d s' k' \<and> peer s' i = Some c' \<and> unat (max_threads c') = unat (max_threads c)"
  using assms
proof (induction rule: rtranclp_induct)
  case (step s1 s2)
  then obtain k1 c1 where "tracks f d s1 k1" "peer s1 i = Some c1" "unat (max_threads c1) = unat (max_threads c)" by blast
  then show ?case using work_step_threads [OF step.hyps(2)] by metis
qed blast

lemma maximal_run_completes:
  assumes t: "tracks f d s k" and peer: "peer s i = Some c"
    and threads: "0 < unat (max_threads c)" "unat (max_threads c) \<le> MAX_TASKS_PER_CLIENT"
    and run: "(work_step f)\<^sup>*\<^sup>* s s'" "\<nexists>s''. work_step f s' s''"
  shows "num_completed (srv s') = num_tasks (srv s')"
proof -
  obtain k' c' where k': "tracks f d s' k'" "peer s' i = Some c'" "unat (max_threads c') = unat (max_threads c)"
    using work_steps_threads [OF run(1) t peer] by blast
  obtain p L where "represents f d s' (p, L)" "cluster_inv f d (p, L)" using tracks_pair [OF k'(1)] by blast
  then show ?thesis using stuck_completed [OF _ _ run(2) k'(2)] threads k'(3) by simp
qed

end
