(* ===== verification/SystemSpec.thy ===== *)
theory SystemSpec
  imports SystemLive
begin

text \<open>
  The properties of the server and its clients together. \<open>system_start s0\<close> is a server as the
  initialisation leaves it, with every task to do and no client; \<open>f\<close> is the computation that
  every client makes, on the bytes of one task.
\<close>

lemma reached_tracks:
  assumes "system_start s0" and "system_steps f s0 s"
  shows "\<exists>p L. represents f (task_bytes (srv s0)) s (p, L) \<and> cluster_inv f (task_bytes (srv s0)) (p, L)"
  using sys.reaches_matching [OF assms(2) system_start_tracks [OF assms(1)]] by (auto simp: tracks_def)

lemma reached_results:
  assumes "system_start s0" and "system_steps f s0 s"
  shows "server_inv (srv s) \<and>
    (\<forall>t < unat (num_tasks (srv s)). task_status_of (srv s) t = COMPLETED \<longrightarrow>
      result_bytes (srv s) t = f (task_bytes (srv s0) t)) \<and>
    (num_completed (srv s) = num_tasks (srv s) \<longrightarrow>
      user_rets (srv s) = concat (map (\<lambda>t. f (task_bytes (srv s0) t)) [0..<unat (num_tasks (srv s))]))"
proof -
  let ?h = "srv s" let ?d = "task_bytes (srv s0)"
  obtain p L where "represents f ?d s (p, L)" "cluster_inv f ?d (p, L)"
    using reached_tracks [OF assms] by blast
  then have inv: "server_inv ?h" and pool: "pool_ok f ?d (pool ?h)"
    using representsD(1,2) cluster_invD(1) by auto
  have core: "core_inv ?h" by (rule server_inv_core [OF inv])
  have res: "result_bytes ?h t = f (?d t)" if "t < unat (num_tasks ?h)" "task_status_of ?h t = COMPLETED" for t
  proof -
    have "pool ?h ! t = Done (result_bytes ?h t)"
      using that core_inv_tasks [OF core] by (simp add: phase_def task_status_of_statuses)
    then show ?thesis using pool that(1) by (simp add: pool_ok_def)
  qed
  have "user_rets ?h = concat (map (\<lambda>t. f (?d t)) [0..<unat (num_tasks ?h)])" if "num_completed ?h = num_tasks ?h"
  proof -
    have "user_rets ?h = concat (map (result_bytes ?h) [0..<unat (num_tasks ?h)])"
      by (rule results_concat [OF core])
    also have "map (result_bytes ?h) [0..<unat (num_tasks ?h)] = map (\<lambda>t. f (?d t)) [0..<unat (num_tasks ?h)]"
      using res all_completed [OF core that] by (intro map_cong) simp_all
    finally show ?thesis .
  qed
  then show ?thesis using inv res by blast
qed

text \<open>
  C1: the cluster computes what it should: in every state that the system reaches, with any
  number of clients that join and leave, whatever the interleaving and however the streams are
  cut, a completed task has as its result the value of the computation on exactly that task's
  bytes; so when all tasks are completed, the caller's result buffer is the list of the results
  in the order of the tasks.
\<close>

theorem cluster_computes_results:
  assumes "system_start s0" and "system_steps f s0 s"
  shows "server_inv (srv s) \<and>
    (\<forall>t < unat (num_tasks (srv s)). task_status_of (srv s) t = COMPLETED \<longrightarrow>
      result_bytes (srv s) t = f (task_bytes (srv s0) t)) \<and>
    (num_completed (srv s) = num_tasks (srv s) \<longrightarrow>
      user_rets (srv s) = concat (map (\<lambda>t. f (task_bytes (srv s0) t)) [0..<unat (num_tasks (srv s))]))"
  by (rule reached_results [OF assms])

theorem cluster_computes_results_witness:
  "\<exists>c. system_steps doubles alone (pair (moment [3, 0, 0, 0, 0, 18] 0 1 (-1) COMPLETED 18) c [] []) \<and>
    user_rets (moment [3, 0, 0, 0, 0, 18] 0 1 (-1) COMPLETED 18) = doubles [9]"
proof -
  let ?h = "moment [3, 0, 0, 0, 0, 18] 0 1 (-1) COMPLETED 18"
  obtain c where c: "system_steps doubles alone (pair ?h c [] [])" using reaches_result by blast
  have h: "num_completed ?h = num_tasks ?h" "unat (num_tasks ?h) = 1" "task_bytes (srv alone) 0 = [9]"
    by (simp_all add: alone_def) code_simp+
  have "user_rets ?h = concat (map (\<lambda>t. doubles (task_bytes (srv alone) t)) [0..<unat (num_tasks ?h)])"
    using cluster_computes_results [OF alone_start c] h(1) by simp
  then show ?thesis using c h(2,3) by auto
qed



text \<open>
  C3: the composed programs refine the protocol: every state they reach stands for a state that
  the protocol reaches from the pool of open tasks and no links, and in which the accounts of all
  links are in order. In it, each request of a client is not yet made, under way, waiting at the
  server or answered by a task, and the tasks a connection holds are the ones under way to, in,
  or under way from its client.
\<close>

theorem system_refines_protocol:
  assumes "system_start s0" and "system_steps f s0 s"
  shows "\<exists>c. represents f (task_bytes (srv s0)) s c \<and> cluster_inv f (task_bytes (srv s0)) c \<and>
    (cluster_step f (task_bytes (srv s0)))\<^sup>*\<^sup>* (pool (srv s0), \<lambda>_. None) c"
  using sys.simulated_steps [OF assms(2) system_start_tracks [OF assms(1)]] by (auto simp: tracks_def)

theorem system_refines_protocol_witness:
  "\<exists>c l. system_steps doubles alone (pair (moment [2, 255, 255, 255, 255, 0] 0 1 (-1) NOT_RESOLVED 0) c [] []) \<and>
    in_step doubles (moment [2, 255, 255, 255, 255, 0] 0 1 (-1) NOT_RESOLVED 0) 0 c [] [] l \<and> wanted l = 1 \<and> balanced l"
proof -
  let ?h = "moment [2, 255, 255, 255, 255, 0] 0 1 (-1) NOT_RESOLVED 0"
  obtain c where c: "system_steps doubles alone (pair ?h c [] [])" using reaches_request by blast
  obtain p L where pl: "represents doubles (task_bytes (srv alone)) (pair ?h c [] []) (p, L)"
    "cluster_inv doubles (task_bytes (srv alone)) (p, L)"
    using system_refines_protocol [OF alone_start c] by auto
  obtain l where l: "L 0 = Some l" "in_step doubles ?h 0 c [] [] l"
    using representsD(5) [OF pl(1), of 0 c] by auto
  have "conn_view ?h 0 = Some (1, [])" by code_simp
  then have "wanted l = 1" using l(2) by (auto simp: in_step_def)
  moreover have "balanced l" using cluster_invD(2) [OF pl(2) l(1)] by (simp add: link_ok_def)
  ultimately show ?thesis using c l(2) by blast
qed



text \<open>
  C5: a request for a task is served: when a client with at most 16 threads waits for a task and
  there is one to do, the round of the send loop finds a cell for it in the connection's task list
  and sends it. (With more threads the list of 16 cells can be full, which is fatal.)
\<close>

theorem waiting_client_gets_task:
  assumes "system_start s0" and "system_steps f s0 s" and "peer s i = Some c" and "smooth E"
    and "unat (max_threads c) \<le> MAX_TASKS_PER_CLIENT"
    and "conn_view (srv s) i = Some (Suc n, xs)" and "num_not_resolved (srv s) \<noteq> 0"
  shows "\<exists>t w'. send_round E i \<lparr>hnd = srv s, trace = tr\<rparr> = Some (Inr None, w') \<and>
    t < length (pool (srv s)) \<and> pool (srv s) ! t = Todo \<and> pool (hnd w') = (pool (srv s))[t := Held i] \<and>
    sent_on (conn_socket (srv s) i) (trace w') = sent_on (conn_socket (srv s) i) tr @ [task_message (srv s) t]"
proof -
  obtain p L where t: "represents f (task_bytes (srv s0)) s (p, L)" "cluster_inv f (task_bytes (srv s0)) (p, L)"
    using reached_tracks [OF assms(1,2)] by blast
  obtain l where lk: "linked f (task_bytes (srv s0)) s (p, L) i c l" using linked_exists [OF t assms(3)] by blast
  have "wanted l \<noteq> 0" using linkedD(5) [OF lk] assms(6) by (auto simp: in_step_def)
  from can_give [OF lk this assms(5,7), where w = "\<lparr>hnd = srv s, trace = tr\<rparr>" and E = E] show ?thesis
    using assms(4) representsD(2) [OF t(1)] by auto
qed

theorem waiting_client_gets_task_witness:
  "\<exists>w'. send_round (handing []) 0 (boot (moment [2, 255, 255, 255, 255, 0] 0 1 (-1) NOT_RESOLVED 0)) = Some (Inr None, w') \<and>
    sent_on 0 (trace w') = [[4, 0, 0, 0, 0, 9]]"
proof -
  let ?h = "moment [2, 255, 255, 255, 255, 0] 0 1 (-1) NOT_RESOLVED 0"
  obtain c where c: "system_steps doubles alone (pair ?h c [] [])" "like_tiny c (0, [Idle])" using reaches_request by blast
  have h: "conn_view ?h 0 = Some (Suc 0, [])" "num_not_resolved ?h \<noteq> 0" "conn_socket ?h 0 = 0" "task_message ?h 0 = [4, 0, 0, 0, 0, 9]"
    "length (pool ?h) = 1" by code_simp+
  have m: "unat (max_threads c) \<le> MAX_TASKS_PER_CLIENT" using c(2) by (simp add: like_tiny_def MAX_TASKS_PER_CLIENT_def)
  have "\<exists>t w'. send_round (handing []) 0 \<lparr>hnd = ?h, trace = []\<rparr> = Some (Inr None, w') \<and>
      t < length (pool ?h) \<and> sent_on (conn_socket ?h 0) (trace w') = sent_on (conn_socket ?h 0) [] @ [task_message ?h t]"
    using waiting_client_gets_task [OF alone_start c(1) _ _ m, where i = 0 and n = 0 and xs = "[]" and tr = "[]" and E = "handing []"] h(1,2) smooth_hands
    by simp blast
  then obtain t w' where w': "send_round (handing []) 0 \<lparr>hnd = ?h, trace = []\<rparr> = Some (Inr None, w')"
      "t < 1" "sent_on (conn_socket ?h 0) (trace w') = sent_on (conn_socket ?h 0) [] @ [task_message ?h t]"
    unfolding h(5) by blast
  then have "sent_on 0 (trace w') = [[4, 0, 0, 0, 0, 9]]" using h(3,4) by (simp add: sent_on_def)
  then show ?thesis using w'(1) unfolding boot_def by blast
qed

end
