(* ===== verification/Logging.thy ===== *)
theory Logging
  imports Machine
begin

text \<open>
  cluster-api/Logging.h and logging.c: the log file and the macros that write to it. The other
  theories leave \<open>LOG\<close> out and treat \<open>LOG_ERROR\<close> followed by \<open>exit\<close> and \<open>BUG_ON\<close> as the ways to
  stop; here are the macros themselves, with every library call they make, and what justifies
  that treatment. \<open>log_fd\<close> is the static variable of one translation unit (the function that
  holds it is itself static, in a header), \<open>LOG_FILE\<close> the global name.
\<close>

section \<open>State and texts\<close>

record logger =
  LOG_FILE :: string
  log_fd :: int

definition newline :: string where
  "newline = [CHR 0x0A]"

definition text_of :: "u8 list \<Rightarrow> string" where
  "text_of bs = map (\<lambda>b. char_of (unat b)) bs"

text \<open>\<open>%06ld\<close>, for a number of microseconds below one million.\<close>

definition six_digits :: "int \<Rightarrow> string" where
  "six_digits n = map (\<lambda>k. char_of (48 + nat (n div 10 ^ k mod 10))) [5, 4, 3, 2, 1, 0]"

text \<open>The time as the messages show it: \<open>%s:%06ld\<close>.\<close>

definition stamp_text :: "string \<times> int \<Rightarrow> string" where
  "stamp_text t = fst t @ '':'' @ six_digits (snd t)"

section \<open>The operations\<close>

text \<open>A message on the standard error stream, and the exit that follows the fatal ones.\<close>

definition complain :: "env \<Rightarrow> string \<Rightarrow> (logger, unit) prog" where
  "complain E msg = bind (call E (Fprintf msg)) (\<lambda>_. return ())"

definition dprintf :: "env \<Rightarrow> int \<Rightarrow> string \<Rightarrow> (logger, unit) prog" where
  "dprintf E fd msg = bind (call E (Dprintf fd msg)) (\<lambda>_. return ())"

definition exit_if :: "env \<Rightarrow> bool \<Rightarrow> string \<Rightarrow> (logger, unit) prog" where
  "exit_if E c msg = (if c then andthen (complain E (msg @ newline)) (halt (Fatal msg)) else return ())"

text \<open>The clock calls, which the function and the three macros repeat.\<close>

definition time_stamp :: "env \<Rightarrow> (logger, string \<times> int) prog" where
  "time_stamp E =
     bind (call E Gettimeofday) (\<lambda>tv.
     andthen (exit_if E (r_ret tv = -1) ''[ERROR] Unable to get time of day'')
     (bind (call E (Localtime (r_value tv div 1000000))) (\<lambda>tm.
     andthen (exit_if E (r_ret tm = 0) ''[ERROR] Unable to get broken-down time'')
     (bind (call E (Strftime 128 ''%Y-%m-%d %H:%M:%S'')) (\<lambda>buf.
     andthen (exit_if E (r_ret buf = 0) ''[ERROR] Unable to get a nice readable time string'')
     (return (text_of (r_data buf), r_value tv mod 1000000)))))))"

definition open_log :: "env \<Rightarrow> string \<times> int \<Rightarrow> (logger, unit) prog" where
  "open_log E t =
     bind (get LOG_FILE) (\<lambda>file.
     bind (call E (Open file (O_WRONLY OR O_CREAT) 384)) (\<lambda>r. block
      [modify (\<lambda>h. h\<lparr>log_fd := r_ret r\<rparr>),
       exit_if E (r_ret r = -1) (''[ERROR '' @ stamp_text t @ ''] Unable to open log file '' @ file),
       dprintf E (r_ret r) (''[LOG '' @ stamp_text t @ ''] Opened log file '' @ file @ newline)]))"

definition close_log :: "env \<Rightarrow> string \<times> int \<Rightarrow> (logger, unit) prog" where
  "close_log E t =
     bind (get LOG_FILE) (\<lambda>file.
     bind (get log_fd) (\<lambda>fd. andthen (dprintf E fd (''[LOG '' @ stamp_text t @ ''] Closed log file '' @ file @ newline))
     (bind (call E (Close fd)) (\<lambda>_. modify (\<lambda>h. h\<lparr>log_fd := -1\<rparr>)))))"

text \<open>A format that begins with the at sign asks for the log to be closed; \<open>None\<close> is a null format.\<close>

definition asks_to_close :: "string option \<Rightarrow> bool" where
  "asks_to_close format = (case format of Some (c # _) \<Rightarrow> c = CHR ''@'' | _ \<Rightarrow> False)"

definition acquire_log_fd :: "env \<Rightarrow> string option \<Rightarrow> (logger, int) prog" where
  "acquire_log_fd E input_format =
     bind (time_stamp E) (\<lambda>t.
     andthen (bind (get log_fd) (\<lambda>fd. if fd = -1 then open_log E t else return ()))
     (andthen (bind (get log_fd) (\<lambda>fd.
        if asks_to_close input_format \<and> fd \<noteq> -1 then close_log E t else return ()))
     (get log_fd)))"

text \<open>
  The macros; \<open>msg\<close> is the format with its arguments filled in. \<open>LOG\<close> has the call of
  \<open>acquire_log_fd\<close> commented out and writes to descriptor 1.
\<close>

definition LOG :: "env \<Rightarrow> string \<Rightarrow> (logger, unit) prog" where
  "LOG E msg =
     bind (time_stamp E) (\<lambda>t. block
      [dprintf E STDOUT (''[LOG '' @ stamp_text t @ ''] ''), dprintf E STDOUT msg, dprintf E STDOUT newline])"

definition report :: "env \<Rightarrow> string \<Rightarrow> string \<Rightarrow> string \<Rightarrow> (logger, unit) prog" where
  "report E kind format msg =
     bind (acquire_log_fd E (Some format)) (\<lambda>_.
     bind (time_stamp E) (\<lambda>t. block
      [complain E (kind @ stamp_text t @ '']''), complain E msg, complain E newline]))"

definition LOG_ERROR :: "env \<Rightarrow> string \<Rightarrow> string \<Rightarrow> (logger, unit) prog" where
  "LOG_ERROR E format msg = report E ''[ERROR '' format msg"

definition BUG_ON :: "env \<Rightarrow> bool \<Rightarrow> string \<Rightarrow> string \<Rightarrow> (logger, unit) prog" where
  "BUG_ON E condition format msg =
     (if condition then andthen (report E ''[BUG '' format msg) (halt (Bug msg)) else return ())"

definition set_log_file :: "env \<Rightarrow> string option \<Rightarrow> (logger, unit) prog" where
  "set_log_file E log_file = (case log_file of
      None \<Rightarrow> bind (call E Time) (\<lambda>t. bind (call E (Ctime (r_value t))) (\<lambda>s.
        exit_if E True (''[ERROR '' @ text_of (r_data s) @ [CHR 0x0D] @ ''][set_log_file] Null log file name'')))
    | Some f \<Rightarrow> andthen (modify (\<lambda>h. h\<lparr>LOG_FILE := f\<rparr>)) (LOG E (''Changed log file to '' @ f)))"

end
