(* ===== verification/LoggingSpec.thy ===== *)
theory LoggingSpec
  imports Logging Kernels
begin

text \<open>
  What the logging macros guarantee: how the log descriptor is used, over any sequence of their
  uses, and that an error report always ends the process.
\<close>

section \<open>The log descriptor, as the history of calls shows it\<close>

text \<open>
  The descriptor after a call, from the one before: a file is opened only while none is open, the
  open one is closed, and what is written goes to it or to the standard output. \<open>None\<close> is a
  misuse: a descriptor that is lost, closed twice, or written after its end.
\<close>

fun descriptor_after :: "syscall \<Rightarrow> sysret \<Rightarrow> int \<Rightarrow> int option" where
  "descriptor_after (Open file flags mode) r fd = (if fd = -1 then Some (r_ret r) else None)"
| "descriptor_after (Close x) r fd = (if x = fd \<and> fd \<noteq> -1 then Some (-1) else None)"
| "descriptor_after (Dprintf x msg) r fd = (if x = STDOUT \<or> x = fd \<and> fd \<noteq> -1 then Some fd else None)"
| "descriptor_after _ r fd = Some fd"

definition descriptor_in :: "trace \<Rightarrow> int option" where
  "descriptor_in tr = foldl (\<lambda>s e. Option.bind s (descriptor_after (fst e) (snd e))) (Some (-1)) tr"

lemma descriptor_in_simps [simp]:
  "descriptor_in [] = Some (-1)"
  "descriptor_in (tr @ (c, r) # es) = foldl (\<lambda>s e. Option.bind s (descriptor_after (fst e) (snd e)))
     (Option.bind (descriptor_in tr) (descriptor_after c r)) es"
  by (simp_all add: descriptor_in_def)

definition tracked :: "logger world \<Rightarrow> bool" where
  "tracked w \<longleftrightarrow> descriptor_in (trace w) = Some (log_fd (hnd w))"

text \<open>A step is one use of an operation, from any place of the translation unit.\<close>

inductive log_step :: "env \<Rightarrow> logger world \<Rightarrow> logger world \<Rightarrow> bool" for E where
  acquires: "acquire_log_fd E format w = Some (r, w') \<Longrightarrow> log_step E w w'"
| logs: "LOG E msg w = Some (r, w') \<Longrightarrow> log_step E w w'"
| errs: "LOG_ERROR E fmt msg w = Some (r, w') \<Longrightarrow> log_step E w w'"
| finds_bug: "BUG_ON E c fmt msg w = Some (r, w') \<Longrightarrow> log_step E w w'"
| renames: "set_log_file E name w = Some (r, w') \<Longrightarrow> log_step E w w'"

definition unopened :: "logger world" where
  "unopened = \<lparr>hnd = \<lparr>LOG_FILE = ''LOG.log'', log_fd = -1\<rparr>, trace = []\<rparr>"

section \<open>The operations keep the descriptor tracked\<close>

definition keeps_track :: "(logger, 'a) prog \<Rightarrow> bool" where
  "keeps_track m \<longleftrightarrow> (\<forall>w. tracked w \<longrightarrow> wpg False m (\<lambda>_. tracked) (\<lambda>_. tracked) w)"

lemma keeps_trackI: "(\<And>w. tracked w \<Longrightarrow> wpg False m (\<lambda>_. tracked) (\<lambda>_. tracked) w) \<Longrightarrow> keeps_track m"
  by (simp add: keeps_track_def)

lemma keeps_trackD: "keeps_track m \<Longrightarrow> tracked w \<Longrightarrow> m w = Some (r, w') \<Longrightarrow> tracked w'"
  by (cases r) (auto simp: keeps_track_def wpg_def dest!: spec [of _ w])

lemma keeps_track_bind:
  assumes "keeps_track m"
  shows "(\<And>x. keeps_track (f x)) \<Longrightarrow> keeps_track (bind m f)"
    and "keeps_track n \<Longrightarrow> keeps_track (andthen m n)"
proof -
  note mono = wpg_mono [of False m "\<lambda>_. tracked" "\<lambda>_. tracked"]
  show "(\<And>x. keeps_track (f x)) \<Longrightarrow> keeps_track (bind m f)"
    by (intro keeps_trackI, unfold wpg_bind, rule mono) (use assms in \<open>auto simp: keeps_track_def\<close>)
  show "keeps_track n \<Longrightarrow> keeps_track (andthen m n)"
    by (intro keeps_trackI, unfold wpg_andthen, rule mono) (use assms in \<open>auto simp: keeps_track_def\<close>)
qed

lemma keeps_track_block: "(\<And>m. m \<in> set ms \<Longrightarrow> keeps_track m) \<Longrightarrow> keeps_track (block ms)"
  by (induction ms) (simp_all add: keeps_track_bind, simp add: keeps_track_def wp)

text \<open>The calls that have nothing to do with the descriptor, and what is made of them.\<close>

lemma keeps_track_call: "(\<And>r fd. descriptor_after c r fd = Some fd) \<Longrightarrow> keeps_track (call E c)"
  by (auto simp: keeps_track_def tracked_def wp)

lemma keeps_track_simple:
  "keeps_track (return x)" "keeps_track (halt e)" "keeps_track (get g)"
  "keeps_track (modify (\<lambda>h. h\<lparr>LOG_FILE := f\<rparr>))"
  by (auto simp: keeps_track_def tracked_def wp)

lemma keeps_track_complain: "keeps_track (complain E msg)"
  unfolding complain_def by (intro keeps_track_bind keeps_track_call keeps_track_simple) simp

lemma keeps_track_exit_if: "keeps_track (exit_if E c msg)"
  unfolding exit_if_def by (auto intro: keeps_track_bind keeps_track_complain keeps_track_simple)

lemma keeps_track_stdout: "keeps_track (dprintf E STDOUT msg)"
  unfolding dprintf_def by (intro keeps_track_bind keeps_track_call keeps_track_simple) simp

lemma keeps_track_time_stamp: "keeps_track (time_stamp E)"
  unfolding time_stamp_def
  by (intro keeps_track_bind keeps_track_call keeps_track_simple keeps_track_exit_if; simp)

lemmas keeps_track_intros = keeps_track_bind keeps_track_block keeps_track_simple keeps_track_complain
  keeps_track_exit_if keeps_track_stdout keeps_track_time_stamp

lemma keeps_track_acquire: "keeps_track (acquire_log_fd E format)"
proof -
  have open_it: "keeps_track (bind (get log_fd) (\<lambda>fd. if fd = -1 then open_log E t else return ()))" for t
    by (rule keeps_trackI) (simp add: tracked_def open_log_def wp exit_if_def complain_def dprintf_def)
  have close_it: "keeps_track (bind (get log_fd) (\<lambda>fd. if asks_to_close format \<and> fd \<noteq> -1 then close_log E t else return ()))" for t
    by (rule keeps_trackI) (simp add: tracked_def close_log_def wp dprintf_def)
  show ?thesis
    unfolding acquire_log_fd_def by (intro keeps_track_intros open_it close_it)
qed

lemma keeps_track_report: "keeps_track (report E kind format msg)"
  unfolding report_def
  by (intro keeps_track_intros keeps_track_acquire) (auto intro: keeps_track_complain)

lemma keeps_track_LOG: "keeps_track (LOG E msg)"
  unfolding LOG_def by (intro keeps_track_intros) (auto intro: keeps_track_stdout)

lemma log_step_tracked: "log_step E w w' \<Longrightarrow> tracked w \<Longrightarrow> tracked w'"
proof (induction rule: log_step.induct)
  case (finds_bug c fmt msg w r w')
  moreover have "keeps_track (BUG_ON E c fmt msg)"
    by (auto simp: BUG_ON_def intro: keeps_track_intros keeps_track_report)
  ultimately show ?case using keeps_trackD by blast
next
  case (renames name w r w')
  moreover have "keeps_track (set_log_file E name)"
    unfolding set_log_file_def
    by (cases name) (auto intro!: keeps_track_intros keeps_track_call keeps_track_LOG)
  ultimately show ?case using keeps_trackD by blast
qed (auto simp: LOG_ERROR_def intro: keeps_trackD keeps_track_acquire keeps_track_LOG keeps_track_report)

lemma log_steps_tracked: "(log_step E)\<^sup>*\<^sup>* unopened w \<Longrightarrow> tracked w"
  by (induction rule: rtranclp_induct) (auto simp: unopened_def tracked_def intro: log_step_tracked [unfolded tracked_def])

section \<open>An error report ends the process\<close>

text \<open>What a report can do before its own message: nothing but stop in \<open>exit(EXIT_FAILURE)\<close>.\<close>

lemma wpg_time_stamp_stops:
  "wpg False (time_stamp E) (\<lambda>_ _. True) (\<lambda>e _. \<exists>m. e = Fatal m) w"
  by (simp add: time_stamp_def wp exit_if_def complain_def)

lemma wpg_acquire_stops:
  "wpg False (acquire_log_fd E format) (\<lambda>_ _. True) (\<lambda>e _. \<exists>m. e = Fatal m) w"
  by (simp add: acquire_log_fd_def open_log_def close_log_def wp exit_if_def complain_def dprintf_def time_stamp_def)

text \<open>If it returns, its message is the last that the history shows.\<close>

definition reported :: "string \<Rightarrow> string \<Rightarrow> logger world \<Rightarrow> bool" where
  "reported kind msg w \<longleftrightarrow> (\<exists>t cs. map fst (trace w) =
     cs @ [Fprintf (kind @ stamp_text t @ '']''), Fprintf msg, Fprintf newline])"

lemma wpg_report:
  "wpg False (report E kind format msg) (\<lambda>_. reported kind msg) (\<lambda>e _. \<exists>m. e = Fatal m) w"
  unfolding report_def wpg_bind
  by (rule wpg_mono [OF wpg_acquire_stops], rule wpg_mono [OF wpg_time_stamp_stops])
    (auto simp: wp complain_def reported_def)


text \<open>With a clock and a log file; the log is opened by the first error and closed by the second.\<close>

fun clocked :: "syscall \<Rightarrow> sysret" where
  "clocked (Localtime t) = answer 1"
| "clocked (Strftime n fmt) = (answer 19)\<lparr>r_data := [52]\<rparr>"
| "clocked (Open file flags mode) = answer 3"
| "clocked c = obliging c"

definition after_error :: "string \<Rightarrow> logger world \<Rightarrow> logger world" where
  "after_error format w = snd (the (LOG_ERROR (scripted clocked) format format w))"

lemma clocked_errors:
  "log_step (scripted clocked) unopened (after_error ''a'' unopened)"
  "log_step (scripted clocked) (after_error ''a'' unopened) (after_error ''@'' (after_error ''a'' unopened))"
  "log_fd (hnd (after_error ''a'' unopened)) = 3"
  "log_fd (hnd (after_error ''@'' (after_error ''a'' unopened))) = -1"
proof -
  have "LOG_ERROR (scripted clocked) ''a'' ''a'' unopened \<noteq> None"
    "LOG_ERROR (scripted clocked) ''@'' ''@'' (after_error ''a'' unopened) \<noteq> None" by code_simp+
  then show "log_step (scripted clocked) unopened (after_error ''a'' unopened)"
    "log_step (scripted clocked) (after_error ''a'' unopened) (after_error ''@'' (after_error ''a'' unopened))"
    unfolding after_error_def by (auto intro: log_step.errs)
qed code_simp+


end
