(* ===== verification/Doubles.thy ===== *)
theory Doubles
  imports Wire
begin

text \<open>
  The C type \<open>double\<close> as the 64 bits of an IEEE binary64 number, which is how the integral
  programs send it over the network. The comparisons are defined on the bits. C leaves the
  accuracy of the arithmetic to the implementation, so it is a parameter: an \<open>fpu\<close>.
\<close>

section \<open>Numbers\<close>

type_synonym double = u64

record fpu =
  fadd :: "double \<Rightarrow> double \<Rightarrow> double"
  fsub :: "double \<Rightarrow> double \<Rightarrow> double"
  fmul :: "double \<Rightarrow> double \<Rightarrow> double"
  fdiv :: "double \<Rightarrow> double \<Rightarrow> double"
  of_size :: "size_t \<Rightarrow> double"

text \<open>The bits below the sign; above those of the infinities they make a NaN.\<close>

definition magnitude :: "double \<Rightarrow> u64" where
  "magnitude x = x AND 0x7FFFFFFFFFFFFFFF"

definition is_nan :: "double \<Rightarrow> bool" where
  "is_nan x \<longleftrightarrow> 0x7FF0000000000000 < magnitude x"

text \<open>The order of the numbers is that of the magnitudes, reversed below zero; both zeros are equal.\<close>

definition rank :: "double \<Rightarrow> int" where
  "rank x = (if bit x 63 then - uint (magnitude x) else uint (magnitude x))"

definition flt :: "double \<Rightarrow> double \<Rightarrow> bool" where
  "flt x y \<longleftrightarrow> \<not> is_nan x \<and> \<not> is_nan y \<and> rank x < rank y"

definition feq :: "double \<Rightarrow> double \<Rightarrow> bool" where
  "feq x y \<longleftrightarrow> \<not> is_nan x \<and> \<not> is_nan y \<and> rank x = rank y"

lemma feq_self [simp]: "feq x x \<longleftrightarrow> \<not> is_nan x"
  by (simp add: feq_def)

lemma flt_rank: "flt x y \<Longrightarrow> rank x < rank y"
  by (simp add: flt_def)

section \<open>Byte order\<close>

definition be_bytes64 :: "u64 \<Rightarrow> u8 list" where
  "be_bytes64 w = be_bytes (ucast (drop_bit 32 w)) @ be_bytes (ucast w)"

definition u64_of_be :: "u8 list \<Rightarrow> u64" where
  "u64_of_be bs = push_bit 32 (ucast (u32_of_be (take 4 bs))) OR ucast (u32_of_be (drop 4 bs))"

text \<open>Reading a 64-bit value from memory, and \<open>htobe64\<close> of endian.h.\<close>

definition u64_of_mem :: "endian \<Rightarrow> u8 list \<Rightarrow> u64" where
  "u64_of_mem e bs = (case e of LittleEndian \<Rightarrow> u64_of_be (rev bs) | BigEndian \<Rightarrow> u64_of_be bs)"

definition bswap64 :: "u64 \<Rightarrow> u64" where
  "bswap64 w = u64_of_be (rev (be_bytes64 w))"

definition htobe64 :: "endian \<Rightarrow> u64 \<Rightarrow> u64" where
  "htobe64 e w = (case e of LittleEndian \<Rightarrow> bswap64 w | BigEndian \<Rightarrow> w)"

lemma mem_of_u64_eq: "mem_of_u64 e w = (case e of LittleEndian \<Rightarrow> rev (be_bytes64 w) | BigEndian \<Rightarrow> be_bytes64 w)"
  by (cases e) (simp_all add: mem_of_u64_def be_bytes64_def)

lemma length_be_bytes64 [simp]: "length (be_bytes64 w) = 8"
  by (simp add: be_bytes64_def)

lemma length_mem_of_u64 [simp]: "length (mem_of_u64 e w) = 8"
  by (cases e) (simp_all add: mem_of_u64_eq)

lemma u64_of_be_bytes [simp]: "u64_of_be (be_bytes64 w) = w"
proof (rule bit_word_eqI)
  fix n
  assume "n < LENGTH(64)"
  then show "bit (u64_of_be (be_bytes64 w)) n = bit w n"
    by (cases "n < 32") (auto simp: u64_of_be_def be_bytes64_def bit_simps)
qed

lemma u64_of_mem_mem [simp]: "u64_of_mem e (mem_of_u64 e w) = w"
  by (cases e) (simp_all add: u64_of_mem_def mem_of_u64_eq)

lemma bit_u32_beyond: "32 \<le> n \<Longrightarrow> \<not> bit (x :: u32) n"
  using bit_imp_le_length [of x n] by auto

lemma be_bytes64_bswap64: "be_bytes64 (bswap64 w) = rev (be_bytes64 w)"
proof -
  let ?lo = "bswap32 (ucast w)" and ?hi = "bswap32 (ucast (drop_bit 32 w))"
  have rev: "rev (be_bytes64 w) = be_bytes ?lo @ be_bytes ?hi"
    by (simp add: be_bytes64_def be_bytes_bswap32)
  then have b: "bswap64 w = push_bit 32 (ucast ?lo) OR ucast ?hi"
    by (simp add: bswap64_def u64_of_be_def)
  have "ucast (drop_bit 32 (bswap64 w)) = ?lo" "ucast (bswap64 w) = ?hi"
    unfolding b by (auto intro!: bit_word_eqI simp: bit_simps bit_u32_beyond)
  then show ?thesis by (simp add: be_bytes64_def [of "bswap64 w"] rev)
qed

text \<open>A value in network order has the same bytes on every host, and every host reads it back.\<close>

lemma mem_htobe64: "mem_of_u64 e (htobe64 e w) = be_bytes64 w"
  by (cases e) (simp_all add: mem_of_u64_eq htobe64_def be_bytes64_bswap64)

lemma htobe64_mem: "htobe64 e (u64_of_mem e (be_bytes64 w)) = w"
proof -
  have "bswap64 (bswap64 w) = w" by (simp add: bswap64_def [of "bswap64 w"] be_bytes64_bswap64)
  then have "htobe64 e (htobe64 e w) = w" by (cases e) (simp_all add: htobe64_def)
  moreover have "u64_of_mem e (be_bytes64 w) = htobe64 e w"
    using u64_of_mem_mem [of e "htobe64 e w"] by (simp add: mem_htobe64)
  ultimately show ?thesis by simp
qed

end
