(* ===== verification/Integral.thy ===== *)
theory Integral
  imports Doubles ServerLoop ClientLoop
begin

text \<open>
  integral-computation/: the two programs that use the cluster. The server cuts the interval from
  1 to 81 into twelve tasks and adds up their results, a client integrates one task by the
  trapezoid rule. As in the rest of the development \<open>LOG\<close> and \<open>set_log_file\<close> are left out.
\<close>

section \<open>Tasks in memory\<close>

record task_data =
  start_of :: double
  end_of :: double
  step_of :: double

text \<open>The layout of \<open>struct task_data\<close> and the array of them; \<open>struct ret_data\<close> is one double.\<close>

definition sizeof_task_data :: nat where "sizeof_task_data = 24"
definition sizeof_ret_data :: nat where "sizeof_ret_data = 8"

definition task_data_bytes :: "endian \<Rightarrow> task_data \<Rightarrow> u8 list" where
  "task_data_bytes e t = mem_of_u64 e (start_of t) @ mem_of_u64 e (end_of t) @ mem_of_u64 e (step_of t)"

definition parse_task_data :: "endian \<Rightarrow> u8 list \<Rightarrow> task_data" where
  "parse_task_data e bs = \<lparr>start_of = u64_of_mem e (slice 0 8 bs), end_of = u64_of_mem e (slice 8 8 bs),
     step_of = u64_of_mem e (slice 16 8 bs)\<rparr>"

definition fix_endianness :: "endian \<Rightarrow> task_data \<Rightarrow> task_data" where
  "fix_endianness e t = \<lparr>start_of = htobe64 e (start_of t), end_of = htobe64 e (end_of t),
     step_of = htobe64 e (step_of t)\<rparr>"

section \<open>The server program\<close>

definition NUM_TASKS :: size_t where "NUM_TASKS = 12"
definition start_point :: double where "start_point = 0x3FF0000000000000"
definition end_point :: double where "end_point = 0x4054400000000000"
definition diff :: double where "diff = 0x3E45798EE2308C3A"

definition diap :: "fpu \<Rightarrow> double" where
  "diap F = fdiv F (fsub F end_point start_point) (of_size F NUM_TASKS)"

definition make_task :: "fpu \<Rightarrow> nat \<Rightarrow> task_data" where
  "make_task F i =
     \<lparr>start_of = fadd F start_point (fmul F (of_size F (of_nat i)) (diap F)),
      end_of = fadd F start_point (fmul F (of_size F (of_nat i + 1)) (diap F)),
      step_of = diff\<rparr>"

text \<open>The loop that fills the array, over the zeros that \<open>calloc\<close> leaves.\<close>

definition fill_tasks :: "fpu \<Rightarrow> endian \<Rightarrow> task_data list" where
  "fill_tasks F e = fold (\<lambda>i buff. buff[i := fix_endianness e (make_task F i)]) [0..<unat NUM_TASKS]
     (replicate (unat NUM_TASKS) \<lparr>start_of = 0, end_of = 0, step_of = 0\<rparr>)"

definition task_buff :: "fpu \<Rightarrow> endian \<Rightarrow> u8 list" where
  "task_buff F e = concat (map (task_data_bytes e) (fill_tasks F e))"

text \<open>The loop over the results; a number that differs from itself is a NaN.\<close>

definition ret_val :: "endian \<Rightarrow> u8 list \<Rightarrow> nat \<Rightarrow> double" where
  "ret_val e rets i = u64_of_mem e (slice (i * sizeof_ret_data) sizeof_ret_data rets)"

fun sum_results :: "env \<Rightarrow> fpu \<Rightarrow> nat list \<Rightarrow> double \<Rightarrow> (server, double) prog" where
  "sum_results E F [] result = return result"
| "sum_results E F (i # is) result =
     bind (get (\<lambda>h. ret_val (host E) (user_rets h) i)) (\<lambda>v.
     andthen (bug_on (\<not> feq v v) ''[return loop] ret_val of task is NAN'')
     (sum_results E F is (fadd F result v)))"

text \<open>\<open>main\<close>: the value is the number that the last \<open>LOG\<close> shows, with the exit status.\<close>

definition server_main :: "env \<Rightarrow> fpu \<Rightarrow> (nat \<Rightarrow> ServerState.connection) \<Rightarrow> int \<Rightarrow> (server, double \<times> int) prog" where
  "server_main E F raw argc =
     andthen (fail_if (argc \<noteq> 1) ''Usage: computation-client'')
     (bind (call E (Calloc UserTasks NUM_TASKS (of_nat sizeof_task_data))) (\<lambda>p.
      andthen (bug_on (r_ret p = 0) ''[computation-server] Alloc tasks_buffer'')
     (bind (call E (Calloc UserRets NUM_TASKS (of_nat sizeof_ret_data))) (\<lambda>q.
      andthen (bug_on (r_ret q = 0) ''[computation-server] Alloc tasks_buffer'')
     (bind (compute_task E raw NUM_TASKS (Some (task_buff F (host E))) (of_nat sizeof_task_data)
              (Some (replicate (unat NUM_TASKS * sizeof_ret_data) 0)) (of_nat sizeof_ret_data)) (\<lambda>ret.
      andthen (fail_if (ret < 0) ''[compute_task] Code error'')
     (bind (call E (Free UserTasks)) (\<lambda>_.
      bind (sum_results E F [0..<unat NUM_TASKS] 0) (\<lambda>result.
      bind (call E (Free UserRets)) (\<lambda>_.
      return (result, 0)))))))))))"

section \<open>The client program\<close>

definition func :: "fpu \<Rightarrow> double \<Rightarrow> double" where
  "func F x = fmul F x x"

definition two :: double where
  "two = 0x4000000000000000"

text \<open>The \<open>for\<close> loop from \<open>x\<close>; it is \<open>None\<close> if it runs forever.\<close>

partial_function (option) add_inner :: "fpu \<Rightarrow> double \<Rightarrow> double \<Rightarrow> double \<Rightarrow> double \<Rightarrow> double option" where
  "add_inner F bound delta x acc =
     (if flt x bound then add_inner F bound delta (fadd F x delta) (fadd F acc (fmul F (func F x) delta))
      else Some acc)"

declare add_inner.simps [code]

definition add_ends :: "fpu \<Rightarrow> task_data \<Rightarrow> double \<Rightarrow> double" where
  "add_ends F t acc =
     fadd F (fadd F acc (fdiv F (fmul F (func F (start_of t)) (step_of t)) two))
            (fdiv F (fmul F (func F (end_of t)) (step_of t)) two)"

definition trapezoid :: "fpu \<Rightarrow> task_data \<Rightarrow> double option" where
  "trapezoid F t = map_option (add_ends F t)
     (add_inner F (end_of t) (step_of t) (fadd F (start_of t) (step_of t)) 0)"

text \<open>
  \<open>integral_thread\<close>, from the bytes of the task to those of its result. \<open>None\<close> stands for a null
  pointer: that of the argument, or the one inside it.
\<close>

definition integral_thread :: "fpu \<Rightarrow> endian \<Rightarrow> u8 list option option \<Rightarrow> (stop + u8 list) option" where
  "integral_thread F e arg = (case arg of
      None \<Rightarrow> Some (Inl (Bug ''[integral_thread] Bad argument''))
    | Some None \<Rightarrow> Some (Inl (Bug ''[integral_thread] Bad argument''))
    | Some (Some bytes) \<Rightarrow>
        map_option (\<lambda>s. Inr (mem_of_u64 e s)) (trapezoid F (fix_endianness e (parse_task_data e bytes))))"

text \<open>As the computation that the cluster runs, where it returns.\<close>

definition integral :: "fpu \<Rightarrow> endian \<Rightarrow> u8 list \<Rightarrow> u8 list" where
  "integral F e bs = (case integral_thread F e (Some (Some bs)) of Some (Inr r) \<Rightarrow> r | _ \<Rightarrow> [])"

text \<open>
  \<open>strtoll\<close> in base ten: the number, which saturates, and the rest of the text; the whole text
  where there is no number.
\<close>

definition is_space :: "char \<Rightarrow> bool" where
  "is_space c \<longleftrightarrow> c \<in> {CHR '' '', CHR 0x09, CHR 0x0A, CHR 0x0B, CHR 0x0C, CHR 0x0D}"

definition is_digit :: "char \<Rightarrow> bool" where
  "is_digit c \<longleftrightarrow> 48 \<le> (of_char c :: int) \<and> (of_char c :: int) \<le> 57"

definition digits_value :: "string \<Rightarrow> int" where
  "digits_value ds = foldl (\<lambda>n c. 10 * n + (of_char c - 48)) 0 ds"

definition split_sign :: "string \<Rightarrow> bool \<times> string" where
  "split_sign s = (case s of c # cs \<Rightarrow>
       if c = CHR ''-'' then (True, cs) else if c = CHR ''+'' then (False, cs) else (False, s)
     | [] \<Rightarrow> (False, s))"

definition strtoll :: "string \<Rightarrow> int \<times> string" where
  "strtoll s =
     (let (minus, s') = split_sign (dropWhile is_space s); ds = takeWhile is_digit s' in
      if ds = [] then (0, s)
      else (max (- (2 ^ 63)) (min (2 ^ 63 - 1) (if minus then - digits_value ds else digits_value ds)),
            dropWhile is_digit s'))"

definition client_main :: "env \<Rightarrow> fpu \<Rightarrow> thread_info \<Rightarrow> string list \<Rightarrow> (client, int) prog" where
  "client_main E F raw argv =
     andthen (fail_if (length argv \<noteq> 2 \<and> length argv \<noteq> 3)
       ''Usage: computation-client <number of worker threads> [<server hostname>]'')
     (let (num_thr, rest) = strtoll (argv ! 1) in
      andthen (fail_if (argv ! 1 = [] \<or> rest \<noteq> []) ''Usage: Invalid number of worker threads'')
     (andthen (client_compute E raw (of_int num_thr) (of_nat sizeof_task_data) (of_nat sizeof_ret_data)
        (Some (integral F (host E))) (if length argv = 3 then Some (argv ! 2) else None))
     (return 0)))"

end
