(* ===== verification/IntegralSpec.thy ===== *)
theory IntegralSpec
  imports Integral Scenarios
begin

text \<open>
  The integral programs compute what they should: a client, on a host of any byte order, applies
  the trapezoid rule to the very interval that the server's program wrote, and the server adds up
  the results in the order of the tasks.
\<close>

section \<open>The inner nodes of the trapezoid rule\<close>

definition node :: "fpu \<Rightarrow> double \<Rightarrow> double \<Rightarrow> nat \<Rightarrow> double" where
  "node F delta x k = ((\<lambda>y. fadd F y delta) ^^ k) x"

lemma node_simps [simp]:
  "node F delta x 0 = x" "node F delta (fadd F x delta) k = node F delta x (Suc k)"
  by (simp_all add: node_def funpow_swap1 [of "\<lambda>y. fadd F y delta"])

lemma node_shift: "node F delta (fadd F x delta) = (\<lambda>k. node F delta x (Suc k))"
  by (rule ext) simp

definition add_nodes :: "fpu \<Rightarrow> double \<Rightarrow> double list \<Rightarrow> double \<Rightarrow> double" where
  "add_nodes F delta xs acc = foldl (\<lambda>s x. fadd F s (fmul F (func F x) delta)) acc xs"

text \<open>The step is not lost to rounding anywhere below the end of the interval.\<close>

definition advances :: "fpu \<Rightarrow> double \<Rightarrow> double \<Rightarrow> bool" where
  "advances F bound delta \<longleftrightarrow> (\<forall>x. flt x bound \<longrightarrow> flt x (fadd F x delta))"

text \<open>
  \<open>trapezoid_rule F t v\<close>: \<open>v\<close> is the trapezoid sum over the nodes from the start of the task to its
  end, a step apart: those below the end at full weight, the ends at half.
\<close>

definition trapezoid_rule :: "fpu \<Rightarrow> task_data \<Rightarrow> double \<Rightarrow> bool" where
  "trapezoid_rule F t v \<longleftrightarrow> (\<exists>n. (\<forall>k < n. flt (node F (step_of t) (start_of t) (Suc k)) (end_of t)) \<and>
     \<not> flt (node F (step_of t) (start_of t) (Suc n)) (end_of t) \<and>
     v = add_ends F t (add_nodes F (step_of t) (map (\<lambda>k. node F (step_of t) (start_of t) (Suc k)) [0..<n]) 0))"

lemma add_inner_nodes:
  assumes "advances F bound delta"
  shows "\<exists>n. (\<forall>k < n. flt (node F delta x k) bound) \<and> \<not> flt (node F delta x n) bound \<and>
    add_inner F bound delta x acc = Some (add_nodes F delta (map (node F delta x) [0..<n]) acc)"
proof (induction "nat (rank bound - rank x)" arbitrary: x acc rule: less_induct)
  case less
  show ?case
  proof (cases "flt x bound")
    case True
    then have "rank x < rank (fadd F x delta)" "rank x < rank bound"
      using assms by (auto simp: advances_def intro: flt_rank)
    then have "nat (rank bound - rank (fadd F x delta)) < nat (rank bound - rank x)" by simp
    from less [OF this, of "fadd F acc (fmul F (func F x) delta)"] obtain n where
      n: "\<forall>k < n. flt (node F delta x (Suc k)) bound" "\<not> flt (node F delta x (Suc n)) bound"
      "add_inner F bound delta (fadd F x delta) (fadd F acc (fmul F (func F x) delta)) =
        Some (add_nodes F delta (map (node F delta (fadd F x delta)) [0..<n]) (fadd F acc (fmul F (func F x) delta)))"
      by auto
    have "map (node F delta x) [0..<Suc n] = x # map (node F delta (fadd F x delta)) [0..<n]"
      by (simp add: upt_conv_Cons map_Suc_upt [symmetric] del: upt_Suc)
    then have "add_inner F bound delta x acc = Some (add_nodes F delta (map (node F delta x) [0..<Suc n]) acc)"
      using True n(3) by (simp add: add_inner.simps [of F bound delta x] add_nodes_def del: upt_Suc)
    moreover have "flt (node F delta x k) bound" if "k < Suc n" for k
      using that True n(1) by (cases k) auto
    ultimately show ?thesis using n(2) by blast
  next
    case False
    then show ?thesis by (intro exI [of _ 0]) (simp add: add_inner.simps [of F bound delta x] add_nodes_def)
  qed
qed

lemma trapezoid_returns:
  assumes "advances F (end_of t) (step_of t)"
  shows "\<exists>v. trapezoid F t = Some v \<and> trapezoid_rule F t v"
proof -
  obtain n where n: "\<forall>k < n. flt (node F (step_of t) (start_of t) (Suc k)) (end_of t)"
    "\<not> flt (node F (step_of t) (start_of t) (Suc n)) (end_of t)"
    "add_inner F (end_of t) (step_of t) (fadd F (start_of t) (step_of t)) 0 =
      Some (add_nodes F (step_of t) (map (node F (step_of t) (fadd F (start_of t) (step_of t))) [0..<n]) 0)"
    using add_inner_nodes [OF assms, of "fadd F (start_of t) (step_of t)" 0] unfolding node_shift by auto
  then show ?thesis unfolding trapezoid_def trapezoid_rule_def node_shift by auto
qed

section \<open>The bytes of a task and of a result\<close>

lemma slice_concat:
  "(\<And>x. x \<in> set xss \<Longrightarrow> length x = n) \<Longrightarrow> i < length xss \<Longrightarrow> slice (i * n) n (concat xss) = xss ! i"
proof (induction xss arbitrary: i)
  case (Cons xs xss)
  then show ?case by (cases i) (simp_all add: slice_def)
qed simp

lemma length_task_data_bytes [simp]: "length (task_data_bytes e t) = sizeof_task_data"
  by (simp add: task_data_bytes_def sizeof_task_data_def)

text \<open>A task that the server's program wrote is read by any client as the server meant it.\<close>

lemma parse_fixed_task:
  "fix_endianness e' (parse_task_data e' (task_data_bytes e (fix_endianness e t))) = t"
  by (simp add: task_data_bytes_def fix_endianness_def parse_task_data_def mem_htobe64 slice_def htobe64_mem)

lemma fill_tasks_eq: "fill_tasks F e = map (\<lambda>i. fix_endianness e (make_task F i)) [0..<12]"
proof -
  have "n \<le> length buff \<Longrightarrow> fold (\<lambda>i b. b[i := g i]) [0..<n] buff = map g [0..<n] @ drop n buff"
    for n and buff :: "task_data list" and g
  proof (induction n)
    case (Suc n)
    then show ?case by (simp add: list_update_append Cons_nth_drop_Suc [symmetric])
  qed simp
  then show ?thesis by (simp add: fill_tasks_def NUM_TASKS_def)
qed

definition task_at :: "fpu \<Rightarrow> endian \<Rightarrow> nat \<Rightarrow> u8 list" where
  "task_at F e i = slice (i * sizeof_task_data) sizeof_task_data (task_buff F e)"

lemma task_at_bytes: "i < 12 \<Longrightarrow> task_at F e i = task_data_bytes e (fix_endianness e (make_task F i))"
  unfolding task_at_def task_buff_def by (subst slice_concat) (auto simp: fill_tasks_eq)

lemma integral_of_task:
  assumes "i < 12" and "advances F (end_of (make_task F i)) diff"
  shows "\<exists>v. trapezoid_rule F (make_task F i) v \<and>
    integral_thread F e (Some (Some (task_at F (host E) i))) = Some (Inr (mem_of_u64 e v)) \<and>
    integral F e (task_at F (host E) i) = mem_of_u64 e v"
proof -
  have "step_of (make_task F i) = diff" by (simp add: make_task_def)
  then obtain v where "trapezoid F (make_task F i) = Some v" "trapezoid_rule F (make_task F i) v"
    using trapezoid_returns assms(2) by metis
  then show ?thesis
    by (intro exI [of _ v]) (simp add: integral_def integral_thread_def task_at_bytes [OF assms(1)] parse_fixed_task)
qed

section \<open>The sum of the results\<close>

lemma sum_results_values:
  assumes "\<And>i. i \<in> set is \<Longrightarrow> ret_val (host E) (user_rets (hnd w)) i = v i \<and> \<not> is_nan (v i)"
  shows "sum_results E F is result w = Some (Inr (foldl (fadd F) result (map v is)), w)"
  using assms
  by (induction "is" arbitrary: result) (simp_all add: bind_def andthen_def get_def bug_on_def return_def)

section \<open>The properties\<close>


text \<open>
  Arithmetic that satisfies the hypothesis: addition counts the bit patterns up, to infinity at
  most. The caller's buffer holds what the twelve computations give.
\<close>

definition plus_inf :: double where
  "plus_inf = 0x7FF0000000000000"

lemma magnitude_take_bit: "magnitude x = take_bit 63 x"
  by (simp add: magnitude_def take_bit_eq_mask mask_eq_exp_minus_1)

lemma positive:
  assumes "x \<le> plus_inf"
  shows "\<not> bit x 63" "magnitude x = x" and "\<not> is_nan x" "rank x = uint x"
proof -
  have "x < 2 ^ 63" using assms by (rule order.strict_trans1) (simp add: plus_inf_def)
  then have "uint x < 2 ^ 63" by (simp add: word_less_def)
  then have t: "take_bit 63 x = x"
    by (intro word_uint_eqI) (simp add: unsigned_take_bit_eq take_bit_int_eq_self)
  then show m: "magnitude x = x" by (simp add: magnitude_take_bit)
  show b: "\<not> bit x 63" by (subst t [symmetric]) (simp add: bit_take_bit_iff)
  show "\<not> is_nan x" using assms by (simp add: is_nan_def m plus_inf_def)
  show "rank x = uint x" by (simp add: rank_def b m)
qed

definition counting :: fpu where
  "counting = \<lparr>fadd = (\<lambda>x y. min plus_inf (if bit x 63 then y else x + y)), fsub = (-), fmul = (*), fdiv = (div), of_size = id\<rparr>"

lemma counting_advances: "advances counting bound diff"
  unfolding advances_def diff_def
proof (intro allI impI)
  fix x
  assume x: "flt x bound"
  let ?d = "0x3E45798EE2308C3A :: double" let ?y = "fadd counting x ?d"
  have y: "\<not> is_nan ?y" "rank ?y = uint ?y" by (auto intro!: positive simp: counting_def)
  have "rank x < uint ?y"
  proof (cases "bit x 63")
    case True
    then have "rank x \<le> 0" by (simp add: rank_def)
    moreover have "?y = ?d" using True by (simp add: counting_def plus_inf_def)
    ultimately show ?thesis by simp
  next
    case False
    have "bit x n \<Longrightarrow> n < 63" for n
      using False bit_imp_le_length [of x n] by (cases "n = 63") auto
    then have m: "magnitude x = x"
      unfolding magnitude_take_bit by (auto intro!: bit_word_eqI simp: bit_simps)
    have "rank x < rank bound" "\<not> is_nan bound" using x by (simp_all add: flt_def)
    moreover have "rank bound \<le> uint (magnitude bound)" by (simp add: rank_def)
    ultimately have inf: "x < plus_inf"
      using False by (simp add: is_nan_def rank_def m plus_inf_def word_less_def)
    then have "uint (x + ?d) = uint x + uint ?d"
      by (intro uint_plus_simple) (simp add: plus_inf_def word_less_def word_le_def uint_word_ariths)
    then have "uint x < uint (min plus_inf (x + ?d))" using inf by (simp add: min_def word_less_def)
    then show ?thesis using False m by (simp add: counting_def rank_def)
  qed
  then show "flt x ?y" using x y by (simp add: flt_def)
qed

lemma counting_rule_not_nan: "trapezoid_rule counting t v \<Longrightarrow> \<not> is_nan v"
  unfolding trapezoid_rule_def add_ends_def by (auto intro!: positive(3) simp: counting_def)

definition full :: server where
  "full = (solo 0 0 COMPLETED)\<lparr>user_rets :=
     concat (map (\<lambda>i. integral counting LittleEndian (task_at counting LittleEndian i)) [0..<12])\<rparr>"


end
