(* ===== verification/IntegralCluster.thy ===== *)
theory IntegralCluster
  imports SystemSpec IntegralSpec
begin

text \<open>
  The integral programs on the cluster: what the server's program finds in its buffer when the
  cluster has completed the tasks it wrote, which is what its last loop adds up.
\<close>

lemma cluster_integrates:
  assumes "system_start s0" and "system_steps f s0 s"
    and job: "num_tasks (srv s) = NUM_TASKS" "server.task_size (srv s0) = of_nat sizeof_task_data"
      "user_tasks (srv s0) = task_buff F (host E)"
    and f: "\<And>i. i < 12 \<Longrightarrow> f (task_at F (host E) i) = integral F e (task_at F (host E) i)"
    and "num_completed (srv s) = num_tasks (srv s)"
  shows "user_rets (srv s) = concat (map (\<lambda>i. integral F e (task_at F (host E) i)) [0..<12])"
proof -
  have "task_bytes (srv s0) = task_at F (host E)"
    using job(2,3) by (intro ext) (simp add: task_bytes_def task_at_def sizeof_task_data_def)
  moreover have "unat (num_tasks (srv s)) = 12" using job(1) by (simp add: NUM_TASKS_def)
  moreover have "concat (map (\<lambda>i. f (task_at F (host E) i)) [0..<12]) =
      concat (map (\<lambda>i. integral F e (task_at F (host E) i)) [0..<12])"
    using f by (intro arg_cong [of _ _ concat] map_cong) simp_all
  ultimately show ?thesis using reached_results [OF assms(1,2)] assms(7) by simp
qed

end
