(* ===== verification/Spec2Isabelle.thy ===== *)
theory Spec2Isabelle
  imports ServerSpec ClientSpec SystemSpec LoggingSpec IntegralCluster
begin

text \<open>
  A verification of the computing cluster: a server (cluster-api/cluster-server.c) that hands the
  tasks of a caller to clients over TCP and collects their results, the client
  (cluster-api/cluster-client.c) that finds the server, computes tasks on its threads and sends
  the results back, their wire format (cluster-api/Config.h), the logging macros
  (cluster-api/Logging.h, logging.c), and the example that integrates a function on the cluster
  (integral-computation/).

  \<^bold>\<open>How a C program is modelled.\<close> Machine: a program is a function from a world (the component's
  handle, which is the C struct, and the history of system calls) to its outcome: \<open>None\<close> if it
  never returns, otherwise a value or the way the process stopped, with the world at that moment.
  A stop is \<open>LOG_ERROR\<close> with \<open>exit\<close> (\<open>Fatal\<close>), a \<open>BUG_ON\<close> (\<open>Bug\<close>), \<open>exit(EXIT_SUCCESS)\<close>
  (\<open>Quit\<close>) or undefined behaviour of C (\<open>Undef\<close>: an access out of bounds, a division by zero),
  which is written out where the code can run into it. The operating system is an argument, the
  \<open>env\<close>: it answers each call from the whole history of calls, so it can do anything a kernel can;
  what a property needs of it is a named hypothesis (\<open>kernel_sound\<close>, \<open>takes_all\<close>, \<open>spawns\<close>,
  \<open>smooth\<close>, \<open>delivers\<close>, \<open>hands_out\<close>), and Kernels has concrete kernels that satisfy them. The
  contents of uninitialised memory and the host's byte order come from the \<open>env\<close> too. A loop
  without a bound in the code is \<open>loop\<close>, a partial function that is \<open>None\<close> when the loop runs
  forever; no fuel is used anywhere, and where a property says that a loop ends, that it has a
  value is part of the statement. \<open>wpg\<close> is the weakest precondition of a program, partial or total;
  its rules are the collection \<open>wp\<close>. Prelude has the word types of the C types and the lemmas on
  lists and words, Contract the locale of the operations that keep an invariant and stop in an
  admissible way (interpreted for the server as \<open>srv\<close> and for the client as \<open>cl\<close>), SlotTable the
  locale of the fixed tables with a linear search for a free cell (interpreted as \<open>conn_table\<close>,
  \<open>task_slots\<close> and \<open>threads\<close>).

  \<^bold>\<open>Wire format.\<close> Wire: each constant and command of Config.h, \<open>struct RequestHeader\<close>, the host's
  memory layout and \<open>htobe32\<close>; Datagram: the discovery datagrams.

  \<^bold>\<open>Server.\<close> ServerState is ClusterServer.h: \<open>server\<close> is \<open>struct ClusterServerHandle\<close>,
  \<open>connection\<close> \<open>struct Connection\<close>, \<open>task_info\<close> \<open>struct TaskInfo\<close>; buffers are byte lists, the
  caller's \<open>user_tasks\<close> and \<open>user_rets\<close> included. ServerDiscovery, ServerTasks, ServerConn and
  ServerLoop have the functions of cluster-server.c under their C names; a block of the body of
  \<open>server_eventloop\<close> is a definition of its own (\<open>hangup_connection\<close>, \<open>accept_all\<close>,
  \<open>receive_on_connection\<close>, \<open>send_on_connection\<close>, ...), composed in \<open>process_event\<close> in the order
  of the code. ServerInv has the invariant: the sizes fit, the counters count, a task is
  \<open>RESOLVING\<close> exactly when one cell of one connection holds it, a connection that is closed holds
  nothing. ServerPool has the contract of the task management, a pool of tasks that are to do, held
  by one connection, or done with a result, and shows that the operations refine its three steps.
  ServerSafety goes through the whole event loop: every block keeps the invariant, makes only
  steps of the pool, and stops in an orderly way or by one of two named undefined accesses.
  ServerInit has the initialisation from uninitialised memory and \<open>compute_task\<close>; ServerStream
  the reading of messages that TCP cuts in pieces, ServerSend the send loop under kernels that
  take everything, nothing, or report a lost peer; Scenarios and ServerScenario the concrete
  states; ServerSpec the properties.

  \<^bold>\<open>Client.\<close> ClientState is ClusterClient.h; ClientDiscovery, ClientConn, ClientTasks and
  ClientLoop have the functions of cluster-client.c (those that have a namesake in the server with
  the prefix \<open>client_\<close>). ClientInv has the invariant (the regions of the threads do not overlap, a
  busy thread's result region is the computation's value on its task region) and the abstract
  view, a list of slots that are idle, running a task or ready with a result. ClientSteps and
  ClientSafety show that each block keeps the invariant and makes only steps of the slots,
  ClientRun that the threads' runs commute, ClientInit that the initialisation establishes the
  invariant, ClientConnect, ClientBatch, ClientStream, ClientMessages and ClientSend what the
  single operations do with the kernel; ClientSpec has the properties.

  \<^bold>\<open>The cluster.\<close> Protocol is the specification of the whole: the pool of tasks and, for each
  connection, a link with the messages under way in both directions and the client's slots. Its
  invariant accounts for every request and every task. ServerEnd and ClientEnd say what each
  operation does to one end of a link. System puts one server and any number of clients together,
  with a byte stream in each direction of each connection; a step runs one operation of the model
  on a handle, over a kernel that hands it any piece of the stream or appends what it sends.
  SystemSim shows that it refines the protocol (the locale \<open>simulation\<close>, interpreted as \<open>sys\<close>);
  ProtocolLive and SystemLive show that no run of the connected programs is endless (the locale
  \<open>measured_simulation\<close>, interpreted as \<open>working\<close>, with the weight of the protocol state and the
  number of unread bytes) and that none ends before the tasks are done. SystemScenario is a whole
  run on concrete states; SystemSpec has the properties.

  \<^bold>\<open>Logging.\<close> Logging has \<open>acquire_log_fd\<close>, the macros and \<open>set_log_file\<close> with every library
  call; LoggingSpec shows that the log descriptor is used properly and that a failed \<open>BUG_ON\<close> and
  \<open>LOG_ERROR\<close> with \<open>exit\<close> always end the process, which is what the other theories assume of them.

  \<^bold>\<open>Integral.\<close> Doubles has the type \<open>double\<close> as 64 bits with its comparisons and \<open>htobe64\<close>; its
  arithmetic is a parameter, the record \<open>fpu\<close>, because C leaves its accuracy to the
  implementation. Integral has both programs, IntegralSpec what they compute, IntegralCluster the
  connection to the cluster.

  \<^bold>\<open>Where threads are placed.\<close> The thread of either event loop is joined by the main thread,
  which does nothing to the handle in between but two \<open>epoll_ctl\<close> calls on fixed descriptors; its
  run is placed at the join. A computation thread reads its own task region, writes its own result
  region and then signals its event descriptor, and the event loop looks at neither before the
  signal; its run is placed at its start, and C28 shows that the order of the threads' runs does
  not matter.

  \<^bold>\<open>What the properties show.\<close> C1 to C5 are about the cluster: its results are right in every
  reachable state, it finishes, it refines the protocol, what arrives never stops a program, and a
  waiting client gets its task. C6 to C24 are about the server, C25 to C38 about the client, C39
  about the integral and C40 about the logging. Some of them show what goes wrong: a send event
  without a task to do stops the server (C15), a full window blocks it (C16), a broken pipe makes
  it read out of bounds (C17), a connection request on a full table stops it (C19), closed
  connections leak (C23); a host that refuses is tried forever (C32), an uninitialised
  \<open>max_cpu\<close> divides by zero (C36), two computations that end at once stop the client (C37), and
  large results overflow its send buffer (C38).

  \<^bold>\<open>Not modelled.\<close> The output of \<open>LOG\<close> outside Logging (it writes to the standard output and
  changes no state); the attributes of threads beyond the calls that set them; which events \<open>epoll\<close>
  was asked for, as a state of the kernel (the calls are in the history, but the steps of System
  may run an operation whenever it has something to do, so that C2 does not show that a client
  which waits is woken); the decimal output of doubles.
\<close>

end
